(* ===== verification/Dumper_Prelude.thy ===== *)
theory Dumper_Prelude
  imports
    Complex_Main
    "HOL-Library.AList"
    "HOL-Library.Char_ord"
    "HOL-Library.List_Lexorder"
    "HOL-Library.Product_Lexorder"
begin

text \<open>
  Shared vocabulary of the development: the Python exceptions the library raises, results of
  fallible code, Python dictionaries as association lists in insertion order, the ordered and
  limited reads a Django query set makes, and the collections of facts the component proofs
  use.

  Instants and durations are rationals (seconds). Python rounds a duration to microseconds;
  the model does not round.
\<close>

named_theorems dumper_defs \<open>definitions of handlers, unfolded by proofs about whole handlers\<close>
named_theorems row_simps \<open>rewrite rules about the rows of the attempt table\<close>
named_theorems frame \<open>what an operation leaves unchanged\<close>

type_synonym instant = rat
type_synonym seconds = rat

section \<open>Exceptions and results\<close>

text \<open>
  The exceptions that cross a function boundary, all of them subclasses of Python's \<open>Exception\<close>. Messages
  are shortened to the part that tells the raising places apart.
\<close>

datatype exn =
    ValueError string
  | TypeError string
  | AttributeError string
  | OverflowError
  | ConditionEvaluationError
  | CeleryTaskLockedError string
  | OperationalError
  | QueueConfigurationError string
  | UnsupportedBrokerError string
  | QueueArgumentsMismatchError string
  | BrokerUnreachableError string
  | CommandError string
  | SendError
  | ChainReadError
  | TimeoutError
  | NotImplementedError
  | ModuleNotFoundError string
  | ImportError string
  | DoesNotExist
  | UserError string

type_synonym 'a res = "exn + 'a"

text \<open>
  What leaves a function that may also end the process: an \<open>Exception\<close>, or an exit that no
  \<open>except Exception\<close> catches (\<open>SystemExit\<close> and the like), with its message.
\<close>

datatype raised = Raised exn | Exited string

section \<open>Dictionaries\<close>

text \<open>
  A Python dictionary keeps its insertion order, so it is an association list.
  \<^const>\<open>AList.update\<close> overwrites in place or appends, as assignment to a key does.
\<close>

type_synonym ('k, 'v) dict = "('k \<times> 'v) list"

definition dict_update :: "('k, 'v) dict \<Rightarrow> ('k, 'v) dict \<Rightarrow> ('k, 'v) dict" where
  "dict_update d e = fold (\<lambda>(k, v) acc. AList.update k v acc) e d"

lemma dict_update_Nil [simp]: "dict_update d [] = d"
  by (simp add: dict_update_def)

lemma dict_update_Cons [simp]:
  "dict_update d ((k, v) # e) = dict_update (AList.update k v d) e"
  by (simp add: dict_update_def)

lemma map_of_dict_update:
  "distinct (map fst e) \<Longrightarrow> map_of (dict_update d e) = map_of d ++ map_of e"
proof (induction e arbitrary: d)
  case Nil
  then show ?case by simp
next
  case (Cons p e)
  obtain k v where p: "p = (k, v)" by fastforce
  from Cons.prems p have k: "k \<notin> set (map fst e)" and e: "distinct (map fst e)" by auto
  from k have "map_of e k = None" by (simp add: map_of_eq_None_iff)
  then show ?case
    using Cons.IH [OF e, of "AList.update k v d"] p
    by (auto simp: update_conv' map_add_def fun_eq_iff split: option.splits)
qed

lemma distinct_dict_update:
  "distinct (map fst d) \<Longrightarrow> distinct (map fst (dict_update d e))"
proof (induction e arbitrary: d)
  case (Cons p e)
  then show ?case by (cases p) (simp add: distinct_update)
qed simp

lemma set_dict_update: "set (dict_update d e) \<subseteq> set d \<union> set e"
proof (induction e arbitrary: d)
  case (Cons p e)
  have upd: "set (AList.update k v d) \<subseteq> insert (k, v) (set d)" for k :: 'a and v :: 'b
    by (induction d) auto
  show ?case using Cons.IH [of "AList.update (fst p) (snd p) d"] upd [of "fst p" "snd p"] by (cases p) auto
qed simp

lemma dict_update_keys: "fst ` set (dict_update d e) = fst ` set d \<union> fst ` set e"
proof (induction e arbitrary: d)
  case (Cons p e)
  then show ?case by (cases p) (simp add: dom_update)
qed simp

section \<open>Lists\<close>

lemma map_if_id: "(\<And>x. x \<in> set xs \<Longrightarrow> p x \<Longrightarrow> f x = x) \<Longrightarrow> map (\<lambda>x. if p x then f x else x) xs = xs"
  by (induction xs) auto

lemma filter_length_le_1:
  "distinct (map f xs) \<Longrightarrow> length (filter (\<lambda>x. f x = k \<and> p x) xs) \<le> 1"
proof (induction xs)
  case (Cons x xs)
  show ?case
  proof (cases "f x = k \<and> p x")
    case True
    with Cons.prems have "filter (\<lambda>x. f x = k \<and> p x) xs = []"
      by (auto simp: filter_empty_conv image_iff)
    with True show ?thesis by simp
  next
    case False
    have "length (filter (\<lambda>x. f x = k \<and> p x) xs) \<le> 1"
      using Cons.IH Cons.prems by simp
    with False show ?thesis by auto
  qed
qed simp

lemma distinct_map_inj_eq:
  "distinct (map f xs) \<Longrightarrow> x \<in> set xs \<Longrightarrow> y \<in> set xs \<Longrightarrow> f x = f y \<Longrightarrow> x = y"
  by (auto simp: distinct_map inj_on_def)

text \<open>The rows a query returns with \<open>order_by\<close> and a slice \<open>[:limit]\<close>.\<close>

definition ordered_limit :: "('a \<Rightarrow> 'k::linorder) \<Rightarrow> int \<Rightarrow> 'a list \<Rightarrow> 'a list" where
  "ordered_limit k limit xs = take (nat limit) (sort_key k xs)"

lemma set_ordered_limit: "set (ordered_limit k limit xs) \<subseteq> set xs"
  by (metis ordered_limit_def set_sort set_take_subset)

lemma ordered_limit_filterD:
  "x \<in> set (ordered_limit k limit (filter p xs)) \<Longrightarrow> x \<in> set xs \<and> p x"
  using set_ordered_limit [of k limit "filter p xs"] by auto

lemma length_ordered_limit: "length (ordered_limit k limit xs) \<le> nat limit"
  by (simp add: ordered_limit_def)

lemma int_length_ordered_limit: "0 \<le> limit \<Longrightarrow> int (length (ordered_limit k limit xs)) \<le> limit"
  by (simp add: ordered_limit_def)

lemma set_ordered_limit_all:
  "int (length xs) \<le> limit \<Longrightarrow> set (ordered_limit k limit xs) = set xs"
  by (simp add: ordered_limit_def)

lemma sorted_ordered_limit: "sorted (map k (ordered_limit k limit xs))"
  by (simp add: ordered_limit_def flip: take_map)

lemma ordered_limit_distinct: "distinct (map f xs) \<Longrightarrow> distinct (map f (ordered_limit k limit xs))"
  by (simp add: ordered_limit_def distinct_map flip: take_map)

end
