(* ===== verification/Json_Args.thy ===== *)
theory Json_Args
  imports Dumper_Prelude "HOL-Library.Multiset"
begin

text \<open>
  Task arguments and their stored form: \<open>utils.serialize_args\<close>, which is
  \<open>json.dumps(args, sort_keys=True)\<close>, and \<open>TaskAttempt.args_dict\<close>, which reads the stored
  text back with \<open>json.loads\<close> and falls back to \<open>{}\<close>.

  Argument values are JSON values without floats; strings are sequences of code points below
  256. The reader therefore rejects numbers with a fraction or an exponent and \<open>\\u\<close> escapes of
  256 and above, which the writer never produces for these values.
\<close>

section \<open>Values\<close>

datatype json =
    JNull
  | JBool bool
  | JInt int
  | JStr string
  | JList "json list"
  | JDict "(string \<times> json) list"

type_synonym jdict = "(string, json) dict"

text \<open>Dictionaries have each key once, at every level.\<close>

primrec wf_json :: "json \<Rightarrow> bool" where
  "wf_json JNull = True"
| "wf_json (JBool b) = True"
| "wf_json (JInt i) = True"
| "wf_json (JStr s) = True"
| "wf_json (JList xs) = list_all (\<lambda>b. b) (map wf_json xs)"
| "wf_json (JDict kvs) =
     (distinct (map fst kvs) \<and> list_all snd (map (map_prod id wf_json) kvs))"

lemma wf_JList [simp]: "wf_json (JList xs) \<longleftrightarrow> (\<forall>x \<in> set xs. wf_json x)"
  by (auto simp: list_all_iff)

lemma wf_JDict [simp]:
  "wf_json (JDict kvs) \<longleftrightarrow> distinct (map fst kvs) \<and> (\<forall>(k, v) \<in> set kvs. wf_json v)"
  by (auto simp: list_all_iff)

declare wf_json.simps(5,6) [simp del]

section \<open>json.dumps with sort_keys\<close>

text \<open>Sorting the keys at every level, by code points.\<close>

primrec canon :: "json \<Rightarrow> json" where
  "canon JNull = JNull"
| "canon (JBool b) = JBool b"
| "canon (JInt i) = JInt i"
| "canon (JStr s) = JStr s"
| "canon (JList xs) = JList (map canon xs)"
| "canon (JDict kvs) = JDict (sort_key fst (map (map_prod id canon) kvs))"

definition digit :: "nat \<Rightarrow> char" where
  "digit n = char_of (48 + n)"

fun show_nat :: "nat \<Rightarrow> string" where
  "show_nat n = (if n < 10 then [digit n] else show_nat (n div 10) @ [digit (n mod 10)])"

declare show_nat.simps [simp del]

definition show_int :: "int \<Rightarrow> string" where
  "show_int i = (if i < 0 then CHR ''-'' # show_nat (nat (- i)) else show_nat (nat i))"

definition hex_digit :: "nat \<Rightarrow> char" where
  "hex_digit n = (if n < 10 then char_of (48 + n) else char_of (87 + n))"

abbreviation (input) quote_char :: char where "quote_char \<equiv> CHR 0x22"
abbreviation (input) backslash :: char where "backslash \<equiv> CHR 0x5C"

text \<open>\<open>ensure_ascii\<close>: only the printable ASCII characters stand for themselves.\<close>

definition escape :: "char \<Rightarrow> string" where
  "escape c =
     (if c = quote_char then [backslash, quote_char]
      else if c = backslash then [backslash, backslash]
      else if c = CHR 0x0A then [backslash, CHR ''n'']
      else if c = CHR 0x0D then [backslash, CHR ''r'']
      else if c = CHR 0x09 then [backslash, CHR ''t'']
      else if c = CHR 0x0C then [backslash, CHR ''f'']
      else if c = CHR 0x08 then [backslash, CHR ''b'']
      else if 32 \<le> (of_char c :: nat) \<and> (of_char c :: nat) \<le> 126 then [c]
      else [backslash, CHR ''u'', CHR ''0'', CHR ''0'',
            hex_digit (of_char c div 16), hex_digit (of_char c mod 16)])"

definition dumps_str :: "string \<Rightarrow> string" where
  "dumps_str s = quote_char # concat (map escape s) @ [quote_char]"

fun join :: "string \<Rightarrow> string list \<Rightarrow> string" where
  "join sep [] = []"
| "join sep [s] = s"
| "join sep (s # ss) = s @ sep @ join sep ss"

primrec render :: "json \<Rightarrow> string" where
  "render JNull = ''null''"
| "render (JBool b) = (if b then ''true'' else ''false'')"
| "render (JInt i) = show_int i"
| "render (JStr s) = dumps_str s"
| "render (JList xs) = ''['' @ join '', '' (map render xs) @ '']''"
| "render (JDict kvs) =
     ''{'' @ join '', '' (map (\<lambda>(k, t). dumps_str k @ '': '' @ t) (map (map_prod id render) kvs)) @ ''}''"

definition dumps :: "json \<Rightarrow> string" where
  "dumps v = render (canon v)"

definition serialize_args :: "jdict \<Rightarrow> string" where
  "serialize_args args = dumps (JDict args)"

section \<open>json.loads\<close>

definition is_ws :: "char \<Rightarrow> bool" where
  "is_ws c \<longleftrightarrow> c = CHR '' '' \<or> c = CHR 0x09 \<or> c = CHR 0x0A \<or> c = CHR 0x0D"

definition skip_ws :: "string \<Rightarrow> string" where
  "skip_ws s = dropWhile is_ws s"

definition is_digit :: "char \<Rightarrow> bool" where
  "is_digit c \<longleftrightarrow> 48 \<le> (of_char c :: nat) \<and> (of_char c :: nat) \<le> 57"

definition nat_of_digits :: "string \<Rightarrow> nat" where
  "nat_of_digits ds = foldl (\<lambda>a c. 10 * a + (of_char c - 48)) 0 ds"

definition hex_val :: "char \<Rightarrow> nat option" where
  "hex_val c =
     (let n = of_char c in
      if 48 \<le> n \<and> n \<le> 57 then Some (n - 48)
      else if 97 \<le> n \<and> n \<le> 102 then Some (n - 87)
      else if 65 \<le> n \<and> n \<le> 70 then Some (n - 55) else None)"

definition unescape :: "char \<Rightarrow> char option" where
  "unescape e =
     (if e = quote_char then Some quote_char
      else if e = backslash then Some backslash
      else if e = CHR ''/'' then Some (CHR ''/'')
      else if e = CHR ''n'' then Some (CHR 0x0A)
      else if e = CHR ''r'' then Some (CHR 0x0D)
      else if e = CHR ''t'' then Some (CHR 0x09)
      else if e = CHR ''f'' then Some (CHR 0x0C)
      else if e = CHR ''b'' then Some (CHR 0x08) else None)"

definition hex4 :: "char \<Rightarrow> char \<Rightarrow> char \<Rightarrow> char \<Rightarrow> char option" where
  "hex4 a b c d =
     (case (hex_val a, hex_val b, hex_val c, hex_val d) of
        (Some w, Some x, Some y, Some z) \<Rightarrow>
          let n = ((w * 16 + x) * 16 + y) * 16 + z in if n < 256 then Some (char_of n) else None
      | _ \<Rightarrow> None)"

abbreviation (input) cons_fst :: "'a \<Rightarrow> ('a list \<times> 'b) option \<Rightarrow> ('a list \<times> 'b) option" where
  "cons_fst x \<equiv> map_option (\<lambda>(xs, r). (x # xs, r))"

text \<open>The body of a string literal, after its opening quote.\<close>

fun parse_str :: "string \<Rightarrow> (string \<times> string) option" where
  "parse_str [] = None"
| "parse_str (c # s) =
     (if c = quote_char then Some ([], s)
      else if c = backslash then
        (case s of
           [] \<Rightarrow> None
         | e # s' \<Rightarrow>
             if e = CHR ''u'' then
               (case s' of
                  h1 # h2 # h3 # h4 # s'' \<Rightarrow>
                    (case hex4 h1 h2 h3 h4 of None \<Rightarrow> None | Some x \<Rightarrow> cons_fst x (parse_str s''))
                | _ \<Rightarrow> None)
             else (case unescape e of None \<Rightarrow> None | Some x \<Rightarrow> cons_fst x (parse_str s')))
      else if (of_char c :: nat) < 32 then None
      else cons_fst c (parse_str s))"

definition parse_digits :: "string \<Rightarrow> (nat \<times> string) option" where
  "parse_digits s =
     (case s of
        [] \<Rightarrow> None
      | c # r \<Rightarrow>
          if c = CHR ''0'' then Some (0, r)
          else if is_digit c then Some (nat_of_digits (takeWhile is_digit s), dropWhile is_digit s)
          else None)"

definition number_ends :: "string \<Rightarrow> bool" where
  "number_ends r \<longleftrightarrow> (case r of [] \<Rightarrow> True | c # _ \<Rightarrow> c \<noteq> CHR ''.'' \<and> c \<noteq> CHR ''e'' \<and> c \<noteq> CHR ''E'')"

definition parse_number :: "string \<Rightarrow> (json \<times> string) option" where
  "parse_number s =
     (let negative = (case s of c # _ \<Rightarrow> c = CHR ''-'' | [] \<Rightarrow> False) in
      case parse_digits (if negative then tl s else s) of
        None \<Rightarrow> None
      | Some (n, r) \<Rightarrow>
          if number_ends r then Some (JInt (if negative then - int n else int n), r) else None)"

fun parse_value :: "nat \<Rightarrow> string \<Rightarrow> (json \<times> string) option"
  and parse_elems :: "nat \<Rightarrow> string \<Rightarrow> (json list \<times> string) option"
  and parse_members :: "nat \<Rightarrow> string \<Rightarrow> ((string \<times> json) list \<times> string) option" where
  "parse_value 0 s = None"
| "parse_value (Suc fuel) s =
     (if take 1 s = [quote_char] then map_option (\<lambda>(t, r). (JStr t, r)) (parse_str (tl s))
      else if take 1 s = ''{'' then
        (let r = skip_ws (tl s) in
         if take 1 r = ''}'' then Some (JDict [], tl r)
         else map_option (\<lambda>(kvs, r'). (JDict (dict_update [] kvs), r')) (parse_members fuel r))
      else if take 1 s = ''['' then
        (let r = skip_ws (tl s) in
         if take 1 r = '']'' then Some (JList [], tl r)
         else map_option (\<lambda>(xs, r'). (JList xs, r')) (parse_elems fuel r))
      else if take 4 s = ''null'' then Some (JNull, drop 4 s)
      else if take 4 s = ''true'' then Some (JBool True, drop 4 s)
      else if take 5 s = ''false'' then Some (JBool False, drop 5 s)
      else parse_number s)"
| "parse_elems 0 s = None"
| "parse_elems (Suc fuel) s =
     (case parse_value fuel s of
        None \<Rightarrow> None
      | Some (v, r) \<Rightarrow>
          let r' = skip_ws r in
          if take 1 r' = '']'' then Some ([v], tl r')
          else if take 1 r' = '','' then cons_fst v (parse_elems fuel (skip_ws (tl r')))
          else None)"
| "parse_members 0 s = None"
| "parse_members (Suc fuel) s =
     (if take 1 s \<noteq> [quote_char] then None
      else (case parse_str (tl s) of
        None \<Rightarrow> None
      | Some (k, r) \<Rightarrow>
          let r' = skip_ws r in
          if take 1 r' \<noteq> '':'' then None
          else (case parse_value fuel (skip_ws (tl r')) of
            None \<Rightarrow> None
          | Some (v, q) \<Rightarrow>
              let q' = skip_ws q in
              if take 1 q' = ''}'' then Some ([(k, v)], tl q')
              else if take 1 q' = '','' then cons_fst (k, v) (parse_members fuel (skip_ws (tl q')))
              else None)))"

text \<open>The fuel is enough for every text the writer produces (\<open>parse_render\<close> below).\<close>

definition loads :: "string \<Rightarrow> json option" where
  "loads s =
     (case parse_value (2 * length s + 1) (skip_ws s) of
        Some (v, r) \<Rightarrow> if skip_ws r = [] then Some v else None
      | None \<Rightarrow> None)"

text \<open>\<open>TaskAttempt.args_dict\<close>: \<open>JSONDecodeError\<close> gives \<open>{}\<close>.\<close>

definition args_dict :: "string \<Rightarrow> json" where
  "args_dict args_json = (case loads args_json of Some v \<Rightarrow> v | None \<Rightarrow> JDict [])"

section \<open>Reading back what was written\<close>

subsection \<open>Numbers\<close>

lemma of_char_digit [simp]: "n < 10 \<Longrightarrow> (of_char (digit n) :: nat) = 48 + n"
  by (simp add: digit_def)

lemma is_digit_digit: "n < 10 \<Longrightarrow> is_digit (digit n)"
  by (simp add: is_digit_def)

lemma show_nat_digits: "\<forall>c \<in> set (show_nat n). is_digit c"
proof (induction n rule: show_nat.induct)
  case (1 n)
  then show ?case by (subst show_nat.simps) (auto simp: is_digit_digit)
qed

lemma show_nat_ne: "show_nat n \<noteq> []"
  by (subst show_nat.simps) simp

lemma nat_of_show_nat: "nat_of_digits (show_nat n) = n"
proof (induction n rule: show_nat.induct)
  case (1 n)
  show ?case
  proof (cases "n < 10")
    case True
    then show ?thesis by (subst show_nat.simps) (simp add: nat_of_digits_def)
  next
    case False
    with "1.IH" have "nat_of_digits (show_nat (n div 10)) = n div 10" by simp
    with False show ?thesis by (subst show_nat.simps) (simp add: nat_of_digits_def)
  qed
qed

lemma hd_show_nat: "0 < n \<Longrightarrow> hd (show_nat n) \<noteq> CHR ''0''"
proof (induction n rule: show_nat.induct)
  case (1 n)
  show ?case
  proof (cases "n < 10")
    case True
    then have "(of_char (digit n) :: nat) \<noteq> of_char (CHR ''0'')" using "1.prems" by simp
    then have "digit n \<noteq> CHR ''0''" by metis
    with True show ?thesis by (subst show_nat.simps) simp
  next
    case False
    with "1.IH" have "hd (show_nat (n div 10)) \<noteq> CHR ''0''" by simp
    with False show ?thesis by (subst show_nat.simps) (simp add: hd_append show_nat_ne)
  qed
qed

text \<open>What may follow a value: nothing that would make it a longer number.\<close>

definition stops :: "string \<Rightarrow> bool" where
  "stops r \<longleftrightarrow> number_ends r \<and> (case r of [] \<Rightarrow> True | c # _ \<Rightarrow> \<not> is_digit c)"

lemma stops_Cons: "stops (c # r) \<longleftrightarrow> c \<notin> {CHR ''.'', CHR ''e'', CHR ''E''} \<and> \<not> is_digit c"
  by (auto simp: stops_def number_ends_def)

lemma stops_simps [simp]:
  "stops []" "stops (CHR '','' # r)" "stops (CHR '']'' # r)" "stops (CHR ''}'' # r)"
  by (simp_all add: stops_def number_ends_def is_digit_def)

lemma takeWhile_digits:
  assumes "\<forall>c \<in> set ds. is_digit c" and "stops r"
  shows "takeWhile is_digit (ds @ r) = ds" and "dropWhile is_digit (ds @ r) = r"
  using assms by (induction ds) (auto simp: stops_def split: list.splits)

lemma parse_digits_show:
  assumes "stops r"
  shows "parse_digits (show_nat n @ r) = Some (n, r)"
proof (cases "n = 0")
  case True
  have "show_nat 0 = [CHR ''0'']" by (subst show_nat.simps) (simp add: digit_def char_of_eq_iff)
  with True show ?thesis by (simp add: parse_digits_def)
next
  case False
  obtain c s where cs: "show_nat n = c # s" using show_nat_ne by (cases "show_nat n") auto
  then have "c \<noteq> CHR ''0''" "is_digit c"
    using hd_show_nat [of n] show_nat_digits [of n] False by auto
  moreover note takeWhile_digits [OF show_nat_digits assms, of n] nat_of_show_nat [of n]
  ultimately show ?thesis using cs by (simp add: parse_digits_def)
qed

lemma show_nat_not_minus: "show_nat n @ r = c # s \<Longrightarrow> is_digit c"
  using show_nat_digits [of n] show_nat_ne [of n] by (cases "show_nat n") auto

lemma parse_number_show:
  assumes "stops r"
  shows "parse_number (show_int i @ r) = Some (JInt i, r)"
proof -
  have ends: "number_ends r" using assms by (simp add: stops_def)
  obtain c s where cs: "show_nat (nat i) @ r = c # s"
    using show_nat_ne [of "nat i"] by (cases "show_nat (nat i) @ r") auto
  then have "is_digit c" by (rule show_nat_not_minus)
  then have c: "c \<noteq> CHR ''-''" by (auto simp: is_digit_def)
  show ?thesis
  proof (cases "i < 0")
    case True
    with ends show ?thesis
      using parse_digits_show [OF assms, of "nat (- i)"] by (simp add: parse_number_def show_int_def)
  next
    case False
    with ends c show ?thesis
      using parse_digits_show [OF assms, of "nat i"] unfolding cs
      by (simp add: parse_number_def show_int_def cs)
  qed
qed

subsection \<open>Strings\<close>

lemma hex_val_digit: "n < 16 \<Longrightarrow> hex_val (hex_digit n) = Some n"
  by (auto simp: hex_val_def hex_digit_def Let_def)

lemma hex4_escape:
  "hex4 (CHR ''0'') (CHR ''0'') (hex_digit (of_char c div 16)) (hex_digit (of_char c mod 16)) = Some c"
proof -
  have "(of_char c :: nat) < 256" by simp
  then have "(of_char c :: nat) div 16 < 16" by (intro less_mult_imp_div_less) simp
  moreover have "hex_val (CHR ''0'') = Some 0" by (simp add: hex_val_def)
  ultimately show ?thesis by (simp add: hex4_def hex_val_digit Let_def)
qed

lemma parse_str_escape: "parse_str (escape c @ s) = cons_fst c (parse_str s)"
proof (cases "32 \<le> (of_char c :: nat) \<and> (of_char c :: nat) \<le> 126 \<or>
    c \<in> {quote_char, backslash, CHR 0x0A, CHR 0x0D, CHR 0x09, CHR 0x0C, CHR 0x08}")
  case True
  then show ?thesis by (auto simp: escape_def unescape_def)
next
  case False
  then have "escape c = [backslash, CHR ''u'', CHR ''0'', CHR ''0'',
      hex_digit (of_char c div 16), hex_digit (of_char c mod 16)]"
    by (auto simp: escape_def)
  then show ?thesis by (simp add: hex4_escape)
qed

lemma parse_str_dumps: "parse_str (concat (map escape s) @ quote_char # r) = Some (s, r)"
  by (induction s) (simp_all add: parse_str_escape del: parse_str.simps(2), simp)

subsection \<open>Values\<close>

text \<open>Fuel the reader spends on a value.\<close>

primrec need :: "json \<Rightarrow> nat" where
  "need JNull = 1"
| "need (JBool b) = 1"
| "need (JInt i) = 1"
| "need (JStr s) = 1"
| "need (JList xs) = 1 + sum_list (map Suc (map need xs))"
| "need (JDict kvs) = 1 + sum_list (map (Suc \<circ> snd) (map (map_prod id need) kvs))"

lemma hd_show_int: "\<exists>c s. show_int i = c # s \<and> (c = CHR ''-'' \<or> is_digit c)"
proof -
  obtain c s where "show_nat (nat i) = c # s" using show_nat_ne by (cases "show_nat (nat i)") auto
  moreover from this have "is_digit c" using show_nat_not_minus [of "nat i" "[]"] by simp
  ultimately show ?thesis by (simp add: show_int_def)
qed

lemma skip_ws_show_int [simp]: "skip_ws (show_int i @ r) = show_int i @ r"
  using hd_show_int [of i] by (auto simp: skip_ws_def is_ws_def is_digit_def)

lemma skip_ws_render [simp]: "skip_ws (render v @ r) = render v @ r"
  by (cases v) (simp_all, simp_all add: skip_ws_def is_ws_def dumps_str_def)

lemma parse_value_int:
  assumes "stops r" "0 < fuel"
  shows "parse_value fuel (show_int i @ r) = Some (JInt i, r)"
proof -
  obtain f where f: "fuel = Suc f" using assms(2) by (cases fuel) auto
  obtain c s where cs: "show_int i = c # s" "c = CHR ''-'' \<or> is_digit c"
    using hd_show_int [of i] by blast
  then have "c \<notin> {quote_char, CHR ''{'', CHR ''['', CHR ''n'', CHR ''t'', CHR ''f''}"
    by (auto simp: is_digit_def)
  then show ?thesis
    using parse_number_show [OF assms(1), of i] by (simp add: f cs(1))
qed

text \<open>A value the reader reads back, wherever it stands.\<close>

definition reads_back :: "json \<Rightarrow> bool" where
  "reads_back v \<longleftrightarrow>
     (\<forall>fuel r. need v \<le> fuel \<longrightarrow> stops r \<longrightarrow> parse_value fuel (render v @ r) = Some (v, r))"

lemma skip_ws_join [simp]:
  "xs \<noteq> [] \<Longrightarrow> skip_ws (join '', '' (map render xs) @ r) = join '', '' (map render xs) @ r"
  by (cases "('', '', map render xs)" rule: join.cases) auto

lemma take_show_int: "take 1 (show_int i @ r) \<noteq> '']''"
  using hd_show_int [of i] by (auto simp: is_digit_def)

lemma take_render_bracket: "take 1 (render v @ r) \<noteq> '']''"
  by (cases v) (simp_all add: dumps_str_def take_show_int [simplified])

lemma take_join_bracket: "xs \<noteq> [] \<Longrightarrow> take 1 (join '', '' (map render xs) @ r) \<noteq> '']''"
  using take_render_bracket by (cases "('', '', map render xs)" rule: join.cases) auto

lemma parse_elems_render:
  assumes "\<forall>x \<in> set xs. reads_back x" and "xs \<noteq> []"
    and "(\<Sum>x\<leftarrow>xs. Suc (need x)) \<le> fuel"
  shows "parse_elems fuel (join '', '' (map render xs) @ CHR '']'' # r) = Some (xs, r)"
  using assms
proof (induction xs arbitrary: fuel)
  case (Cons x xs)
  then obtain f where f: "fuel = Suc f" "need x \<le> f" "(\<Sum>x\<leftarrow>xs. Suc (need x)) \<le> f"
    by (cases fuel) auto
  have x: "parse_value f (render x @ q) = Some (x, q)" if "stops q" for q
    using Cons.prems(1) f(2) that by (simp add: reads_back_def)
  show ?case
  proof (cases xs)
    case Nil
    then show ?thesis by (simp add: f x skip_ws_def is_ws_def)
  next
    case (Cons y ys)
    then have ne: "xs \<noteq> []" by simp
    then have "join '', '' (map render (x # xs)) = render x @ '', '' @ join '', '' (map render xs)"
      by (simp add: Cons)
    moreover have "skip_ws (CHR '' '' # join '', '' (map render xs) @ q) = join '', '' (map render xs) @ q" for q
      using skip_ws_join [OF ne] by (simp add: skip_ws_def is_ws_def)
    ultimately show ?thesis
      using Cons.IH [OF _ ne f(3)] Cons.prems(1) by (simp add: f(1) x, simp add: skip_ws_def is_ws_def)
  qed
qed simp


lemma skip_ws_dumps_str [simp]: "skip_ws (dumps_str k @ r) = dumps_str k @ r"
  by (simp add: dumps_str_def skip_ws_def is_ws_def)

definition render_member :: "string \<times> json \<Rightarrow> string" where
  "render_member p = dumps_str (fst p) @ '': '' @ render (snd p)"

lemma render_JDict: "render (JDict kvs) = ''{'' @ join '', '' (map render_member kvs) @ ''}''"
proof -
  have "map (\<lambda>(k, t). dumps_str k @ '': '' @ t) (map (map_prod id render) kvs) = map render_member kvs"
    by (auto simp: render_member_def)
  then show ?thesis by (simp only: render.simps)
qed

lemma hd_join_members:
  assumes "kvs \<noteq> []"
  obtains t where "join '', '' (map render_member kvs) = quote_char # t"
  using assms
  by (cases "('', '', map render_member kvs)" rule: join.cases)
    (auto simp: render_member_def dumps_str_def)

lemma parse_members_render:
  assumes "\<forall>p \<in> set kvs. reads_back (snd p)" and "kvs \<noteq> []"
    and "(\<Sum>p\<leftarrow>kvs. Suc (need (snd p))) \<le> fuel"
  shows "parse_members fuel (join '', '' (map render_member kvs) @ CHR ''}'' # r) = Some (kvs, r)"
  using assms
proof (induction kvs arbitrary: fuel)
  case (Cons p kvs)
  obtain k v where p: "p = (k, v)" by fastforce
  from Cons.prems p obtain f where f: "fuel = Suc f" "need v \<le> f"
      "(\<Sum>p\<leftarrow>kvs. Suc (need (snd p))) \<le> f"
    by (cases fuel) auto
  have v: "parse_value f (render v @ q) = Some (v, q)" if "stops q" for q
    using Cons.prems(1) f(2) that p by (simp add: reads_back_def)
  have sp: "skip_ws (CHR '' '' # render v @ q) = render v @ q" for q
    using skip_ws_render [of v q] by (simp add: skip_ws_def is_ws_def)
  have pm: "parse_members fuel (dumps_str k @ '': '' @ render v @ q) =
      (let q' = skip_ws q in
       if take 1 q' = ''}'' then Some ([(k, v)], tl q')
       else if take 1 q' = '','' then cons_fst (k, v) (parse_members f (skip_ws (tl q')))
       else None)" if "stops q" for q
    using v [OF that] parse_str_dumps [of k "'': '' @ render v @ q"] sp [of q]
    by (simp add: f(1) dumps_str_def, simp add: skip_ws_def is_ws_def)
  show ?case
  proof (cases kvs)
    case Nil
    then show ?thesis
      using pm [of "CHR ''}'' # r"] by (simp add: p render_member_def skip_ws_def is_ws_def)
  next
    case (Cons p' ps)
    then have ne: "kvs \<noteq> []" by simp
    obtain t where t: "join '', '' (map render_member kvs) = quote_char # t"
      using hd_join_members [OF ne] .
    have "join '', '' (map render_member (p # kvs)) =
        render_member p @ '', '' @ join '', '' (map render_member kvs)"
      by (simp add: Cons)
    then have j: "join '', '' (map render_member (p # kvs)) @ CHR ''}'' # r =
        dumps_str k @ '': '' @ render v @ '', '' @ (quote_char # t) @ CHR ''}'' # r"
      unfolding t by (simp add: p render_member_def)
    have "parse_members f (quote_char # t @ CHR ''}'' # r) = Some (kvs, r)"
      using Cons.IH [OF _ ne f(3)] Cons.prems(1) by (simp add: t)
    then show ?thesis
      using pm [of "'', '' @ (quote_char # t) @ CHR ''}'' # r"] unfolding j
      by (simp add: p skip_ws_def is_ws_def)
  qed
qed simp

lemma dict_update_append:
  "distinct (map fst (d @ e)) \<Longrightarrow> dict_update d e = d @ e"
proof (induction e arbitrary: d)
  case (Cons p e)
  obtain k v where p: "p = (k, v)" by fastforce
  from Cons.prems p have "k \<notin> fst ` set d" by auto
  then have "AList.update k v d = d @ [(k, v)]" by (induction d) auto
  then show ?case using Cons.IH [of "d @ [(k, v)]"] Cons.prems p by simp
qed simp

lemma parse_render: "wf_json v \<Longrightarrow> reads_back v"
proof (induction v)
  case (JStr s)
  have "parse_value fuel (dumps_str s @ r) = Some (JStr s, r)" if "1 \<le> fuel" for fuel r
    using that parse_str_dumps [of s r] by (cases fuel) (simp_all add: dumps_str_def)
  then show ?case by (simp add: reads_back_def)
next
  case (JInt i)
  then show ?case by (simp add: reads_back_def parse_value_int)
next
  case (JList xs)
  show ?case unfolding reads_back_def
  proof (intro allI impI)
    fix fuel r assume fuel: "need (JList xs) \<le> fuel"
    then obtain f where f: "fuel = Suc f" "(\<Sum>x\<leftarrow>xs. Suc (need x)) \<le> f"
      by (cases fuel) (auto simp: comp_def)
    show "parse_value fuel (render (JList xs) @ r) = Some (JList xs, r)"
    proof (cases "xs = []")
      case True
      then show ?thesis by (simp add: f(1) skip_ws_def is_ws_def Let_def)
    next
      case False
      have "\<forall>x \<in> set xs. reads_back x" using JList by auto
      from parse_elems_render [OF this False f(2)] False show ?thesis
        using take_join_bracket [OF False, of "CHR '']'' # r"] by (simp add: f(1) Let_def)
    qed
  qed
next
  case (JDict kvs)
  show ?case unfolding reads_back_def
  proof (intro allI impI)
    fix fuel r assume fuel: "need (JDict kvs) \<le> fuel"
    then obtain f where f: "fuel = Suc f" "(\<Sum>p\<leftarrow>kvs. Suc (need (snd p))) \<le> f"
      by (cases fuel) (auto simp: comp_def)
    show "parse_value fuel (render (JDict kvs) @ r) = Some (JDict kvs, r)"
    proof (cases "kvs = []")
      case True
      then show ?thesis by (simp add: f(1) skip_ws_def is_ws_def Let_def)
    next
      case False
      have rb: "\<forall>p \<in> set kvs. reads_back (snd p)" using JDict by fastforce
      have "dict_update [] kvs = kvs" using JDict.prems dict_update_append [of "[]" kvs] by simp
      moreover obtain t where t: "join '', '' (map render_member kvs) = quote_char # t"
        using hd_join_members [OF False] .
      moreover note parse_members_render [OF rb False f(2), of r]
      ultimately show ?thesis
        unfolding render_JDict by (simp add: f(1) Let_def, simp add: skip_ws_def is_ws_def)
    qed
  qed
qed (auto simp: reads_back_def dest!: Suc_le_D)


subsection \<open>Enough fuel\<close>

lemma length_join_ge: "(\<Sum>s\<leftarrow>ss. Suc (length s)) \<le> Suc (length (join '', '' ss))"
  by (induction "'', ''" ss rule: join.induct) auto

lemma sum_list_double: "(\<Sum>x\<leftarrow>xs. 2 * Suc (f x)) = 2 * (\<Sum>x\<leftarrow>xs. Suc (f x))"
  by (induction xs) auto

lemma need_le: "need v \<le> 2 * length (render v)"
proof (induction v)
  case (JInt i)
  then show ?case using hd_show_int [of i] by auto
next
  case (JList xs)
  have "(\<Sum>x\<leftarrow>xs. Suc (need x)) \<le> (\<Sum>x\<leftarrow>xs. 2 * Suc (length (render x)))"
    using JList by (intro sum_list_mono) (simp add: le_SucI)
  also have "\<dots> = 2 * (\<Sum>s\<leftarrow>map render xs. Suc (length s))"
    unfolding sum_list_double by (simp add: comp_def)
  also have "\<dots> \<le> 2 * Suc (length (join '', '' (map render xs)))"
    using length_join_ge by (rule mult_le_mono2)
  finally show ?case by (simp add: comp_def)
next
  case (JDict kvs)
  have le: "need v \<le> 2 * length (render_member p)" if "p \<in> set kvs" "v = snd p" for p v
    using JDict [of p v] that by (cases p) (auto simp: render_member_def)
  have "(\<Sum>p\<leftarrow>kvs. Suc (need (snd p))) \<le> (\<Sum>p\<leftarrow>kvs. 2 * Suc (length (render_member p)))"
    using le by (intro sum_list_mono) (simp add: le_SucI)
  also have "\<dots> = 2 * (\<Sum>s\<leftarrow>map render_member kvs. Suc (length s))"
    unfolding sum_list_double by (simp add: comp_def)
  also have "\<dots> \<le> 2 * Suc (length (join '', '' (map render_member kvs)))"
    using length_join_ge by (rule mult_le_mono2)
  finally show ?case unfolding render_JDict by (simp add: comp_def)
qed (simp_all add: dumps_str_def)

lemma loads_render:
  assumes "wf_json v"
  shows "loads (render v) = Some v"
proof -
  have "parse_value (2 * length (render v) + 1) (render v @ []) = Some (v, [])"
    using parse_render [OF assms] need_le [of v] unfolding reads_back_def by (metis le_SucI Suc_eq_plus1 stops_simps(1))
  moreover have "skip_ws [] = []" by (simp add: skip_ws_def)
  ultimately show ?thesis using skip_ws_render [of v "[]"] by (simp add: loads_def)
qed

subsection \<open>Sorted keys\<close>

lemma distinct_sort_members: "distinct (map fst (sort_key fst kvs)) \<longleftrightarrow> distinct (map fst kvs)"
  by (rule mset_eq_imp_distinct_iff) (simp add: mset_map)

lemma wf_canon: "wf_json v \<Longrightarrow> wf_json (canon v)"
proof (induction v)
  case (JDict kvs)
  have "distinct (map fst (sort_key fst (map (map_prod id canon) kvs)))"
    using JDict.prems by (simp add: distinct_sort_members)
  moreover have "\<forall>(k, v) \<in> set (sort_key fst (map (map_prod id canon) kvs)). wf_json v"
    using JDict by fastforce
  ultimately show ?case by simp
qed auto

lemma canon_idem: "canon (canon v) = canon v"
proof (induction v)
  case (JDict kvs)
  let ?s = "sort_key fst (map (map_prod id canon) kvs)"
  have "map_prod id canon p = p" if p: "p \<in> set ?s" for p
  proof -
    from p obtain k v where q: "(k, v) \<in> set kvs" "p = (k, canon v)" by auto
    have "canon (canon v) = canon v" by (rule JDict [OF q(1)]) (simp add: prod_set_simps)
    then show ?thesis by (simp add: q(2))
  qed
  then have "map (map_prod id canon) ?s = ?s" by (rule map_idI)
  then show ?case by (simp add: sort_key_id_if_sorted)
qed auto

lemma map_of_sort_members:
  assumes "distinct (map fst kvs)"
  shows "map_of (sort_key fst (map (map_prod id canon) kvs)) k = map_option canon (map_of kvs k)"
proof -
  have "map_of (sort_key fst (map (map_prod id canon) kvs)) = map_of (map (map_prod id canon) kvs)"
    by (rule map_of_inject_set [THEN iffD2]) (use assms in \<open>simp_all add: distinct_sort_members\<close>)
  then have "map_of (sort_key fst (map (map_prod id canon) kvs)) k =
      map_of (map (map_prod id canon) kvs) k"
    by simp
  also have "\<dots> = map_option canon (map_of kvs k)" by (induction kvs) auto
  finally show ?thesis .
qed

lemma loads_dumps: "wf_json v \<Longrightarrow> loads (dumps v) = Some (canon v)"
  unfolding dumps_def by (intro loads_render wf_canon)

text \<open>
  C21. Arguments survive the database: the stored text of an attempt reads back as a dictionary
  with the same keys and values (nested dictionaries with their keys in order), and storing that
  dictionary again gives the same text. A recovered or retried attempt is therefore sent with the
  arguments it was created with, and finds its own row again.
\<close>

theorem args_round_trip:
  assumes "wf_json (JDict args)"
  shows "\<exists>stored. args_dict (serialize_args args) = JDict stored \<and>
    serialize_args stored = serialize_args args \<and>
    (\<forall>k. map_of stored k = map_option canon (map_of args k))"
proof -
  let ?stored = "sort_key fst (map (map_prod id canon) args)"
  have c: "canon (JDict args) = JDict ?stored" by simp
  have "args_dict (serialize_args args) = JDict ?stored"
    using loads_dumps [OF assms] by (simp add: args_dict_def serialize_args_def)
  moreover have "serialize_args ?stored = serialize_args args"
    using canon_idem [of "JDict args"] unfolding serialize_args_def dumps_def c by (simp only: c)
  moreover have "\<forall>k. map_of ?stored k = map_option canon (map_of args k)"
    using assms by (simp add: map_of_sort_members)
  ultimately show ?thesis by blast
qed

theorem args_round_trip_witness:
  "\<exists>stored. args_dict (serialize_args [(''netuid'', JInt 22), (''a'', JNull)]) = JDict stored \<and>
     map_of stored ''netuid'' = Some (JInt 22)"
proof -
  have "wf_json (JDict [(''netuid'', JInt 22), (''a'', JNull)])" by simp
  from args_round_trip [OF this] obtain stored where
    "args_dict (serialize_args [(''netuid'', JInt 22), (''a'', JNull)]) = JDict stored"
    "\<forall>k. map_of stored k = map_option canon (map_of [(''netuid'', JInt 22), (''a'', JNull)] k)"
    by blast
  then show ?thesis by simp
qed

text \<open>
  One unit of work has one text: two argument dictionaries are stored under the same text
  exactly when they are equal up to the order of their keys.
\<close>

theorem serialize_args_identifies:
  assumes "wf_json (JDict a)" and "wf_json (JDict b)"
  shows "serialize_args a = serialize_args b \<longleftrightarrow> canon (JDict a) = canon (JDict b)"
  using loads_dumps [OF assms(1)] loads_dumps [OF assms(2)]
  unfolding serialize_args_def by (metis dumps_def option.inject)

theorem serialize_args_identifies_witness:
  "serialize_args [(''a'', JInt 1), (''b'', JInt 2)] = serialize_args [(''b'', JInt 2), (''a'', JInt 1)] \<and>
   serialize_args [(''a'', JInt 1)] \<noteq> serialize_args [(''a'', JInt 2)]"
proof -
  have "wf_json (JDict [(''a'', JInt 1), (''b'', JInt 2)])"
    "wf_json (JDict [(''b'', JInt 2), (''a'', JInt 1)])"
    "wf_json (JDict [(''a'', JInt 1)])" "wf_json (JDict [(''a'', JInt 2)])"
    by simp_all
  note id1 = serialize_args_identifies [OF this(1,2)]
    and id2 = serialize_args_identifies [OF this(3,4)]
  show ?thesis unfolding id1 id2 by simp
qed

lemma serialize_args_perm:
  assumes "mset a = mset b" and "distinct (map fst a)"
  shows "serialize_args a = serialize_args b"
proof -
  let ?f = "map (map_prod id canon)"
  have "inj_on fst (set (?f a))" using assms(2) by (auto simp: distinct_map inj_on_def)
  then have "sort_key fst (?f a) = sort_key fst (?f b)"
    using assms(1) by (intro sort_key_inj_key_eq) (simp_all add: mset_map)
  then show ?thesis by (simp add: serialize_args_def dumps_def)
qed

end
