(* ===== verification/Task_Attempt.thy ===== *)
theory Task_Attempt
  imports Json_Args
begin

text \<open>
  The \<open>TaskAttempt\<close> model (\<open>models.py\<close>), the table of its rows and the statements Django
  sends for it: conditional updates, filters, \<open>save()\<close> and deletions. A filter keeps a row
  only where its SQL condition is true, so a comparison with a NULL column keeps nothing.

  There are two clocks: the database's (\<open>dal/db_clock.py\<close>) and the one Python reads with
  \<open>timezone.now()\<close>. A handler reads each of them once.
\<close>

section \<open>Rows\<close>

datatype status = PENDING | RUNNING | SUCCESS | FAILED

datatype give_up_reason = ATTEMPTS | BLOCK_AGE | MANUAL

record task_attempt =
  attempt_id :: nat
  block_number :: int
  executable_path :: string
  args_json :: string
  status :: status
  celery_task_id :: "string option"
  execution_result :: "json option"
  celery_queue_override :: "string option"
  dispatch_queue :: "string option"
  dispatched_at :: "instant option"
  lease_expires_at :: "instant option"
  last_attempted_at :: "instant option"
  attempt_count :: nat
  next_retry_at :: "instant option"
  give_up_at :: "instant option"
  give_up_reason :: "give_up_reason option"
  created_at :: instant
  updated_at :: instant

text \<open>The unit of work a row stands for: the fields of the constraint \<open>unique_task_attempt\<close>.\<close>

definition attempt_key :: "task_attempt \<Rightarrow> int \<times> string \<times> string" where
  "attempt_key r = (block_number r, executable_path r, args_json r)"

record clocks =
  py_now :: instant
  db_now :: instant

text \<open>\<open>db_clock.db_now_offset\<close>.\<close>

definition db_now_offset :: "clocks \<Rightarrow> seconds \<Rightarrow> instant" where
  "db_now_offset c s = db_now c + s"

text \<open>A row as \<open>get_or_create\<close> inserts it.\<close>

definition new_attempt :: "nat \<Rightarrow> int \<Rightarrow> string \<Rightarrow> string \<Rightarrow> instant \<Rightarrow> task_attempt" where
  "new_attempt i block path args now = \<lparr>attempt_id = i, block_number = block,
     executable_path = path, args_json = args, status = PENDING, celery_task_id = None,
     execution_result = None, celery_queue_override = None, dispatch_queue = None,
     dispatched_at = None, lease_expires_at = None, last_attempted_at = None, attempt_count = 0,
     next_retry_at = None, give_up_at = None, give_up_reason = None, created_at = now,
     updated_at = now\<rparr>"

text \<open>Comparisons of a nullable column with a value.\<close>

fun col_lt :: "'a::linorder option \<Rightarrow> 'a \<Rightarrow> bool" where
  "col_lt None v = False"
| "col_lt (Some x) v = (x < v)"

fun col_le :: "'a::linorder option \<Rightarrow> 'a \<Rightarrow> bool" where
  "col_le None v = False"
| "col_le (Some x) v = (x \<le> v)"

fun col_gt :: "'a::linorder option \<Rightarrow> 'a \<Rightarrow> bool" where
  "col_gt None v = False"
| "col_gt (Some x) v = (v < x)"

fun col_ge :: "'a::linorder option \<Rightarrow> 'a \<Rightarrow> bool" where
  "col_ge None v = False"
| "col_ge (Some x) v = (v \<le> x)"

lemma col_iff:
  "col_lt c v \<longleftrightarrow> (\<exists>x. c = Some x \<and> x < v)" "col_le c v \<longleftrightarrow> (\<exists>x. c = Some x \<and> x \<le> v)"
  "col_gt c v \<longleftrightarrow> (\<exists>x. c = Some x \<and> v < x)" "col_ge c v \<longleftrightarrow> (\<exists>x. c = Some x \<and> v \<le> x)"
  by (cases c; simp)+

section \<open>The table\<close>

record db =
  attempts :: "task_attempt list"
  next_id :: nat

definition empty_db :: db where
  "empty_db = \<lparr>attempts = [], next_id = 0\<rparr>"

text \<open>\<open>objects.filter(id=i).first()\<close>.\<close>

definition row :: "nat \<Rightarrow> db \<Rightarrow> task_attempt option" where
  "row i d = find (\<lambda>r. attempt_id r = i) (attempts d)"

definition find_key :: "int \<Rightarrow> string \<Rightarrow> string \<Rightarrow> db \<Rightarrow> task_attempt option" where
  "find_key block path args d = find (\<lambda>r. attempt_key r = (block, path, args)) (attempts d)"

text \<open>\<open>objects.filter(p).update(f)\<close>, and how many rows it changed.\<close>

definition update_rows :: "(task_attempt \<Rightarrow> bool) \<Rightarrow> (task_attempt \<Rightarrow> task_attempt) \<Rightarrow> db \<Rightarrow> db" where
  "update_rows p f d = d\<lparr>attempts := map (\<lambda>r. if p r then f r else r) (attempts d)\<rparr>"

definition count_rows :: "(task_attempt \<Rightarrow> bool) \<Rightarrow> db \<Rightarrow> nat" where
  "count_rows p d = length (filter p (attempts d))"

text \<open>\<open>objects.filter(id=i, p).update(f) == 1\<close>.\<close>

definition update_by_id ::
  "nat \<Rightarrow> (task_attempt \<Rightarrow> bool) \<Rightarrow> (task_attempt \<Rightarrow> task_attempt) \<Rightarrow> db \<Rightarrow> bool \<times> db" where
  "update_by_id i p f d =
     (count_rows (\<lambda>r. attempt_id r = i \<and> p r) d = 1, update_rows (\<lambda>r. attempt_id r = i \<and> p r) f d)"

definition insert_attempt :: "int \<Rightarrow> string \<Rightarrow> string \<Rightarrow> instant \<Rightarrow> db \<Rightarrow> task_attempt \<times> db" where
  "insert_attempt block path args now d =
     (let r = new_attempt (next_id d) block path args now
      in (r, d\<lparr>attempts := attempts d @ [r], next_id := Suc (next_id d)\<rparr>))"

text \<open>\<open>objects.get_or_create(...)\<close>.\<close>

definition get_or_create ::
  "int \<Rightarrow> string \<Rightarrow> string \<Rightarrow> instant \<Rightarrow> db \<Rightarrow> (task_attempt \<times> bool) \<times> db" where
  "get_or_create block path args now d =
     (case find_key block path args d of
        Some r \<Rightarrow> ((r, False), d)
      | None \<Rightarrow> (let (r, d') = insert_attempt block path args now d in ((r, True), d')))"

text \<open>\<open>task.save()\<close>: every column of the loaded row, with \<open>updated_at\<close> set by \<open>auto_now\<close>.\<close>

definition save :: "instant \<Rightarrow> task_attempt \<Rightarrow> db \<Rightarrow> db" where
  "save now r d =
     (if \<exists>x \<in> set (attempts d). attempt_id x = attempt_id r
      then update_rows (\<lambda>x. attempt_id x = attempt_id r) (\<lambda>_. r\<lparr>updated_at := now\<rparr>) d
      else d\<lparr>attempts := attempts d @ [r\<lparr>updated_at := now\<rparr>]\<rparr>)"

definition delete_rows :: "(task_attempt \<Rightarrow> bool) \<Rightarrow> db \<Rightarrow> nat \<times> db" where
  "delete_rows p d = (count_rows p d, d\<lparr>attempts := filter (\<lambda>r. \<not> p r) (attempts d)\<rparr>)"

section \<open>Well-formed tables\<close>

text \<open>The primary key and the unique constraint of the model.\<close>

definition db_ok :: "db \<Rightarrow> bool" where
  "db_ok d \<longleftrightarrow>
     distinct (map attempt_id (attempts d)) \<and> distinct (map attempt_key (attempts d)) \<and>
     (\<forall>r \<in> set (attempts d). attempt_id r < next_id d)"

lemma db_ok_empty [simp]: "db_ok empty_db"
  by (simp add: db_ok_def empty_db_def)

lemma find_eq_Some_distinct:
  assumes "distinct (map f xs)"
  shows "find (\<lambda>x. f x = k) xs = Some x \<longleftrightarrow> x \<in> set xs \<and> f x = k"
  using assms by (induction xs) auto

lemma row_eq_Some: "db_ok d \<Longrightarrow> row i d = Some r \<longleftrightarrow> r \<in> set (attempts d) \<and> attempt_id r = i"
  unfolding row_def by (rule find_eq_Some_distinct) (simp add: db_ok_def)

lemma find_key_eq_Some:
  "db_ok d \<Longrightarrow>
   find_key b p a d = Some r \<longleftrightarrow> r \<in> set (attempts d) \<and> attempt_key r = (b, p, a)"
  unfolding find_key_def by (rule find_eq_Some_distinct) (simp add: db_ok_def)

lemma find_key_None: "find_key b p a d = None \<longleftrightarrow> (\<forall>r \<in> set (attempts d). attempt_key r \<noteq> (b, p, a))"
  by (auto simp: find_key_def find_None_iff)

lemma row_None: "row i d = None \<longleftrightarrow> (\<forall>r \<in> set (attempts d). attempt_id r \<noteq> i)"
  by (auto simp: row_def find_None_iff)

lemma row_id: "row i d = Some r \<Longrightarrow> attempt_id r = i"
  by (auto simp: row_def find_Some_iff)

lemma row_mem: "row i d = Some r \<Longrightarrow> r \<in> set (attempts d)"
  by (auto simp: row_def find_Some_iff)

text \<open>A write that keeps the identity of the row.\<close>

definition keeps_key :: "(task_attempt \<Rightarrow> task_attempt) \<Rightarrow> bool" where
  "keeps_key f \<longleftrightarrow> (\<forall>r. attempt_id (f r) = attempt_id r \<and> attempt_key (f r) = attempt_key r)"

lemma keeps_keyD: "keeps_key f \<Longrightarrow> attempt_id (f r) = attempt_id r \<and> attempt_key (f r) = attempt_key r"
  by (simp add: keeps_key_def)

lemma map_key_update:
  "keeps_key f \<Longrightarrow> map attempt_id (attempts (update_rows p f d)) = map attempt_id (attempts d)"
  "keeps_key f \<Longrightarrow> map attempt_key (attempts (update_rows p f d)) = map attempt_key (attempts d)"
  by (simp_all add: update_rows_def keeps_key_def)

lemma next_id_update [simp]: "next_id (update_rows p f d) = next_id d"
  by (simp add: update_rows_def)

lemma db_ok_update_rows [simp]: "keeps_key f \<Longrightarrow> db_ok (update_rows p f d) \<longleftrightarrow> db_ok d"
proof -
  assume f: "keeps_key f"
  have "(\<forall>r \<in> set (attempts (update_rows p f d)). attempt_id r < next_id d) \<longleftrightarrow>
      (\<forall>i \<in> set (map attempt_id (attempts (update_rows p f d))). i < next_id d)"
    by simp
  also have "\<dots> \<longleftrightarrow> (\<forall>r \<in> set (attempts d). attempt_id r < next_id d)"
    unfolding map_key_update [OF f] by simp
  finally show ?thesis by (simp add: db_ok_def map_key_update [OF f])
qed

lemma find_map_keep:
  assumes "\<And>x. q (f x) = q x"
  shows "find q (map (\<lambda>x. if p x then f x else x) xs) =
    map_option (\<lambda>x. if p x then f x else x) (find q xs)"
  using assms by (induction xs) auto

lemma row_update_rows:
  "keeps_key f \<Longrightarrow> row i (update_rows p f d) = map_option (\<lambda>r. if p r then f r else r) (row i d)"
  unfolding row_def update_rows_def by (simp add: find_map_keep keeps_key_def)

lemma row_update_by_id:
  assumes "keeps_key f"
  shows "row j (snd (update_by_id i p f d)) =
    map_option (\<lambda>r. if j = i \<and> p r then f r else r) (row j d)"
  using row_id [of j d]
  by (cases "row j d") (auto simp: update_by_id_def row_update_rows [OF assms])

lemma update_by_id_won:
  assumes "db_ok d"
  shows "fst (update_by_id i p f d) \<longleftrightarrow> (\<exists>r. row i d = Some r \<and> p r)"
proof -
  let ?q = "\<lambda>r. attempt_id r = i \<and> p r"
  have le: "length (filter ?q (attempts d)) \<le> 1"
    using assms by (intro filter_length_le_1) (simp add: db_ok_def)
  have "(\<exists>r. row i d = Some r \<and> p r) \<longleftrightarrow> filter ?q (attempts d) \<noteq> []"
    using row_eq_Some [OF assms] by (auto simp: filter_empty_conv)
  also have "\<dots> \<longleftrightarrow> length (filter ?q (attempts d)) = 1"
    using le by (cases "filter ?q (attempts d)") auto
  finally show ?thesis by (simp add: update_by_id_def count_rows_def)
qed

lemma update_by_id_lost: "\<not> (\<exists>r. row i d = Some r \<and> p r) \<Longrightarrow> db_ok d \<Longrightarrow> snd (update_by_id i p f d) = d"
proof -
  assume no: "\<not> (\<exists>r. row i d = Some r \<and> p r)" and ok: "db_ok d"
  have "\<not> (attempt_id r = i \<and> p r)" if "r \<in> set (attempts d)" for r
    using no row_eq_Some [OF ok] that by auto
  then have "map (\<lambda>r. if attempt_id r = i \<and> p r then f r else r) (attempts d) = attempts d"
    by (intro map_idI) auto
  then show ?thesis by (simp add: update_by_id_def update_rows_def)
qed

lemma db_ok_update_by_id [simp]: "keeps_key f \<Longrightarrow> db_ok (snd (update_by_id i p f d)) \<longleftrightarrow> db_ok d"
  by (simp add: update_by_id_def)

lemma new_attempt_sel [simp]:
  "attempt_id (new_attempt i b p a t) = i" "attempt_key (new_attempt i b p a t) = (b, p, a)"
  "status (new_attempt i b p a t) = PENDING" "give_up_reason (new_attempt i b p a t) = None"
  by (simp_all add: new_attempt_def attempt_key_def)

lemma db_ok_insert:
  "db_ok d \<Longrightarrow> find_key b p a d = None \<Longrightarrow> db_ok (snd (insert_attempt b p a t d))"
  by (auto simp: db_ok_def insert_attempt_def Let_def find_key_None less_Suc_eq)

lemma row_insert:
  "db_ok d \<Longrightarrow> row i (snd (insert_attempt b p a t d)) =
    (if i = next_id d then Some (new_attempt i b p a t) else row i d)"
proof -
  assume ok: "db_ok d"
  have fresh: "row (next_id d) d = None" using ok by (auto simp: row_None db_ok_def)
  have "find q (xs @ [x]) = (case find q xs of None \<Rightarrow> if q x then Some x else None | Some y \<Rightarrow> Some y)"
    for q and x :: task_attempt and xs by (induction xs) auto
  then show ?thesis
    using fresh by (auto simp: row_def insert_attempt_def Let_def split: option.splits)
qed

section \<open>Races\<close>

text \<open>
  The interface of \<open>attempt_transitions.py\<close>: one conditional UPDATE whose WHERE clause names the
  status it starts from, and whose SET clause leaves it. Whatever arguments the racing processes
  pass, at most one of them wins.
\<close>

locale conditional_update =
  fixes guard :: "'a \<Rightarrow> task_attempt \<Rightarrow> bool"
    and wr :: "'a \<Rightarrow> task_attempt \<Rightarrow> task_attempt"
  assumes wr_keeps: "keeps_key (wr a)"
    and wr_closes: "guard a r \<Longrightarrow> \<not> guard b (wr a r)"
begin

lemma one_winner:
  assumes "db_ok d" and "fst (update_by_id i (guard a) (wr a) d)"
  shows "\<not> fst (update_by_id i (guard b) (wr b) (snd (update_by_id i (guard a) (wr a) d)))"
proof -
  obtain r where r: "row i d = Some r" "guard a r" using assms update_by_id_won by blast
  have "row i (snd (update_by_id i (guard a) (wr a) d)) = Some (wr a r)"
    using r by (simp add: row_update_by_id [OF wr_keeps])
  then show ?thesis using assms(1) r(2) wr_closes by (simp add: update_by_id_won wr_keeps)
qed

lemma loser_changes_nothing:
  assumes "db_ok d" and "fst (update_by_id i (guard a) (wr a) d)"
  shows "snd (update_by_id i (guard b) (wr b) (snd (update_by_id i (guard a) (wr a) d))) =
    snd (update_by_id i (guard a) (wr a) d)"
proof (rule update_by_id_lost)
  let ?d = "snd (update_by_id i (guard a) (wr a) d)"
  show "db_ok ?d" using assms(1) by (simp add: wr_keeps)
  show "\<not> (\<exists>r. row i ?d = Some r \<and> guard b r)"
    using one_winner [OF assms, of b] assms(1) by (simp add: update_by_id_won wr_keeps)
qed

end

end
