(* ===== verification/Retry_Policy.thy ===== *)
theory Retry_Policy
  imports Dumper_Prelude
begin

text \<open>
  The numbers a project configures (\<open>_internal/numeric.py\<close>), the retry policy of a
  \<open>BlockDumper\<close> queue (\<open>_internal/services/retry_policy.py\<close>) and the retry schedule
  of the Django settings (\<open>_internal/dal/django_dal.py\<close>). Both schedules offer the
  protocol \<open>_Retries\<close> of \<open>retry_rules.py\<close>, which is the locale \<open>retries\<close> here.

  A Python float is a finite rational: \<open>inf\<close> and \<open>nan\<close> are not configured values of the
  model and results are not rounded. What a float cannot hold is modelled: a power past the
  largest double raises \<open>OverflowError\<close>, a product past it is infinite.
\<close>

section \<open>Configured values\<close>

datatype pynum = PInt int | PFloat rat

fun num :: "pynum \<Rightarrow> rat" where
  "num (PInt i) = of_int i"
| "num (PFloat q) = q"

text \<open>
  A configured object: \<open>PyTime\<close> is a \<open>datetime\<close>, \<open>PyTaskClass\<close> a Celery task class with its
  name and the \<open>time_limit\<close> and \<open>soft_time_limit\<close> it declares, \<open>PyOther\<close> an object of
  any other type.
\<close>

datatype pyval =
    PyNone
  | PyBool bool
  | PyNum pynum
  | PyStr string
  | PyTime instant
  | PyTaskClass string "pynum option" "pynum option"
  | PyOther

fun is_number :: "pyval \<Rightarrow> bool" where
  "is_number (PyNum _) = True"
| "is_number _ = False"

fun is_integer :: "pyval \<Rightarrow> bool" where
  "is_integer (PyNum (PInt _)) = True"
| "is_integer _ = False"

fun is_positive_number :: "pyval \<Rightarrow> bool" where
  "is_positive_number (PyNum n) = (num n > 0)"
| "is_positive_number _ = False"

fun is_non_negative_number :: "pyval \<Rightarrow> bool" where
  "is_non_negative_number (PyNum n) = (num n \<ge> 0)"
| "is_non_negative_number _ = False"

fun is_positive_integer :: "pyval \<Rightarrow> bool" where
  "is_positive_integer (PyNum (PInt i)) = (i \<ge> 1)"
| "is_positive_integer _ = False"

fun is_non_negative_integer :: "pyval \<Rightarrow> bool" where
  "is_non_negative_integer (PyNum (PInt i)) = (i \<ge> 0)"
| "is_non_negative_integer _ = False"

text \<open>Reading a checked value: what the dataclass field holds afterwards.\<close>

fun get_num :: "pyval \<Rightarrow> pynum" where
  "get_num (PyNum n) = n"
| "get_num _ = PInt 0"

fun get_int :: "pyval \<Rightarrow> int" where
  "get_int (PyNum (PInt i)) = i"
| "get_int _ = 0"

fun opt_of :: "(pyval \<Rightarrow> 'a) \<Rightarrow> pyval \<Rightarrow> 'a option" where
  "opt_of f PyNone = None"
| "opt_of f v = Some (f v)"

lemma is_positive_integer_get:
  "is_positive_integer v \<Longrightarrow> get_int v \<ge> 1"
  by (cases v rule: is_positive_integer.cases) auto

lemma is_non_negative_integer_get:
  "is_non_negative_integer v \<Longrightarrow> get_int v \<ge> 0"
  by (cases v rule: is_non_negative_integer.cases) auto

lemma is_non_negative_number_get:
  "is_non_negative_number v \<Longrightarrow> num (get_num v) \<ge> 0"
  by (cases v) auto

lemma is_positive_number_get:
  "is_positive_number v \<Longrightarrow> num (get_num v) > 0"
  by (cases v) auto

section \<open>Float arithmetic of the backoff\<close>

text \<open>The largest finite double.\<close>

definition float_max :: rat where
  "float_max = of_int ((2 ^ 53 - 1) * 2 ^ 971)"

text \<open>\<open>None\<close> is positive infinity.\<close>

type_synonym fval = "rat option"

text \<open>\<open>base ** n\<close>: exact on ints, \<open>OverflowError\<close> on floats past the largest double.\<close>

fun py_pow :: "pynum \<Rightarrow> nat \<Rightarrow> pynum res" where
  "py_pow (PInt b) n = Inr (PInt (b ^ n))"
| "py_pow (PFloat b) n = (if \<bar>b ^ n\<bar> > float_max then Inl OverflowError else Inr (PFloat (b ^ n)))"

text \<open>
  \<open>a * b\<close> for non-negative operands: exact on ints; with a float operand an int past the
  largest double raises \<open>OverflowError\<close>, and a product past it is infinite.
\<close>

fun py_mul :: "pynum \<Rightarrow> pynum \<Rightarrow> fval res" where
  "py_mul (PInt a) (PInt b) = Inr (Some (of_int (a * b)))"
| "py_mul (PFloat a) (PFloat b) = Inr (if a * b > float_max then None else Some (a * b))"
| "py_mul (PInt a) (PFloat b) =
     (if of_int a > float_max then Inl OverflowError
      else Inr (if of_int a * b > float_max then None else Some (of_int a * b)))"
| "py_mul (PFloat a) (PInt b) =
     (if of_int b > float_max then Inl OverflowError
      else Inr (if a * of_int b > float_max then None else Some (a * of_int b)))"

text \<open>\<open>max(a, b)\<close> and \<open>min(a, b)\<close> where \<open>b\<close>, resp.\ \<open>a\<close>, may be infinite.\<close>

fun fmax :: "rat \<Rightarrow> fval \<Rightarrow> fval" where
  "fmax a None = None"
| "fmax a (Some b) = Some (max a b)"

fun fmin :: "fval \<Rightarrow> rat \<Rightarrow> rat" where
  "fmin None b = b"
| "fmin (Some a) b = min a b"

section \<open>RetryPolicy\<close>

record retry_policy =
  max_attempts :: "int option"
  give_up_after_blocks :: "int option"
  fast_retry_attempts :: int
  fast_retry_delay :: pynum
  backoff_start :: pynum
  backoff_multiplier :: pynum
  max_delay :: pynum

text \<open>The dataclass defaults.\<close>

definition default_retry_policy :: retry_policy where
  "default_retry_policy = \<lparr>max_attempts = Some 3, give_up_after_blocks = None,
     fast_retry_attempts = 2, fast_retry_delay = PInt 5, backoff_start = PInt 60,
     backoff_multiplier = PInt 2, max_delay = PInt 1200\<rparr>"

text \<open>\<open>RetryPolicy(...)\<close>: the checks of \<open>__post_init__\<close> in their order.\<close>

definition retry_policy_new ::
  "pyval \<Rightarrow> pyval \<Rightarrow> pyval \<Rightarrow> pyval \<Rightarrow> pyval \<Rightarrow> pyval \<Rightarrow> pyval \<Rightarrow> retry_policy res" where
  "retry_policy_new attempts blocks fast_n fast_d start mult cap =
     (if attempts \<noteq> PyNone \<and> \<not> is_positive_integer attempts then Inl (ValueError ''max_attempts'')
      else if blocks \<noteq> PyNone \<and> \<not> is_positive_integer blocks then Inl (ValueError ''give_up_after_blocks'')
      else if \<not> is_non_negative_integer fast_n then Inl (ValueError ''fast_retry_attempts'')
      else if \<not> is_non_negative_number fast_d then Inl (ValueError ''fast_retry_delay'')
      else if \<not> is_non_negative_number start then Inl (ValueError ''backoff_start'')
      else if \<not> is_non_negative_number cap then Inl (ValueError ''max_delay'')
      else if \<not> is_non_negative_number mult \<or> num (get_num mult) < 1
        then Inl (ValueError ''backoff_multiplier'')
      else Inr \<lparr>max_attempts = opt_of get_int attempts, give_up_after_blocks = opt_of get_int blocks,
        fast_retry_attempts = get_int fast_n, fast_retry_delay = get_num fast_d,
        backoff_start = get_num start, backoff_multiplier = get_num mult, max_delay = get_num cap\<rparr>)"

definition allows_retry :: "retry_policy \<Rightarrow> nat \<Rightarrow> bool" where
  "allows_retry p attempt_count =
     (case max_attempts p of None \<Rightarrow> True | Some m \<Rightarrow> int attempt_count < m)"

definition exponential_delay :: "retry_policy \<Rightarrow> nat \<Rightarrow> fval" where
  "exponential_delay p attempt_count =
     (case py_pow (backoff_multiplier p) (nat (int attempt_count - fast_retry_attempts p - 1)) of
        Inr pw \<Rightarrow>
          (case py_mul (backoff_start p) pw of
             Inr d \<Rightarrow> d
           | Inl _ \<Rightarrow> Some (if num (backoff_start p) \<noteq> 0 then num (max_delay p) else 0))
      | Inl _ \<Rightarrow> Some (if num (backoff_start p) \<noteq> 0 then num (max_delay p) else 0))"

definition delay_seconds :: "retry_policy \<Rightarrow> nat \<Rightarrow> seconds" where
  "delay_seconds p attempt_count =
     (if int attempt_count \<le> fast_retry_attempts p
      then min (num (fast_retry_delay p)) (num (max_delay p))
      else fmin (fmax (num (fast_retry_delay p)) (exponential_delay p attempt_count)) (num (max_delay p)))"

text \<open>What \<open>__post_init__\<close> establishes.\<close>

definition valid_retry_policy :: "retry_policy \<Rightarrow> bool" where
  "valid_retry_policy p \<longleftrightarrow>
     (\<forall>m. max_attempts p = Some m \<longrightarrow> m \<ge> 1) \<and> (\<forall>b. give_up_after_blocks p = Some b \<longrightarrow> b \<ge> 1) \<and>
     fast_retry_attempts p \<ge> 0 \<and> num (fast_retry_delay p) \<ge> 0 \<and> num (backoff_start p) \<ge> 0 \<and>
     num (backoff_multiplier p) \<ge> 1 \<and> num (max_delay p) \<ge> 0"

lemma retry_policy_new_valid:
  "retry_policy_new a b n d s m c = Inr p \<Longrightarrow> valid_retry_policy p"
  by (auto simp: retry_policy_new_def valid_retry_policy_def is_positive_integer_get
      is_non_negative_integer_get is_non_negative_number_get split: if_splits
      elim!: opt_of.elims)


section \<open>What the schedule computes\<close>

text \<open>The schedule the docstring describes, on rationals and without float limits.\<close>

definition ideal_delay :: "retry_policy \<Rightarrow> nat \<Rightarrow> seconds" where
  "ideal_delay p attempt_count =
     min (if int attempt_count \<le> fast_retry_attempts p then num (fast_retry_delay p)
          else max (num (fast_retry_delay p))
            (num (backoff_start p) *
             num (backoff_multiplier p) ^ nat (int attempt_count - fast_retry_attempts p - 1)))
       (num (max_delay p))"

definition float_past :: "retry_policy \<Rightarrow> nat \<Rightarrow> bool" where
  "float_past p k \<longleftrightarrow>
     (case (backoff_start p, backoff_multiplier p) of
        (PInt a, PInt b) \<Rightarrow> False
      | (PInt a, PFloat b) \<Rightarrow> b ^ k > float_max \<or> of_int a > float_max \<or> of_int a * b ^ k > float_max
      | (PFloat a, PInt b) \<Rightarrow> of_int (b ^ k) > float_max \<or> a * of_int (b ^ k) > float_max
      | (PFloat a, PFloat b) \<Rightarrow> b ^ k > float_max \<or> a * b ^ k > float_max)"

lemma float_max_pos: "0 < float_max"
proof -
  have "0 < (2 ^ 53 - 1) * (2 :: int) ^ 971" by (rule mult_pos_pos) simp_all
  then show ?thesis unfolding float_max_def by (simp only: of_int_0_less_iff)
qed

lemma delay_seconds_backoff:
  assumes valid: "valid_retry_policy p" and late: "fast_retry_attempts p < int n"
  defines "k \<equiv> nat (int n - fast_retry_attempts p - 1)"
  shows "delay_seconds p n =
     (if float_past p k
      then if num (backoff_start p) \<noteq> 0 then num (max_delay p)
        else min (num (fast_retry_delay p)) (num (max_delay p))
      else min (max (num (fast_retry_delay p))
          (num (backoff_start p) * num (backoff_multiplier p) ^ k)) (num (max_delay p)))"
proof -
  from valid have nonneg: "0 \<le> num (fast_retry_delay p)" "0 \<le> num (backoff_start p)"
      "1 \<le> num (backoff_multiplier p)"
    by (auto simp: valid_retry_policy_def)
  have abs_pow: "\<bar>b ^ k\<bar> = b ^ k" if "1 \<le> b" for b :: rat
    using that by simp
  have fmx: "0 < float_max" by (rule float_max_pos)
  show ?thesis
    using late nonneg fmx
    by (cases "backoff_start p"; cases "backoff_multiplier p")
      (auto simp: delay_seconds_def exponential_delay_def float_past_def k_def [symmetric]
        abs_pow min_def max_def not_less)
qed

lemma float_past_mono:
  assumes valid: "valid_retry_policy p" and "j \<le> k" and "float_past p j"
  shows "float_past p k"
proof -
  from valid have nonneg: "0 \<le> num (backoff_start p)" "1 \<le> num (backoff_multiplier p)"
    by (auto simp: valid_retry_policy_def)
  have pow: "x < b ^ k" if "1 \<le> b" "x < b ^ j" for x b :: rat
    using that(2) power_increasing [OF \<open>j \<le> k\<close> that(1)] by (rule less_le_trans)
  have mul: "x < a * b ^ k" if "0 \<le> a" "1 \<le> b" "x < a * b ^ j" for x a b :: rat
    using that(3) mult_left_mono [OF power_increasing [OF \<open>j \<le> k\<close> that(2)] that(1)]
    by (rule less_le_trans)
  show ?thesis
  proof (cases "backoff_start p")
    case (PInt a)
    then show ?thesis
      using assms(3) nonneg pow mul [of "of_int a"]
      by (cases "backoff_multiplier p") (auto simp: float_past_def)
  next
    case (PFloat a)
    then show ?thesis
      using assms(3) nonneg pow mul [of a]
      by (cases "backoff_multiplier p") (auto simp: float_past_def)
  qed
qed

text \<open>The protocol \<open>_Retries\<close> that \<open>retry_rules.retries_for\<close> hands out.\<close>

locale retries =
  fixes valid :: "'p \<Rightarrow> bool"
    and allows :: "'p \<Rightarrow> nat \<Rightarrow> bool"
    and delay :: "'p \<Rightarrow> nat \<Rightarrow> seconds"
    and cap :: "'p \<Rightarrow> seconds"
  assumes allows_antimono: "allows p n \<Longrightarrow> m \<le> n \<Longrightarrow> allows p m"
    and delay_nonneg: "valid p \<Longrightarrow> 0 \<le> delay p n"
    and delay_capped: "valid p \<Longrightarrow> delay p n \<le> cap p"
    and delay_step: "valid p \<Longrightarrow> delay p n \<le> delay p (Suc n)"
begin

lemma delay_mono: "valid p \<Longrightarrow> m \<le> n \<Longrightarrow> delay p m \<le> delay p n"
  by (rule lift_Suc_mono_le) (rule delay_step)

lemma exhausted_stays: "\<not> allows p m \<Longrightarrow> m \<le> n \<Longrightarrow> \<not> allows p n"
  using allows_antimono by blast

lemma total_wait_bound: "valid p \<Longrightarrow> (\<Sum>k = 1..n. delay p k) \<le> of_nat n * cap p"
  using sum_bounded_above [of "{1..n}" "delay p" "cap p"] delay_capped by simp

end

lemma delay_seconds_step:
  assumes valid: "valid_retry_policy p"
  shows "delay_seconds p n \<le> delay_seconds p (Suc n)"
proof -
  let ?k = "nat (int n - fast_retry_attempts p - 1)"
  let ?s = "num (backoff_start p)" and ?m = "num (backoff_multiplier p)"
  from valid have nonneg: "0 \<le> ?s" "1 \<le> ?m"
    and caps: "0 \<le> num (fast_retry_delay p)" "0 \<le> num (max_delay p)"
    by (auto simp: valid_retry_policy_def)
  consider "int (Suc n) \<le> fast_retry_attempts p" | "int n = fast_retry_attempts p"
    | "fast_retry_attempts p < int n"
    by linarith
  then show ?thesis
  proof cases
    case 1
    then show ?thesis by (simp add: delay_seconds_def)
  next
    case 2
    then have "delay_seconds p n = min (num (fast_retry_delay p)) (num (max_delay p))"
      by (simp add: delay_seconds_def)
    then show ?thesis
      using 2 delay_seconds_backoff [OF valid, of "Suc n"] by (auto simp: min_def max_def)
  next
    case 3
    then have k: "nat (int (Suc n) - fast_retry_attempts p - 1) = Suc ?k" by linarith
    have past: "float_past p ?k \<Longrightarrow> float_past p (Suc ?k)"
      using float_past_mono [OF valid, of ?k "Suc ?k"] by simp
    have "?m ^ ?k \<le> ?m ^ Suc ?k" by (rule power_increasing) (use nonneg in simp_all)
    then have mul: "?s * ?m ^ ?k \<le> ?s * ?m ^ Suc ?k" using nonneg by (simp add: mult_left_mono)
    from 3 have "fast_retry_attempts p < int (Suc n)" by simp
    note later = delay_seconds_backoff [OF valid this, unfolded k]
    show ?thesis
      using delay_seconds_backoff [OF valid 3] later past mul caps
      by (auto simp: min_def max_def split: if_splits)
  qed
qed

lemma delay_seconds_nonneg: "valid_retry_policy p \<Longrightarrow> 0 \<le> delay_seconds p n"
  using delay_seconds_backoff [of p n]
  by (cases "int n \<le> fast_retry_attempts p")
    (auto simp: delay_seconds_def [of p] valid_retry_policy_def min_def max_def)

lemma delay_seconds_capped: "delay_seconds p n \<le> num (max_delay p)"
  by (cases "fmax (num (fast_retry_delay p)) (exponential_delay p n)")
    (simp_all add: delay_seconds_def)

interpretation queue_retries: retries valid_retry_policy allows_retry delay_seconds
    "\<lambda>p. num (max_delay p)"
  by unfold_locales
    (auto simp: allows_retry_def delay_seconds_nonneg delay_seconds_capped delay_seconds_step
      split: option.splits)


section \<open>Properties\<close>

text \<open>
  C20. A queue's retry schedule is exactly the documented one: fast retries, then exponential
  backoff, never below the fast delay and never above \<open>max_delay\<close>. The float limits the code
  works around do not show, provided a float holds \<open>max_delay\<close> and \<open>backoff_start\<close> is not so
  small that it only reaches \<open>max_delay\<close> past the largest double.
\<close>

theorem delay_seconds_is_ideal:
  assumes "valid_retry_policy p"
    and "num (max_delay p) \<le> float_max"
    and "num (backoff_start p) = 0 \<or> num (max_delay p) \<le> num (backoff_start p) * float_max"
  shows "delay_seconds p n = ideal_delay p n"
proof (cases "int n \<le> fast_retry_attempts p")
  case True
  then show ?thesis by (simp add: delay_seconds_def ideal_delay_def)
next
  case False
  let ?k = "nat (int n - fast_retry_attempts p - 1)"
  let ?s = "num (backoff_start p)" and ?m = "num (backoff_multiplier p)"
  from assms(1) have nonneg: "0 \<le> ?s" "1 \<le> ?m" "0 \<le> num (fast_retry_delay p)"
    by (auto simp: valid_retry_policy_def)
  then have one: "1 \<le> ?m ^ ?k" by simp
  have cap: "num (max_delay p) \<le> ?s * ?m ^ ?k" if past: "float_past p ?k" and "?s \<noteq> 0"
  proof -
    from past have "float_max < ?m ^ ?k \<or> float_max < ?s \<or> float_max < ?s * ?m ^ ?k"
      by (auto simp: float_past_def split: pynum.splits)
    moreover have "?s * float_max \<le> ?s * ?m ^ ?k" if "float_max < ?m ^ ?k"
      using that nonneg by (simp add: mult_left_mono)
    moreover have "?s \<le> ?s * ?m ^ ?k" using one nonneg by (simp add: mult_le_cancel_left1)
    ultimately show ?thesis using assms(2,3) \<open>?s \<noteq> 0\<close> by linarith
  qed
  show ?thesis
    using delay_seconds_backoff [OF assms(1), of n] False cap nonneg
    by (auto simp: ideal_delay_def min_def max_def)
qed

theorem delay_seconds_is_ideal_witness:
  "valid_retry_policy default_retry_policy \<and>
   map (delay_seconds default_retry_policy) [1, 2, 3, 4, 8] = [5, 5, 60, 120, 1200]"
proof -
  have cap: "(1200 :: rat) \<le> float_max"
  proof -
    have "(1200 :: int) \<le> (2 ^ 53 - 1) * 2 ^ 971" by simp
    then have "(of_int 1200 :: rat) \<le> of_int ((2 ^ 53 - 1) * 2 ^ 971)" by (rule of_int_le_iff [THEN iffD2])
    then show ?thesis unfolding float_max_def by (simp only: of_int_numeral)
  qed
  have valid: "valid_retry_policy default_retry_policy"
    by (simp add: valid_retry_policy_def default_retry_policy_def)
  have "delay_seconds default_retry_policy n = ideal_delay default_retry_policy n" for n
    by (rule delay_seconds_is_ideal [OF valid]) (use cap in \<open>simp_all add: default_retry_policy_def\<close>)
  then show ?thesis using valid by (simp add: ideal_delay_def default_retry_policy_def)
qed

end
