(* ===== verification/Django_Settings.thy ===== *)
theory Django_Settings
  imports Retry_Policy
begin

text \<open>
  The Django settings the library reads, the checks it makes on them
  (\<open>_internal/services/recovery_settings.py\<close>, \<open>utils.get_max_attempt_limit\<close>,
  \<open>throttle.throttle_poll_seconds\<close>) and the retry delays they give attempts without a queue
  policy (\<open>django_dal._get_retry_delay_seconds\<close>, \<open>retry_rules.SettingsRetries\<close>).
\<close>

text \<open>\<open>None\<close> is a setting the project does not define.\<close>

record settings =
  BLOCK_DUMPER_MAX_ATTEMPTS :: "int option"
  BLOCK_DUMPER_STALE_TASK_TIMEOUT_SECONDS :: "pyval option"
  BLOCK_DUMPER_STALE_TASK_SWEEP_INTERVAL_SECONDS :: "pyval option"
  BLOCK_DUMPER_STALE_TASK_SWEEP_BATCH_SIZE :: "pyval option"
  BLOCK_DUMPER_RECOVERY_MARGIN_SECONDS :: "pyval option"
  BLOCK_DUMPER_THROTTLE_POLL_SECONDS :: "pyval option"
  BLOCK_TASK_RETRY_BACKOFF :: "pynum option"
  BLOCK_TASK_FAST_RETRY_ATTEMPTS :: "pyval option"
  BLOCK_TASK_FAST_RETRY_DELAY_SECONDS :: "pynum option"
  BLOCK_TASK_RETRY_BACKOFF_START_SECONDS :: "pynum option"
  BLOCK_TASK_RETRY_BACKOFF_MULTIPLIER :: "pynum option"
  BLOCK_TASK_MAX_RETRY_DELAY_MINUTES :: "pynum option"

fun getattr :: "'a option \<Rightarrow> 'a \<Rightarrow> 'a" where
  "getattr None d = d"
| "getattr (Some v) d = v"

definition default_settings :: settings where
  "default_settings = \<lparr>BLOCK_DUMPER_MAX_ATTEMPTS = None,
     BLOCK_DUMPER_STALE_TASK_TIMEOUT_SECONDS = None,
     BLOCK_DUMPER_STALE_TASK_SWEEP_INTERVAL_SECONDS = None,
     BLOCK_DUMPER_STALE_TASK_SWEEP_BATCH_SIZE = None,
     BLOCK_DUMPER_RECOVERY_MARGIN_SECONDS = None, BLOCK_DUMPER_THROTTLE_POLL_SECONDS = None,
     BLOCK_TASK_RETRY_BACKOFF = None, BLOCK_TASK_FAST_RETRY_ATTEMPTS = None,
     BLOCK_TASK_FAST_RETRY_DELAY_SECONDS = None, BLOCK_TASK_RETRY_BACKOFF_START_SECONDS = None,
     BLOCK_TASK_RETRY_BACKOFF_MULTIPLIER = None, BLOCK_TASK_MAX_RETRY_DELAY_MINUTES = None\<rparr>"

definition get_max_attempt_limit :: "settings \<Rightarrow> int" where
  "get_max_attempt_limit s = getattr (BLOCK_DUMPER_MAX_ATTEMPTS s) 3"

section \<open>Recovery settings\<close>

definition stale_task_settings :: "settings \<Rightarrow> (seconds option \<times> seconds \<times> int) res" where
  "stale_task_settings s =
     (let timeout = getattr (BLOCK_DUMPER_STALE_TASK_TIMEOUT_SECONDS s) (PyNum (PInt 1800));
          interval = getattr (BLOCK_DUMPER_STALE_TASK_SWEEP_INTERVAL_SECONDS s) (PyNum (PInt 60));
          batch_size = getattr (BLOCK_DUMPER_STALE_TASK_SWEEP_BATCH_SIZE s) (PyNum (PInt 200))
      in if timeout \<noteq> PyNone \<and> \<not> is_positive_number timeout
           then Inl (ValueError ''BLOCK_DUMPER_STALE_TASK_TIMEOUT_SECONDS'')
         else if \<not> is_positive_number interval
           then Inl (ValueError ''BLOCK_DUMPER_STALE_TASK_SWEEP_INTERVAL_SECONDS'')
         else if \<not> is_positive_integer batch_size
           then Inl (ValueError ''BLOCK_DUMPER_STALE_TASK_SWEEP_BATCH_SIZE'')
         else Inr (opt_of (num \<circ> get_num) timeout, num (get_num interval), get_int batch_size))"

definition recovery_margin_seconds :: "settings \<Rightarrow> seconds res" where
  "recovery_margin_seconds s =
     (let margin = getattr (BLOCK_DUMPER_RECOVERY_MARGIN_SECONDS s) (PyNum (PInt 10))
      in if \<not> is_non_negative_number margin
           then Inl (ValueError ''BLOCK_DUMPER_RECOVERY_MARGIN_SECONDS'')
         else Inr (num (get_num margin)))"

definition check_recovery_settings :: "settings \<Rightarrow> unit res" where
  "check_recovery_settings s =
     (case stale_task_settings s of Inl e \<Rightarrow> Inl e
      | Inr _ \<Rightarrow> (case recovery_margin_seconds s of Inl e \<Rightarrow> Inl e | Inr _ \<Rightarrow> Inr ()))"

text \<open>A \<open>time_limit\<close> of 0 counts as no limit, as \<open>if time_limit:\<close> does.\<close>

definition lease_seconds :: "settings \<Rightarrow> seconds option \<Rightarrow> seconds option res" where
  "lease_seconds s time_limit =
     (case time_limit of
        Some t \<Rightarrow>
          if t \<noteq> 0 then (case recovery_margin_seconds s of Inl e \<Rightarrow> Inl e | Inr m \<Rightarrow> Inr (Some (t + m)))
          else (case stale_task_settings s of Inl e \<Rightarrow> Inl e | Inr (timeout, _, _) \<Rightarrow> Inr timeout)
      | None \<Rightarrow> (case stale_task_settings s of Inl e \<Rightarrow> Inl e | Inr (timeout, _, _) \<Rightarrow> Inr timeout))"

definition throttle_poll_seconds :: "settings \<Rightarrow> seconds res" where
  "throttle_poll_seconds s =
     (let seconds = getattr (BLOCK_DUMPER_THROTTLE_POLL_SECONDS s) (PyNum (PInt 1))
      in if \<not> is_positive_number seconds
           then Inl (QueueConfigurationError ''BLOCK_DUMPER_THROTTLE_POLL_SECONDS'')
         else Inr (num (get_num seconds)))"

text \<open>A project whose recovery settings pass \<open>check_recovery_settings\<close>.\<close>

definition recovery_ok :: "settings \<Rightarrow> bool" where
  "recovery_ok s \<longleftrightarrow> check_recovery_settings s = Inr ()"

lemma recovery_okE:
  assumes "recovery_ok s"
  obtains timeout interval batch margin where
    "stale_task_settings s = Inr (timeout, interval, batch)"
    "recovery_margin_seconds s = Inr margin"
    "\<And>t. timeout = Some t \<Longrightarrow> 0 < t" "0 < interval" "1 \<le> batch" "0 \<le> margin"
proof -
  from assms obtain timeout interval batch margin where
    st: "stale_task_settings s = Inr (timeout, interval, batch)"
    and mg: "recovery_margin_seconds s = Inr margin"
    by (auto simp: recovery_ok_def check_recovery_settings_def split: sum.splits)
  from st have "\<And>t. timeout = Some t \<Longrightarrow> 0 < t" "0 < interval" "1 \<le> batch"
    by (auto simp: stale_task_settings_def Let_def is_positive_number_get is_positive_integer_get
        split: if_splits elim!: opt_of.elims)
  moreover from mg have "0 \<le> margin"
    by (auto simp: recovery_margin_seconds_def Let_def is_non_negative_number_get split: if_splits)
  ultimately show ?thesis using st mg that by blast
qed

lemma lease_seconds_ok:
  assumes "recovery_ok s"
  shows "\<exists>lease. lease_seconds s time_limit = Inr lease"
proof -
  from assms obtain timeout interval batch margin where
    "stale_task_settings s = Inr (timeout, interval, batch)" "recovery_margin_seconds s = Inr margin"
    by (rule recovery_okE)
  then show ?thesis by (cases time_limit) (auto simp: lease_seconds_def)
qed

section \<open>Retry delays from the settings\<close>

text \<open>\<open>django_dal._RetryPolicy\<close>.\<close>

record staged_policy =
  sp_fast_retry_attempts :: pyval
  sp_fast_retry_delay_seconds :: pynum
  sp_backoff_start_seconds :: pynum
  sp_backoff_multiplier :: pynum

fun times_60 :: "pynum \<Rightarrow> pynum" where
  "times_60 (PInt i) = PInt (i * 60)"
| "times_60 (PFloat q) = PFloat (q * 60)"

text \<open>\<open>_RetryPolicy.delay_seconds\<close>; it has no guard against \<open>OverflowError\<close>.\<close>

definition staged_delay_seconds :: "staged_policy \<Rightarrow> nat \<Rightarrow> fval res" where
  "staged_delay_seconds p attempt_count =
     (let fast = get_int (sp_fast_retry_attempts p) in
      if int attempt_count \<le> fast then Inr (Some (num (sp_fast_retry_delay_seconds p)))
      else (case py_pow (sp_backoff_multiplier p) (nat (int attempt_count - fast - 1)) of
              Inl e \<Rightarrow> Inl e
            | Inr pw \<Rightarrow> (case py_mul (sp_backoff_start_seconds p) pw of
                Inl e \<Rightarrow> Inl e
              | Inr d \<Rightarrow> Inr (fmax (num (sp_fast_retry_delay_seconds p)) d))))"

definition legacy_retry_policy :: "settings \<Rightarrow> staged_policy" where
  "legacy_retry_policy s =
     (let backoff_minutes = getattr (BLOCK_TASK_RETRY_BACKOFF s) (PInt 1)
      in \<lparr>sp_fast_retry_attempts = PyNum (PInt 0), sp_fast_retry_delay_seconds = PInt 0,
          sp_backoff_start_seconds = times_60 backoff_minutes,
          sp_backoff_multiplier = backoff_minutes\<rparr>)"

definition validate_staged_retry_policy :: "staged_policy \<Rightarrow> unit res" where
  "validate_staged_retry_policy p =
     (if \<not> is_non_negative_integer (sp_fast_retry_attempts p)
        then Inl (ValueError ''BLOCK_TASK_FAST_RETRY_ATTEMPTS'')
      else if num (sp_fast_retry_delay_seconds p) < 0
        then Inl (ValueError ''BLOCK_TASK_FAST_RETRY_DELAY_SECONDS'')
      else if num (sp_backoff_start_seconds p) < 0
        then Inl (ValueError ''BLOCK_TASK_RETRY_BACKOFF_START_SECONDS'')
      else if num (sp_backoff_multiplier p) < 1
        then Inl (ValueError ''BLOCK_TASK_RETRY_BACKOFF_MULTIPLIER'')
      else Inr ())"

definition staged_retry_policy :: "settings \<Rightarrow> staged_policy res" where
  "staged_retry_policy s =
     (let policy = \<lparr>
        sp_fast_retry_attempts = getattr (BLOCK_TASK_FAST_RETRY_ATTEMPTS s) (PyNum (PInt 2)),
        sp_fast_retry_delay_seconds = getattr (BLOCK_TASK_FAST_RETRY_DELAY_SECONDS s) (PInt 5),
        sp_backoff_start_seconds = getattr (BLOCK_TASK_RETRY_BACKOFF_START_SECONDS s) (PInt 60),
        sp_backoff_multiplier = getattr (BLOCK_TASK_RETRY_BACKOFF_MULTIPLIER s) (PInt 2)\<rparr>
      in case validate_staged_retry_policy policy of Inl e \<Rightarrow> Inl e | Inr _ \<Rightarrow> Inr policy)"

definition uses_staged_settings :: "settings \<Rightarrow> bool" where
  "uses_staged_settings s \<longleftrightarrow>
     BLOCK_TASK_FAST_RETRY_ATTEMPTS s \<noteq> None \<or> BLOCK_TASK_FAST_RETRY_DELAY_SECONDS s \<noteq> None \<or>
     BLOCK_TASK_RETRY_BACKOFF_START_SECONDS s \<noteq> None \<or> BLOCK_TASK_RETRY_BACKOFF_MULTIPLIER s \<noteq> None"

definition settings_retry_policy :: "settings \<Rightarrow> staged_policy res" where
  "settings_retry_policy s =
     (if uses_staged_settings s then staged_retry_policy s else Inr (legacy_retry_policy s))"

definition max_delay_seconds :: "settings \<Rightarrow> seconds" where
  "max_delay_seconds s = num (times_60 (getattr (BLOCK_TASK_MAX_RETRY_DELAY_MINUTES s) (PInt 1440)))"

definition get_retry_delay_seconds :: "settings \<Rightarrow> nat \<Rightarrow> seconds res" where
  "get_retry_delay_seconds s attempt_count =
     (case settings_retry_policy s of
        Inl e \<Rightarrow> Inl e
      | Inr policy \<Rightarrow>
          (case staged_delay_seconds policy attempt_count of
             Inl e \<Rightarrow> Inl e
           | Inr d \<Rightarrow> Inr (fmin d (max_delay_seconds s))))"

text \<open>\<open>retry_rules.SettingsRetries\<close>.\<close>

definition settings_allows_retry :: "settings \<Rightarrow> nat \<Rightarrow> bool" where
  "settings_allows_retry s attempt_count \<longleftrightarrow> int attempt_count < get_max_attempt_limit s"

definition settings_delay_seconds :: "settings \<Rightarrow> nat \<Rightarrow> seconds" where
  "settings_delay_seconds s n = (case get_retry_delay_seconds s n of Inr d \<Rightarrow> d | Inl _ \<Rightarrow> 0)"

text \<open>
  The settings give a schedule for every attempt: integer backoff settings (as the defaults are),
  a multiplier of at least 1, and no negative delay.
\<close>

definition valid_retry_settings :: "settings \<Rightarrow> bool" where
  "valid_retry_settings s \<longleftrightarrow>
     (\<exists>p start mult. settings_retry_policy s = Inr p \<and>
        sp_backoff_start_seconds p = PInt start \<and> sp_backoff_multiplier p = PInt mult \<and>
        0 \<le> start \<and> 1 \<le> mult \<and> 0 \<le> num (sp_fast_retry_delay_seconds p) \<and>
        0 \<le> get_int (sp_fast_retry_attempts p)) \<and> 0 \<le> max_delay_seconds s"

lemma settings_delay_eq:
  assumes "settings_retry_policy s = Inr p"
    and "sp_backoff_start_seconds p = PInt start" "sp_backoff_multiplier p = PInt mult"
  shows "get_retry_delay_seconds s n = Inr (settings_delay_seconds s n)"
    and "settings_delay_seconds s n =
      (if int n \<le> get_int (sp_fast_retry_attempts p)
       then min (num (sp_fast_retry_delay_seconds p)) (max_delay_seconds s)
       else min (max (num (sp_fast_retry_delay_seconds p))
           (of_int (start * mult ^ nat (int n - get_int (sp_fast_retry_attempts p) - 1))))
         (max_delay_seconds s))"
  using assms
  by (simp_all add: settings_delay_seconds_def get_retry_delay_seconds_def staged_delay_seconds_def Let_def)

lemma settings_delay_step:
  assumes "settings_retry_policy s = Inr p"
    and "sp_backoff_start_seconds p = PInt start" "sp_backoff_multiplier p = PInt mult"
    and "0 \<le> start" "1 \<le> mult"
  shows "settings_delay_seconds s n \<le> settings_delay_seconds s (Suc n)"
proof -
  let ?f = "get_int (sp_fast_retry_attempts p)"
  note eq = settings_delay_eq (2) [OF assms(1-3)]
  have "start * mult ^ nat (int n - ?f - 1) \<le> start * mult ^ nat (int (Suc n) - ?f - 1)"
    using assms(4,5) by (intro mult_left_mono power_increasing) auto
  then have "(of_int (start * mult ^ nat (int n - ?f - 1)) :: rat)
      \<le> of_int (start * mult ^ nat (int (Suc n) - ?f - 1))"
    by (rule of_int_le_iff [THEN iffD2])
  then show ?thesis
    unfolding eq [of n] eq [of "Suc n"] by (auto simp: min_def max_def)
qed

interpretation settings_retries: retries valid_retry_settings settings_allows_retry
    settings_delay_seconds max_delay_seconds
proof
  fix s :: settings and n :: nat
  assume "valid_retry_settings s"
  then obtain p start mult where p: "settings_retry_policy s = Inr p"
      "sp_backoff_start_seconds p = PInt start" "sp_backoff_multiplier p = PInt mult"
    and ge: "0 \<le> start" "1 \<le> mult" "0 \<le> num (sp_fast_retry_delay_seconds p)" "0 \<le> max_delay_seconds s"
    by (auto simp: valid_retry_settings_def)
  show "0 \<le> settings_delay_seconds s n" "settings_delay_seconds s n \<le> max_delay_seconds s"
    using ge by (auto simp: settings_delay_eq (2) [OF p] min_def max_def)
  show "settings_delay_seconds s n \<le> settings_delay_seconds s (Suc n)"
    by (rule settings_delay_step [OF p ge(1,2)])
qed (auto simp: settings_allows_retry_def)

end
