(* ===== verification/Queue_Policy.thy ===== *)
theory Queue_Policy
  imports Django_Settings
begin

text \<open>
  Queues with a policy (\<open>_internal/services/queue_policy.py\<close>): construction and its checks, the
  options and the expiry a message carries.
\<close>

section \<open>Strings\<close>

text \<open>Characters are code points below 256; \<open>str.strip\<close> removes these white space ones.\<close>

definition is_space :: "char \<Rightarrow> bool" where
  "is_space c \<longleftrightarrow> of_char c \<in> {9, 10, 11, 12, 13, 28, 29, 30, 31, 32, 133, 160 :: nat}"

definition strip :: "string \<Rightarrow> string" where
  "strip s = rev (dropWhile is_space (rev (dropWhile is_space s)))"

lemma strip_ends:
  "strip s \<noteq> [] \<Longrightarrow> \<not> is_space (hd (strip s)) \<and> \<not> is_space (last (strip s))"
proof -
  assume ne: "strip s \<noteq> []"
  let ?t = "dropWhile is_space s"
  have "last (strip s) = hd (dropWhile is_space (rev ?t))"
    using ne by (simp add: strip_def last_rev)
  moreover have "dropWhile is_space (rev ?t) \<noteq> []" using ne by (simp add: strip_def)
  ultimately have last: "\<not> is_space (last (strip s))" using hd_dropWhile by metis
  have "?t \<noteq> []" using ne by (cases "?t = []") (simp_all add: strip_def)
  moreover obtain zs where "?t = strip s @ zs"
    by (metis rev_append rev_rev_ident strip_def takeWhile_dropWhile_id)
  ultimately have "hd (strip s) = hd ?t" using ne by simp
  then show ?thesis using last hd_dropWhile \<open>?t \<noteq> []\<close> by metis
qed

lemma strip_idem: "strip (strip s) = strip s"
proof (cases "strip s = []")
  case True
  moreover have "strip [] = []" by (simp add: strip_def)
  ultimately show ?thesis by simp
next
  case False
  let ?u = "strip s"
  from strip_ends [OF False] have "dropWhile is_space ?u = ?u" "dropWhile is_space (rev ?u) = rev ?u"
    using False by (simp_all add: dropWhile_eq_self_iff hd_rev)
  then show ?thesis by (simp add: strip_def [of ?u])
qed

section \<open>Queue\<close>

record queue =
  q_name :: string
  soft_time_limit :: "pynum option"
  time_limit :: "pynum option"
  message_ttl :: "pynum option"
  throttle :: "int option"
  retry :: retry_policy

text \<open>
  \<open>Queue(...)\<close>: the checks of \<open>__post_init__\<close> in their order. \<open>retry\<close> is \<open>None\<close> for an
  object that is not a \<open>RetryPolicy\<close>.
\<close>

definition queue_new ::
  "pyval \<Rightarrow> pyval \<Rightarrow> pyval \<Rightarrow> pyval \<Rightarrow> pyval \<Rightarrow> retry_policy option \<Rightarrow> queue res" where
  "queue_new name soft hard ttl thr rp =
     (case name of
        PyStr n \<Rightarrow>
          if strip n = [] then Inl (ValueError ''name'')
          else if soft \<noteq> PyNone \<and> \<not> is_positive_number soft then Inl (ValueError ''soft_time_limit'')
          else if hard \<noteq> PyNone \<and> \<not> is_positive_number hard then Inl (ValueError ''time_limit'')
          else if ttl \<noteq> PyNone \<and> \<not> is_positive_number ttl then Inl (ValueError ''message_ttl'')
          else if thr \<noteq> PyNone \<and> \<not> is_positive_integer thr then Inl (ValueError ''throttle'')
          else (case rp of
             None \<Rightarrow> Inl (ValueError ''retry'')
           | Some r \<Rightarrow>
               if soft \<noteq> PyNone \<and> hard \<noteq> PyNone \<and> num (get_num soft) \<ge> num (get_num hard)
               then Inl (ValueError ''soft_time_limit must be lower than time_limit'')
               else Inr \<lparr>q_name = strip n, soft_time_limit = opt_of get_num soft,
                 time_limit = opt_of get_num hard, message_ttl = opt_of get_num ttl,
                 throttle = opt_of get_int thr, retry = r\<rparr>)
      | _ \<Rightarrow> Inl (ValueError ''name''))"

definition valid_queue :: "queue \<Rightarrow> bool" where
  "valid_queue q \<longleftrightarrow>
     q_name q \<noteq> [] \<and> strip (q_name q) = q_name q \<and> valid_retry_policy (retry q) \<and>
     (\<forall>l. soft_time_limit q = Some l \<longrightarrow> num l > 0) \<and> (\<forall>l. time_limit q = Some l \<longrightarrow> num l > 0) \<and>
     (\<forall>l. message_ttl q = Some l \<longrightarrow> num l > 0) \<and> (\<forall>t. throttle q = Some t \<longrightarrow> t \<ge> 1) \<and>
     (\<forall>s h. soft_time_limit q = Some s \<longrightarrow> time_limit q = Some h \<longrightarrow> num s < num h)"

lemma opt_of_Some: "opt_of f v = Some x \<longleftrightarrow> v \<noteq> PyNone \<and> x = f v"
  by (cases v) auto

lemma queue_new_valid:
  assumes "queue_new name soft hard ttl thr rp = Inr q"
    and "\<And>r. rp = Some r \<Longrightarrow> valid_retry_policy r"
  shows "valid_queue q"
proof -
  obtain n where n: "name = PyStr n" using assms(1) by (cases name) (simp_all add: queue_new_def)
  obtain r where r: "rp = Some r"
    using assms(1) n by (cases rp) (simp_all add: queue_new_def split: if_splits)
  have "valid_retry_policy r" using assms(2) r .
  moreover have q: "q = \<lparr>q_name = strip n, soft_time_limit = opt_of get_num soft,
      time_limit = opt_of get_num hard, message_ttl = opt_of get_num ttl,
      throttle = opt_of get_int thr, retry = r\<rparr>"
    and "strip n \<noteq> []" "soft = PyNone \<or> is_positive_number soft"
      "hard = PyNone \<or> is_positive_number hard" "ttl = PyNone \<or> is_positive_number ttl"
      "thr = PyNone \<or> is_positive_integer thr"
      "soft = PyNone \<or> hard = PyNone \<or> num (get_num soft) < num (get_num hard)"
    using assms(1) by (simp_all add: n r queue_new_def not_le split: if_splits)
  ultimately show ?thesis
    unfolding valid_queue_def q
    by (simp add: strip_idem opt_of_Some) (metis is_positive_number_get is_positive_integer_get)
qed

text \<open>
  Equality of frozen dataclasses compares field by field, and Python numbers by value:
  \<open>60 == 60.0\<close>.
\<close>

definition same_num :: "pynum option \<Rightarrow> pynum option \<Rightarrow> bool" where
  "same_num a b \<longleftrightarrow> map_option num a = map_option num b"

definition same_retry :: "retry_policy \<Rightarrow> retry_policy \<Rightarrow> bool" where
  "same_retry p r \<longleftrightarrow>
     max_attempts p = max_attempts r \<and> give_up_after_blocks p = give_up_after_blocks r \<and>
     fast_retry_attempts p = fast_retry_attempts r \<and>
     num (fast_retry_delay p) = num (fast_retry_delay r) \<and>
     num (backoff_start p) = num (backoff_start r) \<and>
     num (backoff_multiplier p) = num (backoff_multiplier r) \<and> num (max_delay p) = num (max_delay r)"

definition same_queue :: "queue \<Rightarrow> queue \<Rightarrow> bool" where
  "same_queue q r \<longleftrightarrow>
     q_name q = q_name r \<and> same_num (soft_time_limit q) (soft_time_limit r) \<and>
     same_num (time_limit q) (time_limit r) \<and> same_num (message_ttl q) (message_ttl r) \<and>
     throttle q = throttle r \<and> same_retry (retry q) (retry r)"

lemma same_queue_refl [simp]: "same_queue q q"
  by (simp add: same_queue_def same_num_def same_retry_def)

lemma same_queue_sym: "same_queue q r \<Longrightarrow> same_queue r q"
  by (simp add: same_queue_def same_num_def same_retry_def)

lemma same_queue_trans: "same_queue q r \<Longrightarrow> same_queue r s \<Longrightarrow> same_queue q s"
  by (simp add: same_queue_def same_num_def same_retry_def)

section \<open>Messages\<close>

definition message_options :: "queue \<Rightarrow> (string, pyval) dict" where
  "message_options q =
     [(''queue'', PyStr (q_name q))] @
     (case soft_time_limit q of None \<Rightarrow> [] | Some l \<Rightarrow> [(''soft_time_limit'', PyNum l)]) @
     (case time_limit q of None \<Rightarrow> [] | Some l \<Rightarrow> [(''time_limit'', PyNum l)])"

lemma distinct_message_options: "distinct (map fst (message_options q))"
  by (auto simp: message_options_def split: option.splits)

lemma map_of_message_options [simp]:
  "map_of (message_options q) ''queue'' = Some (PyStr (q_name q))"
  by (simp add: message_options_def)

definition message_expiry :: "queue \<Rightarrow> instant option \<Rightarrow> instant \<Rightarrow> instant option" where
  "message_expiry q eta now =
     (case message_ttl q of
        None \<Rightarrow> None
      | Some ttl \<Rightarrow>
          let start = (case eta of None \<Rightarrow> now | Some e \<Rightarrow> max now e) in Some (start + num ttl))"

end
