(* ===== verification/Queue_Attempts.thy ===== *)
theory Queue_Attempts
  imports Task_Attempt Queue_Policy
begin

text \<open>
  Which attempts of \<open>BlockDumper\<close> tasks are in flight, lost, or may run again
  (\<open>_internal/dal/queue_attempts.py\<close>). The queries are given as predicates on rows plus the
  order and the limit of the rows they return.
\<close>

text \<open>The value of a nullable time column a query orders by; the filters exclude NULL there.\<close>

definition col_time :: "instant option \<Rightarrow> instant" where
  "col_time c = (case c of None \<Rightarrow> 0 | Some t \<Rightarrow> t)"

text \<open>\<open>expired_message_filter\<close>; \<open>ttl_windows\<close> maps a queue name to its TTL plus the margin.\<close>

definition expired_message :: "clocks \<Rightarrow> (string, seconds) dict \<Rightarrow> task_attempt \<Rightarrow> bool" where
  "expired_message c ttl_windows r \<longleftrightarrow>
     status r = PENDING \<and>
     list_ex (\<lambda>(queue_name, window).
        dispatch_queue r = Some queue_name \<and> col_lt (dispatched_at r) (db_now_offset c (- window)) \<and>
        (next_retry_at r = None \<or> col_lt (next_retry_at r) (py_now c - window))) ttl_windows"

definition expired_message_ids ::
  "clocks \<Rightarrow> (string, seconds) dict \<Rightarrow> int \<Rightarrow> string list \<Rightarrow> db \<Rightarrow> nat list" where
  "expired_message_ids c ttl_windows limit paths d =
     (if ttl_windows = [] \<or> limit \<le> 0 then []
      else map attempt_id (ordered_limit (\<lambda>r. (col_time (dispatched_at r), attempt_id r)) limit
        (filter (\<lambda>r. expired_message c ttl_windows r \<and> executable_path r \<in> set paths) (attempts d))))"

text \<open>The row condition of \<open>count_inflight\<close>.\<close>

definition in_flight ::
  "clocks \<Rightarrow> string \<Rightarrow> seconds option \<Rightarrow> instant option \<Rightarrow> task_attempt \<Rightarrow> bool" where
  "in_flight c queue_name ttl_window stale_before r \<longleftrightarrow>
     dispatch_queue r = Some queue_name \<and>
     (status r = RUNNING \<and> (lease_expires_at r = None \<or> col_ge (lease_expires_at r) (db_now c)) \<or>
      status r = PENDING \<and> (next_retry_at r = None \<or> col_le (next_retry_at r) (py_now c)) \<and>
      (case ttl_window of
         Some w \<Rightarrow> col_ge (dispatched_at r) (db_now_offset c (- w)) \<or>
           col_ge (next_retry_at r) (py_now c - w)
       | None \<Rightarrow>
           (case stale_before of
              Some t \<Rightarrow> t \<le> updated_at r \<or> col_ge (next_retry_at r) t
            | None \<Rightarrow> True)))"

definition count_inflight ::
  "clocks \<Rightarrow> string \<Rightarrow> seconds option \<Rightarrow> instant option \<Rightarrow> db \<Rightarrow> nat" where
  "count_inflight c queue_name ttl_window stale_before d =
     count_rows (in_flight c queue_name ttl_window stale_before) d"

text \<open>
  \<open>_stuck_filter\<close>. Django translates the negated condition on the nullable column so that a NULL
  queue does not match it.
\<close>

definition stuck_filter :: "settings \<Rightarrow> instant \<Rightarrow> string list \<Rightarrow> task_attempt \<Rightarrow> bool" where
  "stuck_filter s stale_before ttl_queues r \<longleftrightarrow>
     ((status r = PENDING \<or> status r = RUNNING \<and> lease_expires_at r = None) \<and>
      updated_at r < stale_before \<and>
      (next_retry_at r = None \<or> col_lt (next_retry_at r) stale_before) \<and>
      \<not> (status r = PENDING \<and> (case dispatch_queue r of None \<Rightarrow> False | Some q \<Rightarrow> q \<in> set ttl_queues) \<and>
         dispatched_at r \<noteq> None) \<or>
      status r = FAILED \<and> next_retry_at r \<noteq> None \<and> col_lt (next_retry_at r) stale_before) \<and>
     (dispatch_queue r \<noteq> None \<or> int (attempt_count r) < get_max_attempt_limit s)"

definition stuck_attempt_ids ::
  "settings \<Rightarrow> instant \<Rightarrow> int \<Rightarrow> string list \<Rightarrow> string list \<Rightarrow> db \<Rightarrow> nat list" where
  "stuck_attempt_ids s stale_before limit paths ttl_queues d =
     (if limit \<le> 0 then []
      else map attempt_id (ordered_limit (\<lambda>r. (updated_at r, attempt_id r)) limit
        (filter (\<lambda>r. stuck_filter s stale_before ttl_queues r \<and> executable_path r \<in> set paths) (attempts d))))"

text \<open>\<open>queue_attempts.is_stuck\<close>, on a row loaded under its lock.\<close>

definition queue_is_stuck :: "settings \<Rightarrow> task_attempt \<Rightarrow> instant \<Rightarrow> string list \<Rightarrow> bool" where
  "queue_is_stuck s r stale_before ttl_queues =
     (if dispatch_queue r = None \<and> int (attempt_count r) \<ge> get_max_attempt_limit s then False
      else if status r = RUNNING \<and> lease_expires_at r \<noteq> None then False
      else if status r = PENDING \<and> (case dispatch_queue r of None \<Rightarrow> False | Some q \<Rightarrow> q \<in> set ttl_queues) \<and>
        dispatched_at r \<noteq> None then False
      else if status r = PENDING \<or> status r = RUNNING then
        updated_at r < stale_before \<and> (case next_retry_at r of None \<Rightarrow> True | Some t \<Rightarrow> t < stale_before)
      else if status r = FAILED then
        (case next_retry_at r of None \<Rightarrow> False | Some t \<Rightarrow> t < stale_before)
      else False)"

definition can_run_again :: "settings \<Rightarrow> task_attempt \<Rightarrow> bool" where
  "can_run_again s r =
     (if status r = SUCCESS \<or> status r = RUNNING \<or> give_up_reason r \<noteq> None then False
      else if dispatch_queue r \<noteq> None then True
      else int (attempt_count r) < get_max_attempt_limit s)"

section \<open>Facts\<close>

lemma expired_message_iff:
  "expired_message c ttl r \<longleftrightarrow> status r = PENDING \<and>
     (\<exists>q w. (q, w) \<in> set ttl \<and> dispatch_queue r = Some q \<and>
        col_lt (dispatched_at r) (db_now_offset c (- w)) \<and>
        (next_retry_at r = None \<or> col_lt (next_retry_at r) (py_now c - w)))"
  by (auto simp: expired_message_def list_ex_iff)

lemma expired_message_unique:
  assumes "distinct (map fst ttl)" "(q, w) \<in> set ttl" "dispatch_queue r = Some q" "status r = PENDING"
  shows "expired_message c ttl r \<longleftrightarrow> col_lt (dispatched_at r) (db_now_offset c (- w)) \<and>
    (next_retry_at r = None \<or> col_lt (next_retry_at r) (py_now c - w))"
proof -
  have "(q, w') \<in> set ttl \<longleftrightarrow> w' = w" for w'
    using assms(1,2) eq_key_imp_eq_value by metis
  then show ?thesis using assms(3,4) unfolding expired_message_iff by simp
qed

lemma expired_message_ids_mem:
  assumes "i \<in> set (expired_message_ids c ttl limit paths d)" "db_ok d"
  shows "\<exists>r. row i d = Some r \<and> expired_message c ttl r \<and> executable_path r \<in> set paths"
  using assms row_eq_Some [OF assms(2)]
  by (auto simp: expired_message_ids_def split: if_splits dest!: ordered_limit_filterD)

lemma stuck_attempt_ids_mem:
  assumes "i \<in> set (stuck_attempt_ids s t limit paths qs d)" "db_ok d"
  shows "\<exists>r. row i d = Some r \<and> stuck_filter s t qs r \<and> executable_path r \<in> set paths"
  using assms row_eq_Some [OF assms(2)]
  by (auto simp: stuck_attempt_ids_def split: if_splits dest!: ordered_limit_filterD)

text \<open>
  The stuck-task query and the re-check under the row lock agree on every row, so a row the
  sweep selects is dropped under the lock only when it changed in between.
\<close>

theorem queue_is_stuck_iff_filter:
  "queue_is_stuck s r stale_before ttl_queues \<longleftrightarrow> stuck_filter s stale_before ttl_queues r"
proof (cases "status r")
  case PENDING
  then show ?thesis
    by (auto simp: queue_is_stuck_def stuck_filter_def col_iff split: option.splits)
next
  case RUNNING
  then show ?thesis
    by (auto simp: queue_is_stuck_def stuck_filter_def col_iff split: option.splits)
next
  case SUCCESS
  then show ?thesis by (simp add: queue_is_stuck_def stuck_filter_def)
next
  case FAILED
  then show ?thesis
    by (auto simp: queue_is_stuck_def stuck_filter_def col_iff split: option.splits)
qed

text \<open>
  On a queue with a message TTL, a dispatched PENDING attempt that is not waiting for a later
  retry is either counted against the throttle or taken for expired by the sweep, never both and
  never neither: an attempt known to be lost does not hold the queue's budget.
\<close>

theorem ttl_pending_counted_or_expired:
  assumes "distinct (map fst ttl)" and "(q, w) \<in> set ttl"
    and "dispatch_queue r = Some q" and "status r = PENDING" and "dispatched_at r \<noteq> None"
    and "next_retry_at r = None \<or> col_le (next_retry_at r) (py_now c)"
  shows "in_flight c q (Some w) stale_before r \<longleftrightarrow> \<not> expired_message c ttl r"
proof -
  from assms(5) obtain t where t: "dispatched_at r = Some t" by blast
  show ?thesis
  proof (cases "next_retry_at r")
    case None
    then show ?thesis
      using t assms(3,4) expired_message_unique [OF assms(1-4), of c]
      by (auto simp: in_flight_def)
  next
    case (Some e)
    then show ?thesis
      using t assms(3,4,6) expired_message_unique [OF assms(1-4), of c]
      by (auto simp: in_flight_def)
  qed
qed

definition sample_dispatched :: task_attempt where
  "sample_dispatched = (new_attempt 7 100 ''app.task'' ''{}'' 1000)
     \<lparr>dispatch_queue := Some ''archive'', dispatched_at := Some 1000\<rparr>"

theorem ttl_pending_counted_or_expired_witness:
  "in_flight \<lparr>py_now = 1100, db_now = 1100\<rparr> ''archive'' (Some 60) None sample_dispatched \<longleftrightarrow>
   \<not> expired_message \<lparr>py_now = 1100, db_now = 1100\<rparr> [(''archive'', 60)] sample_dispatched"
  by (rule ttl_pending_counted_or_expired) (simp_all add: sample_dispatched_def new_attempt_def)

end
