(* ===== verification/Attempt_Transitions.thy ===== *)
theory Attempt_Transitions
  imports Queue_Attempts
begin

text \<open>
  The status transitions of \<open>_internal/dal/attempt_transitions.py\<close>. Each is one conditional UPDATE:
  a guard on the row (its WHERE clause) and a write (its SET clause), joined by
  \<^const>\<open>update_by_id\<close>. The first section has the operations, the second what they keep, the third
  the races between them.
\<close>

section \<open>Operations\<close>

text \<open>\<open>BEFORE_GIVE_UP\<close>.\<close>

definition before_give_up :: "clocks \<Rightarrow> task_attempt \<Rightarrow> bool" where
  "before_give_up c r \<longleftrightarrow> give_up_at r = None \<or> col_gt (give_up_at r) (db_now c)"

definition reopen_guard :: "task_attempt \<Rightarrow> bool" where
  "reopen_guard r \<longleftrightarrow> status r = FAILED \<and> give_up_reason r = None"

text \<open>The conditional UPDATE of \<open>create_or_reopen\<close>, with the time it has read before.\<close>

definition reopen_attempt :: "instant \<Rightarrow> nat \<Rightarrow> db \<Rightarrow> bool \<times> db" where
  "reopen_attempt now task_id d =
     update_by_id task_id reopen_guard (\<lambda>r. r\<lparr>status := PENDING, updated_at := now\<rparr>) d"

text \<open>
  \<open>create_or_reopen\<close> returns the loaded attempt, whose status alone is set when it was reopened,
  and whether it was created.
\<close>

definition create_or_reopen ::
  "clocks \<Rightarrow> settings \<Rightarrow> int \<Rightarrow> string \<Rightarrow> jdict \<Rightarrow> db \<Rightarrow> (task_attempt \<times> bool) \<times> db" where
  "create_or_reopen c s block path args d =
     (case get_or_create block path (serialize_args args) (py_now c) d of
        ((task, created), d') \<Rightarrow>
          if created \<or> status task \<noteq> FAILED \<or> \<not> can_run_again s task then ((task, created), d')
          else if next_retry_at task = None \<or> col_le (next_retry_at task) (py_now c) then
            (let (reopened, d'') = reopen_attempt (py_now c) (attempt_id task) d'
             in ((if reopened then task\<lparr>status := PENDING\<rparr> else task, created), d''))
          else ((task, created), d'))"

text \<open>\<open>record_dispatch\<close> updates the row and the fields of the loaded attempt.\<close>

definition dispatch_write :: "clocks \<Rightarrow> string option \<Rightarrow> string option \<Rightarrow> task_attempt \<Rightarrow> task_attempt" where
  "dispatch_write c queue dispatch r = r\<lparr>celery_queue_override := queue, dispatch_queue := dispatch,
     dispatched_at := Some (db_now c), updated_at := py_now c\<rparr>"

definition record_dispatch ::
  "clocks \<Rightarrow> task_attempt \<Rightarrow> string option \<Rightarrow> string option \<Rightarrow> db \<Rightarrow> task_attempt \<times> db" where
  "record_dispatch c task queue dispatch d =
     (task\<lparr>celery_queue_override := queue, dispatch_queue := dispatch, updated_at := py_now c\<rparr>,
      snd (update_by_id (attempt_id task) (\<lambda>_. True) (dispatch_write c queue dispatch) d))"

definition expired_message_write :: "clocks \<Rightarrow> task_attempt \<Rightarrow> task_attempt" where
  "expired_message_write c r =
     r\<lparr>celery_task_id := None, dispatched_at := Some (db_now c), updated_at := py_now c\<rparr>"

definition claim_expired_message :: "clocks \<Rightarrow> nat \<Rightarrow> (string, seconds) dict \<Rightarrow> db \<Rightarrow> bool \<times> db" where
  "claim_expired_message c task_id ttl_windows d =
     update_by_id task_id (expired_message c ttl_windows) (expired_message_write c) d"

text \<open>\<open>attempt_transitions.find\<close>.\<close>

definition find_attempt :: "int \<Rightarrow> string \<Rightarrow> string \<Rightarrow> db \<Rightarrow> task_attempt option" where
  "find_attempt block path args d = find_key block path args d"

definition claim_guard :: "clocks \<Rightarrow> task_attempt \<Rightarrow> bool" where
  "claim_guard c r \<longleftrightarrow> before_give_up c r \<and> status r = PENDING"

definition claim_write :: "clocks \<Rightarrow> string \<Rightarrow> seconds option \<Rightarrow> task_attempt \<Rightarrow> task_attempt" where
  "claim_write c claim_token lease r = r\<lparr>status := RUNNING, attempt_count := attempt_count r + 1,
     celery_task_id := Some claim_token, last_attempted_at := Some (db_now c),
     lease_expires_at := map_option (db_now_offset c) lease, updated_at := py_now c\<rparr>"

definition claim :: "clocks \<Rightarrow> nat \<Rightarrow> string \<Rightarrow> seconds option \<Rightarrow> db \<Rightarrow> bool \<times> db" where
  "claim c task_id claim_token lease d =
     update_by_id task_id (claim_guard c) (claim_write c claim_token lease) d"

text \<open>The fence of \<open>finish_success\<close> and \<open>finish_failure\<close>.\<close>

definition held_by :: "string \<Rightarrow> task_attempt \<Rightarrow> bool" where
  "held_by claim_token r \<longleftrightarrow> status r = RUNNING \<and> celery_task_id r = Some claim_token"

definition success_write :: "clocks \<Rightarrow> json option \<Rightarrow> task_attempt \<Rightarrow> task_attempt" where
  "success_write c result r = r\<lparr>status := SUCCESS, execution_result := result,
     next_retry_at := None, lease_expires_at := None, updated_at := py_now c\<rparr>"

definition finish_success :: "clocks \<Rightarrow> nat \<Rightarrow> string \<Rightarrow> json option \<Rightarrow> db \<Rightarrow> bool \<times> db" where
  "finish_success c task_id claim_token result d =
     update_by_id task_id (held_by claim_token) (success_write c result) d"

text \<open>\<open>_failure_fields\<close>, as the write of the fields it returns.\<close>

definition too_late :: "clocks \<Rightarrow> seconds \<Rightarrow> task_attempt \<Rightarrow> bool" where
  "too_late c delay r \<longleftrightarrow> col_lt (give_up_at r) (db_now_offset c delay)"

definition failure_fields :: "clocks \<Rightarrow> seconds option \<Rightarrow> task_attempt \<Rightarrow> task_attempt" where
  "failure_fields c retry_delay r =
     (case retry_delay of
        None \<Rightarrow> r\<lparr>next_retry_at := None, give_up_reason := Some ATTEMPTS, updated_at := py_now c\<rparr>
      | Some delay \<Rightarrow>
          r\<lparr>next_retry_at := (if too_late c delay r then None else Some (py_now c + delay)),
            give_up_reason := (if too_late c delay r then Some BLOCK_AGE else None),
            updated_at := py_now c\<rparr>)"

definition failure_write :: "clocks \<Rightarrow> seconds option \<Rightarrow> task_attempt \<Rightarrow> task_attempt" where
  "failure_write c retry_delay r =
     failure_fields c retry_delay (r\<lparr>status := FAILED, lease_expires_at := None\<rparr>)"

definition finish_failure :: "clocks \<Rightarrow> nat \<Rightarrow> string \<Rightarrow> seconds option \<Rightarrow> db \<Rightarrow> bool \<times> db" where
  "finish_failure c task_id claim_token retry_delay d =
     update_by_id task_id (held_by claim_token) (failure_write c retry_delay) d"

definition lease_expired :: "clocks \<Rightarrow> task_attempt \<Rightarrow> bool" where
  "lease_expired c r \<longleftrightarrow> status r = RUNNING \<and> col_lt (lease_expires_at r) (db_now c)"

definition expired_lease_ids :: "clocks \<Rightarrow> int \<Rightarrow> string list \<Rightarrow> db \<Rightarrow> nat list" where
  "expired_lease_ids c limit paths d =
     map attempt_id (ordered_limit (\<lambda>r. (col_time (lease_expires_at r), attempt_id r)) limit
       (filter (\<lambda>r. lease_expired c r \<and> executable_path r \<in> set paths) (attempts d)))"

definition fail_expired_lease :: "clocks \<Rightarrow> nat \<Rightarrow> seconds option \<Rightarrow> db \<Rightarrow> bool \<times> db" where
  "fail_expired_lease c task_id retry_delay d =
     update_by_id task_id (lease_expired c) (failure_write c retry_delay) d"

definition deadline_write :: "clocks \<Rightarrow> seconds \<Rightarrow> task_attempt \<Rightarrow> task_attempt" where
  "deadline_write c seconds_from_now r = r\<lparr>give_up_at :=
     (case give_up_at r of None \<Rightarrow> Some (db_now_offset c seconds_from_now) | Some t \<Rightarrow> Some t)\<rparr>"

definition set_give_up_deadline :: "clocks \<Rightarrow> nat \<Rightarrow> seconds \<Rightarrow> db \<Rightarrow> db" where
  "set_give_up_deadline c task_id seconds_from_now d =
     snd (update_by_id task_id (\<lambda>_. True) (deadline_write c seconds_from_now) d)"

definition still_runnable :: "task_attempt \<Rightarrow> bool" where
  "still_runnable r \<longleftrightarrow> (status r = PENDING \<or> status r = FAILED) \<and> give_up_reason r = None"

definition past_deadline :: "clocks \<Rightarrow> task_attempt \<Rightarrow> bool" where
  "past_deadline c r \<longleftrightarrow> still_runnable r \<and> col_le (give_up_at r) (db_now c)"

definition give_up_write :: "clocks \<Rightarrow> give_up_reason \<Rightarrow> task_attempt \<Rightarrow> task_attempt" where
  "give_up_write c reason r = r\<lparr>status := FAILED, next_retry_at := None,
     give_up_reason := Some reason, updated_at := py_now c\<rparr>"

definition give_up_if_past_deadline :: "clocks \<Rightarrow> nat \<Rightarrow> db \<Rightarrow> bool \<times> db" where
  "give_up_if_past_deadline c task_id d =
     update_by_id task_id (past_deadline c) (give_up_write c BLOCK_AGE) d"

text \<open>A query set of attempts is the predicate of its filters.\<close>

definition could_still_run :: "(task_attempt \<Rightarrow> bool) \<Rightarrow> task_attempt \<Rightarrow> bool" where
  "could_still_run selected r \<longleftrightarrow> selected r \<and> still_runnable r"

definition give_up_by_hand :: "clocks \<Rightarrow> (task_attempt \<Rightarrow> bool) \<Rightarrow> db \<Rightarrow> nat \<times> db" where
  "give_up_by_hand c selected d =
     (count_rows (could_still_run selected) d,
      update_rows (could_still_run selected) (give_up_write c MANUAL) d)"

definition requeue_write :: "clocks \<Rightarrow> string \<Rightarrow> task_attempt \<Rightarrow> task_attempt" where
  "requeue_write c queue r = r\<lparr>status := PENDING, celery_queue_override := Some queue,
     dispatch_queue := Some queue, dispatched_at := Some (db_now c), updated_at := py_now c\<rparr>"

definition requeue_for_retry :: "clocks \<Rightarrow> nat \<Rightarrow> string \<Rightarrow> db \<Rightarrow> bool \<times> db" where
  "requeue_for_retry c task_id queue d =
     update_by_id task_id reopen_guard (requeue_write c queue) d"

lemmas guard_defs = before_give_up_def reopen_guard_def claim_guard_def held_by_def lease_expired_def
  still_runnable_def past_deadline_def expired_message_iff

lemmas write_defs = dispatch_write_def expired_message_write_def claim_write_def success_write_def
  failure_write_def failure_fields_def deadline_write_def give_up_write_def requeue_write_def

lemmas transition_defs = reopen_attempt_def claim_expired_message_def claim_def finish_success_def
  finish_failure_def fail_expired_lease_def set_give_up_deadline_def give_up_if_past_deadline_def
  requeue_for_retry_def record_dispatch_def

section \<open>Frames\<close>

text \<open>No write touches what identifies the row, or the time it was created.\<close>

lemma writes_keep_key [simp]:
  "keeps_key (dispatch_write c q q')" "keeps_key (expired_message_write c)"
  "keeps_key (claim_write c t l)" "keeps_key (success_write c v)" "keeps_key (failure_write c dl)"
  "keeps_key (deadline_write c s)" "keeps_key (give_up_write c g)" "keeps_key (requeue_write c n)"
  "keeps_key (\<lambda>r. r\<lparr>status := st, updated_at := u\<rparr>)"
  by (auto simp: keeps_key_def attempt_key_def write_defs split: option.splits)

lemma write_status [simp]:
  "status (dispatch_write c q q' r) = status r" "status (expired_message_write c r) = status r"
  "status (claim_write c t l r) = RUNNING" "status (success_write c v r) = SUCCESS"
  "status (failure_write c dl r) = FAILED" "status (deadline_write c s r) = status r"
  "status (give_up_write c g r) = FAILED" "status (requeue_write c n r) = PENDING"
  by (auto simp: write_defs split: option.splits)

lemma write_count [simp]:
  "attempt_count (dispatch_write c q q' r) = attempt_count r"
  "attempt_count (expired_message_write c r) = attempt_count r"
  "attempt_count (claim_write c t l r) = Suc (attempt_count r)"
  "attempt_count (success_write c v r) = attempt_count r"
  "attempt_count (failure_write c dl r) = attempt_count r"
  "attempt_count (deadline_write c s r) = attempt_count r"
  "attempt_count (give_up_write c g r) = attempt_count r"
  "attempt_count (requeue_write c n r) = attempt_count r"
  by (auto simp: write_defs split: option.splits)

lemma write_reason [simp]:
  "give_up_reason (dispatch_write c q q' r) = give_up_reason r"
  "give_up_reason (expired_message_write c r) = give_up_reason r"
  "give_up_reason (claim_write c t l r) = give_up_reason r"
  "give_up_reason (success_write c v r) = give_up_reason r"
  "give_up_reason (deadline_write c s r) = give_up_reason r"
  "give_up_reason (give_up_write c g r) = Some g"
  "give_up_reason (requeue_write c n r) = give_up_reason r"
  by (auto simp: write_defs split: option.splits)

section \<open>The row invariant\<close>

text \<open>
  What the columns of an attempt say together. An attempt that was given up is FAILED with no retry
  ahead; only a RUNNING attempt has a lease; an attempt that runs or succeeded was counted and has an
  owner; an attempt that failed and was not given up has a retry time.
\<close>

definition row_ok :: "task_attempt \<Rightarrow> bool" where
  "row_ok r \<longleftrightarrow>
     (give_up_reason r \<noteq> None \<longrightarrow> status r = FAILED \<and> next_retry_at r = None) \<and>
     (lease_expires_at r \<noteq> None \<longrightarrow> status r = RUNNING) \<and>
     (status r = RUNNING \<or> status r = SUCCESS \<longrightarrow>
        celery_task_id r \<noteq> None \<and> last_attempted_at r \<noteq> None \<and> 0 < attempt_count r) \<and>
     (status r = SUCCESS \<longrightarrow> next_retry_at r = None) \<and>
     (status r = FAILED \<longrightarrow> give_up_reason r = None \<longrightarrow> next_retry_at r \<noteq> None)"

definition rows_ok :: "(task_attempt \<Rightarrow> bool) \<Rightarrow> db \<Rightarrow> bool" where
  "rows_ok P d \<longleftrightarrow> (\<forall>r \<in> set (attempts d). P r)"

definition table_ok :: "db \<Rightarrow> bool" where
  "table_ok d \<longleftrightarrow> db_ok d \<and> rows_ok row_ok d"

lemma rows_ok_update_rows:
  "rows_ok P d \<Longrightarrow> (\<And>r. P r \<Longrightarrow> p r \<Longrightarrow> P (f r)) \<Longrightarrow> rows_ok P (update_rows p f d)"
  by (auto simp: rows_ok_def update_rows_def)

lemma rows_ok_update_by_id:
  "rows_ok P d \<Longrightarrow> (\<And>r. P r \<Longrightarrow> p r \<Longrightarrow> P (f r)) \<Longrightarrow> rows_ok P (snd (update_by_id i p f d))"
  unfolding update_by_id_def by (auto intro: rows_ok_update_rows)

lemma rows_ok_insert:
  "rows_ok P d \<Longrightarrow> P (new_attempt (next_id d) b p a t) \<Longrightarrow> rows_ok P (snd (insert_attempt b p a t d))"
  by (auto simp: rows_ok_def insert_attempt_def Let_def)

lemma rows_okD: "rows_ok P d \<Longrightarrow> row i d = Some r \<Longrightarrow> P r"
  by (auto simp: rows_ok_def dest: row_mem)

lemma row_ok_writes:
  "row_ok r \<Longrightarrow> row_ok (dispatch_write c q q' r)"
  "row_ok r \<Longrightarrow> expired_message c w r \<Longrightarrow> row_ok (expired_message_write c r)"
  "row_ok r \<Longrightarrow> claim_guard c r \<Longrightarrow> row_ok (claim_write c t l r)"
  "row_ok r \<Longrightarrow> held_by t r \<Longrightarrow> row_ok (success_write c v r)"
  "row_ok r \<Longrightarrow> status r = RUNNING \<Longrightarrow> row_ok (failure_write c dl r)"
  "row_ok r \<Longrightarrow> row_ok (deadline_write c s r)"
  "row_ok r \<Longrightarrow> still_runnable r \<Longrightarrow> row_ok (give_up_write c g r)"
  "row_ok r \<Longrightarrow> reopen_guard r \<Longrightarrow> row_ok (requeue_write c n r)"
  "row_ok r \<Longrightarrow> reopen_guard r \<Longrightarrow> row_ok (r\<lparr>status := PENDING, updated_at := u\<rparr>)"
  by (auto simp: row_ok_def guard_defs write_defs split: option.splits)

lemma row_ok_new [simp]: "row_ok (new_attempt i b p a t)"
  by (simp add: row_ok_def new_attempt_def)

section \<open>Races\<close>

interpretation claim_race: conditional_update "\<lambda>(c, _, _). claim_guard c"
    "\<lambda>(c, token, lease). claim_write c token lease"
  by unfold_locales (auto simp: claim_guard_def)

interpretation success_race: conditional_update "\<lambda>(c, token, _). held_by token"
    "\<lambda>(c, token, result). success_write c result"
  by unfold_locales (auto simp: held_by_def)

interpretation failure_race: conditional_update "\<lambda>(c, token, _). held_by token"
    "\<lambda>(c, token, delay). failure_write c delay"
  by unfold_locales (auto simp: held_by_def)

interpretation lease_race: conditional_update "\<lambda>(c, _). lease_expired c" "\<lambda>(c, delay). failure_write c delay"
  by unfold_locales (auto simp: lease_expired_def)

interpretation give_up_race: conditional_update past_deadline "\<lambda>c. give_up_write c BLOCK_AGE"
  by unfold_locales (auto simp: past_deadline_def still_runnable_def)

interpretation requeue_race: conditional_update "\<lambda>_. reopen_guard" "\<lambda>(c, queue). requeue_write c queue"
  by unfold_locales (auto simp: reopen_guard_def)

end
