(* ===== verification/Django_Dal.thy ===== *)
theory Django_Dal
  imports Attempt_Transitions
begin

text \<open>
  The queries and transitions of \<open>_internal/dal/django_dal.py\<close>, which carry the attempts of
  \<open>@block_task\<close> tasks (the delays it computes are in \<^theory_text>\<open>Django_Settings\<close>). A transition here
  is a loaded attempt written back with \<^const>\<open>save\<close>, so it returns the attempt it wrote.
\<close>

section \<open>Queries\<close>

definition executed_block_numbers :: "string \<Rightarrow> string \<Rightarrow> int \<Rightarrow> int \<Rightarrow> db \<Rightarrow> int set" where
  "executed_block_numbers path args from_block to_block d =
     block_number ` set (filter (\<lambda>r. executable_path r = path \<and> args_json r = args \<and>
       from_block \<le> block_number r \<and> block_number r < to_block \<and> status r = SUCCESS) (attempts d))"

definition inflight_block_numbers :: "string \<Rightarrow> string \<Rightarrow> int \<Rightarrow> int \<Rightarrow> db \<Rightarrow> int set" where
  "inflight_block_numbers path args from_block to_block d =
     block_number ` set (filter (\<lambda>r. executable_path r = path \<and> args_json r = args \<and>
       from_block \<le> block_number r \<and> block_number r < to_block \<and>
       (status r = PENDING \<or> status r = RUNNING)) (attempts d))"

definition stuck_task_filter :: "settings \<Rightarrow> instant \<Rightarrow> task_attempt \<Rightarrow> bool" where
  "stuck_task_filter s stale_before r \<longleftrightarrow>
     ((status r = PENDING \<or> status r = RUNNING) \<and> updated_at r < stale_before \<and>
      (next_retry_at r = None \<or> col_lt (next_retry_at r) stale_before) \<or>
      status r = FAILED \<and> next_retry_at r \<noteq> None \<and> col_lt (next_retry_at r) stale_before) \<and>
     int (attempt_count r) < get_max_attempt_limit s"

definition get_stuck_task_attempt_ids ::
  "settings \<Rightarrow> instant \<Rightarrow> int \<Rightarrow> string list \<Rightarrow> db \<Rightarrow> nat list" where
  "get_stuck_task_attempt_ids s stale_before limit exclude_paths d =
     map attempt_id (ordered_limit (\<lambda>r. (updated_at r, attempt_id r)) limit
       (filter (\<lambda>r. stuck_task_filter s stale_before r \<and> executable_path r \<notin> set exclude_paths)
         (attempts d)))"

definition is_stuck :: "settings \<Rightarrow> task_attempt \<Rightarrow> instant \<Rightarrow> bool" where
  "is_stuck s r stale_before =
     (if int (attempt_count r) \<ge> get_max_attempt_limit s then False
      else if status r = PENDING \<or> status r = RUNNING then
        updated_at r < stale_before \<and> (case next_retry_at r of None \<Rightarrow> True | Some t \<Rightarrow> t < stale_before)
      else if status r = FAILED then
        (case next_retry_at r of None \<Rightarrow> False | Some t \<Rightarrow> t < stale_before)
      else False)"

text \<open>The condition of \<open>get_recent_phantom_tasks\<close>.\<close>

definition recent_phantom :: "clocks \<Rightarrow> task_attempt \<Rightarrow> bool" where
  "recent_phantom c r \<longleftrightarrow> status r = SUCCESS \<and> last_attempted_at r = None \<and> celery_task_id r = None \<and>
     py_now c - 3600 \<le> created_at r"

definition max_of :: "int list \<Rightarrow> int option" where
  "max_of xs = (if xs = [] then None else Some (Max (set xs)))"

definition min_of :: "int list \<Rightarrow> int option" where
  "min_of xs = (if xs = [] then None else Some (Min (set xs)))"

definition get_the_latest_executed_block_number :: "string list option \<Rightarrow> db \<Rightarrow> int option" where
  "get_the_latest_executed_block_number paths d =
     max_of (map block_number (filter (\<lambda>r. case paths of None \<Rightarrow> True
       | Some ps \<Rightarrow> executable_path r \<in> set ps) (attempts d)))"

definition get_block_range :: "db \<Rightarrow> int option \<times> int option" where
  "get_block_range d = (min_of (map block_number (attempts d)), max_of (map block_number (attempts d)))"

definition get_successful_block_numbers :: "int \<Rightarrow> int \<Rightarrow> db \<Rightarrow> int set" where
  "get_successful_block_numbers from_block to_block d =
     block_number ` set (filter (\<lambda>r. from_block \<le> block_number r \<and> block_number r \<le> to_block \<and>
       status r = SUCCESS) (attempts d))"

text \<open>\<open>is_lock_not_available\<close>, on the \<open>sqlstate\<close> and \<open>pgcode\<close> of the cause; an empty code is falsy.\<close>

definition is_lock_not_available :: "string option \<Rightarrow> string option \<Rightarrow> bool" where
  "is_lock_not_available sqlstate pgcode =
     ((case sqlstate of None \<Rightarrow> pgcode | Some code \<Rightarrow> if code = [] then pgcode else Some code)
      = Some ''55P03'')"

section \<open>Transitions\<close>

definition reset_to_pending :: "clocks \<Rightarrow> task_attempt \<Rightarrow> db \<Rightarrow> task_attempt \<times> db" where
  "reset_to_pending c task d =
     (let task' = task\<lparr>celery_task_id := None, status := PENDING, updated_at := py_now c\<rparr>
      in (task', save (py_now c) task' d))"

definition revert_to_failed :: "clocks \<Rightarrow> task_attempt \<Rightarrow> db \<Rightarrow> task_attempt \<times> db" where
  "revert_to_failed c task d =
     (let task' = task\<lparr>status := FAILED, updated_at := py_now c\<rparr> in (task', save (py_now c) task' d))"

definition task_can_retry :: "settings \<Rightarrow> task_attempt \<Rightarrow> bool" where
  "task_can_retry s r \<longleftrightarrow> status r \<noteq> SUCCESS \<and> status r \<noteq> RUNNING \<and> int (attempt_count r) < get_max_attempt_limit s"

definition task_mark_as_started :: "clocks \<Rightarrow> task_attempt \<Rightarrow> string \<Rightarrow> db \<Rightarrow> task_attempt \<times> db" where
  "task_mark_as_started c task token d =
     (let task' = task\<lparr>celery_task_id := Some token, status := RUNNING,
        last_attempted_at := Some (py_now c), updated_at := py_now c\<rparr>
      in (task', save (py_now c) task' d))"

definition task_mark_as_success :: "clocks \<Rightarrow> task_attempt \<Rightarrow> json option \<Rightarrow> db \<Rightarrow> task_attempt \<times> db" where
  "task_mark_as_success c task result_data d =
     (let task' = task\<lparr>status := SUCCESS, execution_result := result_data,
        last_attempted_at := Some (py_now c), next_retry_at := None, updated_at := py_now c\<rparr>
      in (task', save (py_now c) task' d))"

text \<open>Computing the delay may raise; nothing is saved then.\<close>

definition task_mark_as_failed :: "clocks \<Rightarrow> settings \<Rightarrow> task_attempt \<Rightarrow> db \<Rightarrow> (task_attempt \<times> db) res" where
  "task_mark_as_failed c s task d =
     (let failed = task\<lparr>status := FAILED, last_attempted_at := Some (py_now c),
            attempt_count := attempt_count task + 1, updated_at := py_now c\<rparr>
      in if task_can_retry s failed then
           (case get_retry_delay_seconds s (attempt_count failed) of
              Inl e \<Rightarrow> Inl e
            | Inr delay \<Rightarrow>
                (let task' = failed\<lparr>next_retry_at := Some (py_now c + delay)\<rparr>
                 in Inr (task', save (py_now c) task' d)))
         else (let task' = failed\<lparr>next_retry_at := None\<rparr> in Inr (task', save (py_now c) task' d)))"

text \<open>\<open>save(update_fields=...)\<close> writes only the named columns.\<close>

definition task_record_dispatch :: "clocks \<Rightarrow> task_attempt \<Rightarrow> string option \<Rightarrow> db \<Rightarrow> task_attempt \<times> db" where
  "task_record_dispatch c task queue d =
     (task\<lparr>celery_queue_override := queue, updated_at := py_now c\<rparr>,
      snd (update_by_id (attempt_id task) (\<lambda>_. True)
        (\<lambda>r. r\<lparr>celery_queue_override := queue, updated_at := py_now c\<rparr>) d))"

definition task_schedule_to_retry :: "clocks \<Rightarrow> task_attempt \<Rightarrow> string option \<Rightarrow> db \<Rightarrow> task_attempt \<times> db" where
  "task_schedule_to_retry c task queue d =
     (let task' = task\<lparr>status := PENDING, celery_queue_override := queue, updated_at := py_now c\<rparr>
      in (task', save (py_now c) task' d))"

text \<open>
  \<open>task_create_or_get_pending\<close> reads the attempt without a lock, decides on what it read, and saves all of it.
  What others do to the table between the read (at the clocks \<open>c\<close>) and the save (at the clocks \<open>c'\<close>) is the
  parameter \<open>between\<close>: the save overwrites it.
\<close>

definition reopens :: "clocks \<Rightarrow> settings \<Rightarrow> task_attempt \<Rightarrow> bool \<Rightarrow> bool" where
  "reopens c s task created \<longleftrightarrow> \<not> (created \<or> status task = SUCCESS \<or> status task = RUNNING) \<and>
     status task = FAILED \<and> task_can_retry s task \<and>
     (next_retry_at task = None \<or> col_le (next_retry_at task) (py_now c))"

definition reopen_loaded :: "clocks \<Rightarrow> task_attempt \<Rightarrow> db \<Rightarrow> task_attempt \<times> db" where
  "reopen_loaded c task d =
     (let task' = task\<lparr>status := PENDING, updated_at := py_now c\<rparr> in (task', save (py_now c) task' d))"

definition task_create_or_get_pending_amid ::
  "(db \<Rightarrow> db) \<Rightarrow> clocks \<Rightarrow> clocks \<Rightarrow> settings \<Rightarrow> int \<Rightarrow> string \<Rightarrow> jdict option \<Rightarrow> db \<Rightarrow> (task_attempt \<times> bool) \<times> db" where
  "task_create_or_get_pending_amid between c c' s block path args d =
     (case get_or_create block path (serialize_args (case args of None \<Rightarrow> [] | Some a \<Rightarrow> a)) (py_now c) d of
        ((task, created), d') \<Rightarrow>
          if reopens c s task created then
            (case reopen_loaded c' task (between d') of (task', d'') \<Rightarrow> ((task', created), d''))
          else ((task, created), d'))"

text \<open>The same with nobody in between.\<close>

definition task_create_or_get_pending ::
  "clocks \<Rightarrow> settings \<Rightarrow> int \<Rightarrow> string \<Rightarrow> jdict option \<Rightarrow> db \<Rightarrow> (task_attempt \<times> bool) \<times> db" where
  "task_create_or_get_pending c s = task_create_or_get_pending_amid (\<lambda>d. d) c c s"

section \<open>Facts\<close>

lemma task_create_or_get_pending_alone:
  "task_create_or_get_pending c s block path args d =
     (case get_or_create block path (serialize_args (case args of None \<Rightarrow> [] | Some a \<Rightarrow> a)) (py_now c) d of
        ((task, created), d') \<Rightarrow>
          if reopens c s task created then
            ((task\<lparr>status := PENDING, updated_at := py_now c\<rparr>, created),
             save (py_now c) (task\<lparr>status := PENDING, updated_at := py_now c\<rparr>) d')
          else ((task, created), d'))"
  by (simp add: task_create_or_get_pending_def task_create_or_get_pending_amid_def reopen_loaded_def Let_def split: prod.split)

text \<open>Saving a loaded attempt is an update of its row.\<close>

lemma save_as_update:
  assumes "db_ok d" "row (attempt_id r) d = Some r0" "f r0 = r\<lparr>updated_at := now\<rparr>"
  shows "save now r d = snd (update_by_id (attempt_id r) (\<lambda>_. True) f d)"
proof -
  from assms(1,2) have mem: "r0 \<in> set (attempts d)" "attempt_id r0 = attempt_id r"
    by (auto dest: row_mem row_id)
  have "x = r0" if "x \<in> set (attempts d)" "attempt_id x = attempt_id r" for x
    using that mem assms(1) distinct_map_inj_eq [of attempt_id "attempts d" x r0] by (simp add: db_ok_def)
  then have "map (\<lambda>x. if attempt_id x = attempt_id r then r\<lparr>updated_at := now\<rparr> else x) (attempts d) =
      map (\<lambda>x. if attempt_id x = attempt_id r then f x else x) (attempts d)"
    using assms(3) by (intro map_cong) auto
  then show ?thesis using mem by (auto simp: save_def update_by_id_def update_rows_def)
qed

definition reset_write :: "clocks \<Rightarrow> task_attempt \<Rightarrow> task_attempt" where
  "reset_write c r = r\<lparr>celery_task_id := None, status := PENDING, updated_at := py_now c\<rparr>"

lemma reset_write_sel [simp]:
  "keeps_key (reset_write c)" "status (reset_write c r) = PENDING"
  "attempt_count (reset_write c r) = attempt_count r" "give_up_reason (reset_write c r) = give_up_reason r"
  by (simp_all add: reset_write_def keeps_key_def attempt_key_def)

lemma reset_to_pending_as_update:
  assumes "db_ok d" "row (attempt_id r) d = Some r"
  shows "reset_to_pending c r d =
    (reset_write c r, snd (update_by_id (attempt_id r) (\<lambda>_. True) (reset_write c) d))"
  using save_as_update [OF assms(1), of "reset_write c r" r "reset_write c" "py_now c"] assms(2)
  by (simp add: reset_to_pending_def reset_write_def)

lemma is_stuck_queue_rule:
  assumes "is_stuck s r stale_before" "lease_expires_at r = None" "dispatch_queue r = None"
  shows "queue_is_stuck s r stale_before ttl_queues"
  using assms by (auto simp: is_stuck_def queue_is_stuck_def split: if_splits option.splits)

lemma max_of_Some: "max_of xs = Some m \<longleftrightarrow> m \<in> set xs \<and> (\<forall>x \<in> set xs. x \<le> m)"
  by (auto simp: max_of_def intro: Max_eqI)

lemma max_of_None [simp]: "max_of xs = None \<longleftrightarrow> xs = []"
  by (simp add: max_of_def)

text \<open>
  For \<open>@block_task\<close> attempts too, the stuck-task query and the re-check under the row lock agree
  on every row.
\<close>

lemma is_stuck_iff_filter: "is_stuck s r stale_before \<longleftrightarrow> stuck_task_filter s stale_before r"
  by (cases "status r")
    (auto simp: is_stuck_def stuck_task_filter_def col_iff not_le split: option.splits)

end
