(* ===== verification/Attempt_Lifecycle.thy ===== *)
theory Attempt_Lifecycle
  imports Django_Dal
begin

text \<open>
  The life of the attempts of \<open>BlockDumper\<close> tasks as a step relation: whatever processes run (the
  scheduler, backfills, workers, sweeps, the give-up command), the table changes by one of these
  transitions at a time, each with its own clock readings. The theories of the handlers show that
  each handler takes only such steps; this theory shows what every sequence of steps keeps.

  Parameters of the relation: the settings; \<open>may_retry\<close>, which rows the retry rules give another
  try; \<open>sweeping\<close>, whether a stuck-task timeout is set (claims then have a lease, and only then are
  stuck attempts swept); \<open>tokens\<close>, the claim tokens in use.
\<close>

section \<open>Steps\<close>

inductive attempt_step ::
  "settings \<Rightarrow> (task_attempt \<Rightarrow> bool) \<Rightarrow> bool \<Rightarrow> string set \<Rightarrow> db \<Rightarrow> db \<Rightarrow> bool"
  for s may_retry sweeping tokens where
  create: "attempt_step s may_retry sweeping tokens d (snd (create_or_reopen c s block path args d))"
| reopen: "attempt_step s may_retry sweeping tokens d (snd (reopen_attempt u i d))"
| dispatch: "attempt_step s may_retry sweeping tokens d (snd (record_dispatch c task q (Some dq) d))"
| message: "attempt_step s may_retry sweeping tokens d (snd (claim_expired_message c i windows d))"
| claimed: "token \<in> tokens \<Longrightarrow> (sweeping \<Longrightarrow> lease \<noteq> None) \<Longrightarrow>
    attempt_step s may_retry sweeping tokens d (snd (claim c i token lease d))"
| success: "attempt_step s may_retry sweeping tokens d (snd (finish_success c i token v d))"
| failure: "(\<And>r. row i d = Some r \<Longrightarrow> held_by token r \<Longrightarrow> delay \<noteq> None \<Longrightarrow> may_retry r) \<Longrightarrow>
    attempt_step s may_retry sweeping tokens d (snd (finish_failure c i token delay d))"
| lease: "(\<And>r. row i d = Some r \<Longrightarrow> lease_expired c r \<Longrightarrow> delay \<noteq> None \<Longrightarrow> may_retry r) \<Longrightarrow>
    attempt_step s may_retry sweeping tokens d (snd (fail_expired_lease c i delay d))"
| deadline: "attempt_step s may_retry sweeping tokens d (set_give_up_deadline c i seconds d)"
| give_up: "attempt_step s may_retry sweeping tokens d (snd (give_up_if_past_deadline c i d))"
| by_hand: "attempt_step s may_retry sweeping tokens d (snd (give_up_by_hand c selected d))"
| requeue: "attempt_step s may_retry sweeping tokens d (snd (requeue_for_retry c i q d))"
| reset: "row i d = Some r \<Longrightarrow> queue_is_stuck s r stale_before ttl_queues \<Longrightarrow> sweeping \<Longrightarrow>
    attempt_step s may_retry sweeping tokens d (snd (reset_to_pending c r d))"

abbreviation attempt_steps ::
  "settings \<Rightarrow> (task_attempt \<Rightarrow> bool) \<Rightarrow> bool \<Rightarrow> string set \<Rightarrow> db \<Rightarrow> db \<Rightarrow> bool" where
  "attempt_steps s may_retry sweeping tokens \<equiv> (attempt_step s may_retry sweeping tokens)\<^sup>*\<^sup>*"

section \<open>What one step may do to one row\<close>

text \<open>
  The same step, seen by the row it writes: its guard, and the row it leaves. Every proof about the
  steps goes through this relation.
\<close>

inductive row_step ::
  "settings \<Rightarrow> (task_attempt \<Rightarrow> bool) \<Rightarrow> bool \<Rightarrow> string set \<Rightarrow> task_attempt \<Rightarrow> task_attempt \<Rightarrow> bool"
  for s may_retry sweeping tokens where
  same: "row_step s may_retry sweeping tokens r r"
| reopened: "reopen_guard r \<Longrightarrow>
    row_step s may_retry sweeping tokens r (r\<lparr>status := PENDING, updated_at := u\<rparr>)"
| dispatched: "row_step s may_retry sweeping tokens r (dispatch_write c q (Some dq) r)"
| message: "expired_message c windows r \<Longrightarrow> row_step s may_retry sweeping tokens r (expired_message_write c r)"
| claimed: "claim_guard c r \<Longrightarrow> token \<in> tokens \<Longrightarrow> (sweeping \<Longrightarrow> lease \<noteq> None) \<Longrightarrow>
    row_step s may_retry sweeping tokens r (claim_write c token lease r)"
| success: "held_by token r \<Longrightarrow> row_step s may_retry sweeping tokens r (success_write c v r)"
| failed: "status r = RUNNING \<Longrightarrow> (delay \<noteq> None \<Longrightarrow> may_retry r) \<Longrightarrow>
    row_step s may_retry sweeping tokens r (failure_write c delay r)"
| deadline: "row_step s may_retry sweeping tokens r (deadline_write c seconds r)"
| given_up: "still_runnable r \<Longrightarrow> row_step s may_retry sweeping tokens r (give_up_write c reason r)"
| requeued: "reopen_guard r \<Longrightarrow> row_step s may_retry sweeping tokens r (requeue_write c q r)"
| reset: "queue_is_stuck s r stale_before ttl_queues \<Longrightarrow> sweeping \<Longrightarrow>
    row_step s may_retry sweeping tokens r (reset_write c r)"

lemma create_or_reopen_cases:
  assumes "db_ok d"
  shows "find_key block path (serialize_args args) d = None \<and>
      snd (create_or_reopen c s block path args d) =
        snd (insert_attempt block path (serialize_args args) (py_now c) d) \<or>
    snd (create_or_reopen c s block path args d) = d \<or>
    (\<exists>i. snd (create_or_reopen c s block path args d) =
      snd (update_by_id i reopen_guard (\<lambda>r. r\<lparr>status := PENDING, updated_at := py_now c\<rparr>) d))"
  by (auto simp: create_or_reopen_def reopen_attempt_def get_or_create_def Let_def case_prod_beta split: option.splits)

lemma row_step_update:
  assumes "keeps_key f"
    and "\<And>r. row i d = Some r \<Longrightarrow> p r \<Longrightarrow> row_step s R sw T r (f r)"
    and "row j d = Some r"
  shows "\<exists>r'. row j (snd (update_by_id i p f d)) = Some r' \<and> row_step s R sw T r r'"
  using assms by (auto simp: row_update_by_id intro: row_step.same)

lemma attempt_step_row:
  assumes "attempt_step s R sw T d d'" "db_ok d" "row j d = Some r"
  shows "\<exists>r'. row j d' = Some r' \<and> row_step s R sw T r r'"
  using assms(1)
proof cases
  case (create c block path args)
  with create_or_reopen_cases [OF assms(2), of block path args c s] show ?thesis
  proof (elim disjE conjE exE)
    assume "d' = snd (create_or_reopen c s block path args d)"
      and "snd (create_or_reopen c s block path args d) =
        snd (insert_attempt block path (serialize_args args) (py_now c) d)"
    moreover have "j \<noteq> next_id d" using assms(2) row_mem [OF assms(3)] row_id [OF assms(3)] by (auto simp: db_ok_def)
    ultimately show ?thesis using assms row_insert [OF assms(2)] by (auto intro: row_step.same)
  next
    fix i assume "d' = snd (create_or_reopen c s block path args d)"
      and "snd (create_or_reopen c s block path args d) =
        snd (update_by_id i reopen_guard (\<lambda>r. r\<lparr>status := PENDING, updated_at := py_now c\<rparr>) d)"
    then show ?thesis using assms(3) by (simp only:) (rule row_step_update; simp add: row_step.reopened)
  qed (use assms in \<open>auto intro: row_step.same\<close>)
next
  case (reopen u i)
  show ?thesis unfolding reopen reopen_attempt_def
    by (rule row_step_update) (auto intro: row_step.reopened assms(3))
next
  case (dispatch c task q dq)
  show ?thesis unfolding dispatch record_dispatch_def snd_conv
    by (rule row_step_update) (auto intro: row_step.dispatched assms(3))
next
  case (message c i windows)
  show ?thesis unfolding message claim_expired_message_def
    by (rule row_step_update) (auto intro: row_step.message assms(3))
next
  case (claimed token lease c i)
  show ?thesis unfolding claimed claim_def
    by (rule row_step_update) (use claimed in \<open>auto intro: row_step.claimed assms(3)\<close>)
next
  case (success c i token v)
  show ?thesis unfolding success finish_success_def
    by (rule row_step_update) (auto intro: row_step.success assms(3))
next
  case (failure i token delay c)
  have "row_step s R sw T r' (failure_write c delay r')" if "row i d = Some r'" "held_by token r'" for r'
    using failure(2) [OF that] that(2) by (intro row_step.failed) (auto simp: held_by_def)
  then show ?thesis unfolding failure(1) finish_failure_def
    by (intro row_step_update assms(3)) simp_all
next
  case (lease i c delay)
  have "row_step s R sw T r' (failure_write c delay r')" if "row i d = Some r'" "lease_expired c r'" for r'
    using lease(2) [OF that] that(2) by (intro row_step.failed) (auto simp: lease_expired_def)
  then show ?thesis unfolding lease(1) fail_expired_lease_def
    by (intro row_step_update assms(3)) simp_all
next
  case (deadline c i seconds)
  show ?thesis unfolding deadline set_give_up_deadline_def
    by (rule row_step_update) (auto intro: row_step.deadline assms(3))
next
  case (give_up c i)
  show ?thesis unfolding give_up give_up_if_past_deadline_def
    by (rule row_step_update) (auto intro: row_step.given_up assms(3) simp: past_deadline_def)
next
  case (by_hand c selected)
  then show ?thesis using assms(3)
    by (auto simp: give_up_by_hand_def row_update_rows could_still_run_def
        intro: row_step.same row_step.given_up)
next
  case (requeue c i q)
  show ?thesis unfolding requeue requeue_for_retry_def
    by (rule row_step_update) (auto intro: row_step.requeued assms(3))
next
  case (reset i r' stale_before ttl_queues c)
  have i: "attempt_id r' = i" using reset(2) by (rule row_id)
  have "snd (reset_to_pending c r' d) = snd (update_by_id i (\<lambda>_. True) (reset_write c) d)"
    using reset_to_pending_as_update [OF assms(2), of r' c] reset(2) i by simp
  moreover have "\<exists>r''. row j (snd (update_by_id i (\<lambda>_. True) (reset_write c) d)) = Some r'' \<and>
      row_step s R sw T r r''"
    by (rule row_step_update) (use reset assms(3) in \<open>auto intro: row_step.reset\<close>)
  ultimately show ?thesis using reset(1) by simp
qed

lemma attempt_step_db_ok:
  assumes "attempt_step s R sw T d d'" "db_ok d"
  shows "db_ok d'"
  using assms(1)
proof cases
  case (create c block path args)
  then show ?thesis
    using create_or_reopen_cases [OF assms(2), of block path args c s] assms(2)
    by (auto intro: db_ok_insert)
next
  case (reset i r stale_before ttl_queues c)
  then show ?thesis
    using reset_to_pending_as_update [OF assms(2), of r c] assms(2) row_id [OF reset(2)] by simp
qed (use assms(2) in \<open>simp_all add: transition_defs give_up_by_hand_def\<close>)

text \<open>The rows of the table after a step: old rows, stepped, and new ones.\<close>

lemma attempt_step_new_rows:
  assumes "attempt_step s R sw T d d'" "db_ok d" "row j d' = Some r'" "row j d = None"
  shows "\<exists>b p a t. r' = new_attempt j b p a t"
  using assms(1)
proof cases
  case (create c block path args)
  then show ?thesis
    using create_or_reopen_cases [OF assms(2), of block path args c s] assms
    by (auto simp: row_insert row_update_by_id split: if_splits) blast
next
  case (reset i r stale_before ttl_queues c)
  then show ?thesis
    using reset_to_pending_as_update [OF assms(2), of r c] assms row_id [OF reset(2)]
    by (simp add: row_update_by_id)
qed (use assms in \<open>simp_all add: transition_defs give_up_by_hand_def row_update_by_id row_update_rows\<close>)

lemma attempt_steps_db_ok: "attempt_steps s R sw T d d' \<Longrightarrow> db_ok d \<Longrightarrow> db_ok d'"
  by (induction rule: rtranclp_induct) (auto intro: attempt_step_db_ok)

lemma rows_ok_empty [simp]: "rows_ok P empty_db"
  by (simp add: rows_ok_def empty_db_def)

section \<open>Invariants\<close>

text \<open>A property of rows that new rows have and steps keep holds of every row, always.\<close>

locale row_invariant =
  fixes s :: settings and may_retry :: "task_attempt \<Rightarrow> bool" and sweeping :: bool
    and tokens :: "string set" and I :: "task_attempt \<Rightarrow> bool"
  assumes new_row: "I (new_attempt i b p a t)"
    and row_kept: "row_step s may_retry sweeping tokens r r' \<Longrightarrow> I r \<Longrightarrow> I r'"
begin

lemma step_keeps:
  assumes "attempt_step s may_retry sweeping tokens d d'" "db_ok d" "rows_ok I d"
  shows "rows_ok I d'"
  unfolding rows_ok_def
proof
  fix r' assume r': "r' \<in> set (attempts d')"
  have "db_ok d'" using attempt_step_db_ok [OF assms(1,2)] .
  then have row': "row (attempt_id r') d' = Some r'" using r' row_eq_Some by blast
  show "I r'"
  proof (cases "row (attempt_id r') d")
    case None
    then show ?thesis using attempt_step_new_rows [OF assms(1,2) row'] new_row by metis
  next
    case (Some r)
    then show ?thesis
      using attempt_step_row [OF assms(1,2) Some] row' row_kept rows_okD [OF assms(3) Some] by auto
  qed
qed

lemma steps_keep:
  assumes "attempt_steps s may_retry sweeping tokens d d'" "db_ok d" "rows_ok I d"
  shows "db_ok d' \<and> rows_ok I d'"
  using assms
proof (induction rule: rtranclp_induct)
  case (step y z)
  then show ?case using attempt_step_db_ok [OF step(2)] step_keeps [OF step(2)] by blast
qed simp

end

lemma stuck_not_given_up:
  "row_ok r \<Longrightarrow> queue_is_stuck s r t qs \<Longrightarrow>
   give_up_reason r = None \<and> lease_expires_at r = None \<and> status r \<noteq> SUCCESS"
  by (cases "status r") (auto simp: row_ok_def queue_is_stuck_def split: if_splits option.splits)

lemma row_step_row_ok: "row_step s R sw T r r' \<Longrightarrow> row_ok r \<Longrightarrow> row_ok r'"
proof (induction rule: row_step.induct)
  case (reset r stale_before ttl_queues c)
  then show ?case using stuck_not_given_up [OF reset(3,1)] by (simp add: row_ok_def reset_write_def)
qed (auto intro: row_ok_writes)

interpretation table: row_invariant s may_retry sweeping tokens row_ok
  by unfold_locales (auto intro: row_step_row_ok)

section \<open>Outcomes are final\<close>

text \<open>What every later state of a row keeps of an earlier one.\<close>

definition advances :: "task_attempt \<Rightarrow> task_attempt \<Rightarrow> bool" where
  "advances r r' \<longleftrightarrow>
     attempt_id r' = attempt_id r \<and> attempt_key r' = attempt_key r \<and> created_at r' = created_at r \<and>
     attempt_count r \<le> attempt_count r' \<and>
     (give_up_at r \<noteq> None \<longrightarrow> give_up_at r' = give_up_at r) \<and>
     (status r = SUCCESS \<longrightarrow> status r' = SUCCESS \<and> execution_result r' = execution_result r \<and>
        attempt_count r' = attempt_count r) \<and>
     (give_up_reason r \<noteq> None \<longrightarrow> status r' = FAILED \<and> give_up_reason r' = give_up_reason r \<and>
        next_retry_at r' = None \<and> attempt_count r' = attempt_count r)"

lemma advances_refl: "row_ok r \<Longrightarrow> advances r r"
  by (auto simp: advances_def row_ok_def)

lemma advances_trans: "advances r r' \<Longrightarrow> advances r' r'' \<Longrightarrow> advances r r''"
  unfolding advances_def by (auto intro: le_trans)

lemma row_step_created: "row_step s R sw T r r' \<Longrightarrow> created_at r' = created_at r"
  by (induction rule: row_step.induct) (auto simp: write_defs reset_write_def split: option.splits)

lemma row_step_key:
  "row_step s R sw T r r' \<Longrightarrow> attempt_id r' = attempt_id r \<and> attempt_key r' = attempt_key r"
  by (induction rule: row_step.induct)
    (auto simp: write_defs reset_write_def attempt_key_def split: option.splits)

lemma row_step_deadline:
  "row_step s R sw T r r' \<Longrightarrow> give_up_at r \<noteq> None \<Longrightarrow> give_up_at r' = give_up_at r"
  by (induction rule: row_step.induct) (auto simp: write_defs reset_write_def split: option.splits)

lemma row_step_count: "row_step s R sw T r r' \<Longrightarrow> attempt_count r \<le> attempt_count r'"
  by (induction rule: row_step.induct) auto

lemma row_step_success:
  "row_step s R sw T r r' \<Longrightarrow> row_ok r \<Longrightarrow> status r = SUCCESS \<Longrightarrow>
   status r' = SUCCESS \<and> execution_result r' = execution_result r \<and> attempt_count r' = attempt_count r"
  by (induction rule: row_step.induct)
    (auto simp: guard_defs queue_is_stuck_def dispatch_write_def deadline_write_def split: if_splits)

lemma row_step_given_up:
  "row_step s R sw T r r' \<Longrightarrow> row_ok r \<Longrightarrow> give_up_reason r \<noteq> None \<Longrightarrow>
   give_up_reason r' = give_up_reason r \<and> attempt_count r' = attempt_count r"
proof (induction rule: row_step.induct)
  case (failed r delay c)
  then show ?case by (auto simp: row_ok_def)
next
  case (reset r stale_before ttl_queues c)
  then show ?case using stuck_not_given_up by simp
qed (auto simp: guard_defs row_ok_def)

lemma row_step_advances: "row_step s R sw T r r' \<Longrightarrow> row_ok r \<Longrightarrow> advances r r'"
  using row_step_key row_step_created row_step_count row_step_deadline row_step_success
    row_step_given_up row_step_row_ok
  unfolding advances_def by (metis row_ok_def)

lemma attempt_steps_advance:
  assumes "attempt_steps s R sw T d d'" "table_ok d" "row i d = Some r"
  shows "\<exists>r'. row i d' = Some r' \<and> advances r r' \<and> row_ok r'"
  using assms(1)
proof (induction rule: rtranclp_induct)
  case base
  have "row_ok r" using assms(2,3) rows_okD by (auto simp: table_ok_def)
  then show ?case using assms(3) advances_refl by blast
next
  case (step y z)
  then obtain ry where ry: "row i y = Some ry" "advances r ry" "row_ok ry" by blast
  have "db_ok y" using table.steps_keep step.hyps(1) assms(2) by (auto simp: table_ok_def)
  then obtain rz where "row i z = Some rz" "row_step s R sw T ry rz"
    using attempt_step_row step.hyps(2) ry(1) by blast
  then show ?case using ry row_step_advances row_step_row_ok advances_trans by metis
qed

section \<open>Fencing\<close>

lemma attempt_steps_row:
  "attempt_steps s R sw T d d' \<Longrightarrow> db_ok d \<Longrightarrow> row i d = Some r \<Longrightarrow>
   \<exists>r'. row i d' = Some r' \<and> attempt_key r' = attempt_key r"
proof (induction rule: rtranclp_induct)
  case (step y z)
  then obtain ry where ry: "row i y = Some ry" "attempt_key ry = attempt_key r" by blast
  have "db_ok y" using step attempt_steps_db_ok by blast
  then obtain rz where "row i z = Some rz" "row_step s R sw T ry rz"
    using attempt_step_row step.hyps(2) ry(1) by blast
  then show ?case using row_step_key ry(2) by metis
qed simp

lemma row_step_not_held:
  "row_step s R sw T r r' \<Longrightarrow> token \<notin> T \<Longrightarrow> \<not> held_by token r \<Longrightarrow> \<not> held_by token r'"
  by (induction rule: row_step.induct)
    (auto simp: held_by_def write_defs reset_write_def split: option.splits)

text \<open>A row that was sent to a queue stays sent to one.\<close>

lemma row_step_dispatch_queue: "row_step s R sw T r r' \<Longrightarrow> dispatch_queue r \<noteq> None \<Longrightarrow> dispatch_queue r' \<noteq> None"
  by (induction rule: row_step.induct) (auto simp: write_defs reset_write_def split: option.splits)

lemma row_step_held_count:
  "row_step s R sw T r r' \<Longrightarrow> token \<notin> T \<Longrightarrow> held_by token r' \<Longrightarrow>
   held_by token r \<and> attempt_count r' = attempt_count r"
  by (induction rule: row_step.induct)
    (auto simp: held_by_def write_defs reset_write_def split: option.splits)

lemma attempt_steps_held:
  assumes "attempt_steps s R sw T d d'" "db_ok d" "token \<notin> T" "row i d = Some r"
    "row i d' = Some r'" "held_by token r'"
  shows "held_by token r \<and> attempt_count r' = attempt_count r \<and>
    (dispatch_queue r \<noteq> None \<longrightarrow> dispatch_queue r' \<noteq> None)"
  using assms(1,5,6)
proof (induction arbitrary: r' rule: rtranclp_induct)
  case base
  then show ?case using assms(4) by simp
next
  case (step y z)
  have ok: "db_ok y" using step.hyps(1) assms(2) by (rule attempt_steps_db_ok)
  obtain ry where ry: "row i y = Some ry" using attempt_steps_row [OF step.hyps(1) assms(2,4)] by blast
  have "row_step s R sw T ry r'" using attempt_step_row [OF step.hyps(2) ok ry] step.prems(1) by simp
  then show ?case
    using step.IH [OF ry] row_step_held_count row_step_dispatch_queue assms(3) step.prems(2) by metis
qed

section \<open>How often an attempt runs\<close>

definition tries_left :: "bool \<Rightarrow> nat \<Rightarrow> task_attempt \<Rightarrow> bool" where
  "tries_left sweeping m r \<longleftrightarrow> row_ok r \<and> attempt_count r \<le> Suc m \<and>
     (still_runnable r \<longrightarrow> attempt_count r \<le> m) \<and>
     (sweeping \<longrightarrow> status r = RUNNING \<longrightarrow> lease_expires_at r \<noteq> None)"

lemma tries_left_failure:
  assumes "status r = RUNNING" "delay \<noteq> None \<Longrightarrow> attempt_count r < Suc m" "tries_left sw m r"
  shows "tries_left sw m (failure_write c delay r)"
proof -
  have "still_runnable (failure_write c delay r) \<Longrightarrow> delay \<noteq> None"
    by (cases delay) (simp_all add: still_runnable_def failure_write_def failure_fields_def)
  then show ?thesis using assms row_ok_writes(5) by (auto simp: tries_left_def)
qed

lemma row_step_tries_left:
  "row_step s (\<lambda>r. attempt_count r < Suc m) sw T r r' \<Longrightarrow> tries_left sw m r \<Longrightarrow> tries_left sw m r'"
proof (induction rule: row_step.induct)
  case (failed r delay c)
  then show ?case by (intro tries_left_failure)
next
  case (claimed c r token lease)
  then show ?case
    using row_ok_writes(3) [OF _ claimed(1)]
    by (auto simp: tries_left_def guard_defs claim_write_def row_ok_def)
next
  case (reset r stale_before ttl_queues c)
  then have ok: "row_ok r" by (simp add: tries_left_def)
  have "row_ok (reset_write c r)" using row_step_row_ok [OF row_step.reset] reset ok by blast
  moreover have "status r \<noteq> RUNNING"
    using reset stuck_not_given_up [OF ok reset(1)] by (auto simp: tries_left_def)
  ultimately show ?case
    using reset stuck_not_given_up [OF ok reset(1)]
    by (cases "status r") (auto simp: tries_left_def still_runnable_def)
next
  case (given_up r c reason)
  then show ?case using row_ok_writes(7) by (auto simp: tries_left_def still_runnable_def)
next
  case (reopened r u)
  then show ?case using row_ok_writes(9) by (auto simp: tries_left_def guard_defs)
next
  case (requeued r c q)
  then show ?case using row_ok_writes(8) by (auto simp: tries_left_def guard_defs)
next
  case (success token r c v)
  then show ?case using row_ok_writes(4) by (auto simp: tries_left_def guard_defs)
next
  case (message c windows r)
  then have "row_ok (expired_message_write c r)" using row_ok_writes(2) by (simp add: tries_left_def)
  then show ?case using message by (simp add: tries_left_def still_runnable_def expired_message_iff)
next
  case (dispatched r c q dq)
  then show ?case using row_ok_writes(1) by (auto simp: tries_left_def guard_defs dispatch_write_def)
next
  case (deadline r c seconds)
  then show ?case using row_ok_writes(6) by (auto simp: tries_left_def guard_defs deadline_write_def)
qed simp

interpretation bounded: row_invariant s "\<lambda>r. attempt_count r < Suc m" sweeping tokens "tries_left sweeping m"
proof
  show "tries_left sweeping m (new_attempt i b p a t)" for i b p a t
    using row_ok_new by (simp add: tries_left_def) (simp add: new_attempt_def)
qed (rule row_step_tries_left)

section \<open>Sweeps\<close>

lemma row_ok_unfinished_cases:
  assumes "row_ok r" "status r \<noteq> SUCCESS" "give_up_reason r = None"
  obtains (leased) t where "status r = RUNNING" "lease_expires_at r = Some t"
  | (unleased) "status r = RUNNING" "lease_expires_at r = None"
  | (waiting) "status r = PENDING" "lease_expires_at r = None"
  | (retrying) t where "status r = FAILED" "next_retry_at r = Some t"
  using assms by (cases "status r"; cases "lease_expires_at r") (auto simp: row_ok_def)

text \<open>A time after everything the row records, windows included.\<close>

definition quiet_after :: "(string, seconds) dict \<Rightarrow> task_attempt \<Rightarrow> instant" where
  "quiet_after ttl r = 1 + updated_at r + \<bar>updated_at r\<bar> + \<bar>col_time (lease_expires_at r)\<bar> +
     \<bar>col_time (dispatched_at r)\<bar> + \<bar>col_time (next_retry_at r)\<bar> + sum_list (map (\<lambda>(q, w). \<bar>w\<bar>) ttl)"

lemma quiet_after_bounds:
  assumes "quiet_after ttl r \<le> t"
  shows "updated_at r < t" "lease_expires_at r = Some e \<Longrightarrow> e < t" "next_retry_at r = Some e \<Longrightarrow> e < t"
    "(q, w) \<in> set ttl \<Longrightarrow> dispatched_at r = Some e \<Longrightarrow> e < t - w"
    "(q, w) \<in> set ttl \<Longrightarrow> next_retry_at r = Some e \<Longrightarrow> e < t - w"
proof -
  have le: "\<bar>w\<bar> \<le> sum_list (map (\<lambda>(q, w). \<bar>w\<bar>) ttl)" if "(q, w) \<in> set ttl" for q w
    using member_le_sum_list [of "\<bar>w\<bar>" "map (\<lambda>(q, w). \<bar>w\<bar>) ttl"] that
    by (force simp: image_iff)
  have nn: "0 \<le> sum_list (map (\<lambda>(q, w). \<bar>w\<bar>) ttl)" by (rule sum_list_nonneg) auto
  show "updated_at r < t" using assms nn unfolding quiet_after_def by linarith
  show "lease_expires_at r = Some e \<Longrightarrow> e < t" "next_retry_at r = Some e \<Longrightarrow> e < t"
    using assms nn unfolding quiet_after_def col_time_def by (auto split: option.splits)
  show "(q, w) \<in> set ttl \<Longrightarrow> dispatched_at r = Some e \<Longrightarrow> e < t - w"
    "(q, w) \<in> set ttl \<Longrightarrow> next_retry_at r = Some e \<Longrightarrow> e < t - w"
    using assms le [of q w] unfolding quiet_after_def col_time_def
    by (auto split: option.splits)
qed

lemma waiting_is_swept:
  assumes "status r = PENDING" "dispatch_queue r \<noteq> None \<or> int (attempt_count r) < get_max_attempt_limit s"
    and "quiet_after ttl r \<le> py_now c" "quiet_after ttl r \<le> db_now c" "quiet_after ttl r \<le> t"
  shows "expired_message c ttl r \<or> stuck_filter s t (map fst ttl) r"
proof (cases "dispatched_at r \<noteq> None \<and> (\<exists>q w. dispatch_queue r = Some q \<and> (q, w) \<in> set ttl)")
  case True
  then obtain q w e where q: "dispatch_queue r = Some q" "(q, w) \<in> set ttl" "dispatched_at r = Some e"
    by auto
  have "e < db_now c - w" using quiet_after_bounds(4) [OF assms(4) q(2,3)] .
  moreover have "next_retry_at r = None \<or> col_lt (next_retry_at r) (py_now c - w)"
    using quiet_after_bounds(5) [OF assms(3) q(2)] by (cases "next_retry_at r") auto
  ultimately show ?thesis using q assms(1) by (auto simp: expired_message_iff db_now_offset_def)
next
  case False
  have "next_retry_at r = None \<or> col_lt (next_retry_at r) t"
    using quiet_after_bounds(3) [OF assms(5)] by (cases "next_retry_at r") auto
  with False show ?thesis
    using assms(1,2) quiet_after_bounds(1) [OF assms(5)]
    by (auto simp: stuck_filter_def split: option.splits)
qed

section \<open>Properties\<close>

definition sample_clock :: clocks where
  "sample_clock = \<lparr>py_now = 1000, db_now = 1000\<rparr>"

text \<open>An attempt that was created and claimed for a minute by the worker of message \<open>m1\<close>.\<close>

definition sample_pending :: db where
  "sample_pending = \<lparr>attempts = [new_attempt 0 100 ''app.task'' ''{}'' 1000], next_id = 1\<rparr>"

definition sample_running :: db where
  "sample_running = snd (claim sample_clock 0 ''m1'' (Some 60) sample_pending)"

lemma sample_created: "snd (create_or_reopen sample_clock s 100 ''app.task'' [] empty_db) = sample_pending"
  by (simp add: create_or_reopen_def reopen_attempt_def get_or_create_def find_key_def empty_db_def insert_attempt_def
      sample_pending_def sample_clock_def serialize_args_def dumps_def Let_def)

lemma sample_steps: "attempt_steps s R sw {''m1''} empty_db sample_running"
proof -
  have "attempt_step s R sw {''m1''} empty_db sample_pending"
    using attempt_step.create [of s R sw "{''m1''}" empty_db sample_clock 100 "''app.task''" "[]"]
    unfolding sample_created .
  moreover have "attempt_step s R sw {''m1''} sample_pending sample_running"
    unfolding sample_running_def by (rule attempt_step.claimed) simp_all
  ultimately show ?thesis by (rule rtranclp.rtrancl_into_rtrancl [OF r_into_rtranclp])
qed

lemma sample_pending_ok: "table_ok sample_pending"
  by (simp add: table_ok_def db_ok_def rows_ok_def sample_pending_def)

lemma sample_pending_row: "row 0 sample_pending = Some (new_attempt 0 100 ''app.task'' ''{}'' 1000)"
  by (simp add: sample_pending_def row_def)

lemma sample_running_row:
  "row 0 sample_running = Some (claim_write sample_clock ''m1'' (Some 60) (new_attempt 0 100 ''app.task'' ''{}'' 1000))"
  using sample_pending_row
  by (simp add: sample_running_def claim_def row_update_by_id claim_guard_def before_give_up_def)
    (simp add: new_attempt_def)

text \<open>
  C18. Every table that the transitions of \<open>BlockDumper\<close> (submissions, claims, outcomes, sweeps, giving up) can
  produce from an empty one, in any order and number, is well formed: one row per unit of work, and in each row
  the status, the lease, the owner, the retry time and the give-up reason agree. The rows that
  \<open>@block_task\<close> writes are not covered: one that has used up its tries is FAILED with neither a reason nor a
  retry time (\<open>Block_Task_Machine\<close>). Nor are the deletions of \<open>Maintenance\<close> among the transitions.
\<close>

theorem table_always_ok:
  assumes "attempt_steps s may_retry sweeping tokens empty_db d"
  shows "table_ok d"
  using table.steps_keep [OF assms] by (simp add: table_ok_def)

theorem table_always_ok_witness: "table_ok sample_running"
  by (rule table_always_ok) (rule sample_steps)

text \<open>
  C8. Outcomes are final under the transitions of \<open>BlockDumper\<close>. However many of them follow, a row stays and
  keeps its identity, its number of tries never falls, its give-up deadline does not move, a SUCCESS keeps its
  result and is not run again, and an attempt that was given up stays given up for the same reason and is not
  run again. The deletions of \<open>cleanup_old_tasks\<close> and of the clean-up of phantoms, and the saves of a loaded
  row that \<open>@block_task\<close> makes (C11), are not among these transitions.
\<close>

theorem outcomes_are_final:
  assumes "table_ok d" and "attempt_steps s may_retry sweeping tokens d d'" and "row i d = Some r"
  shows "\<exists>r'. row i d' = Some r' \<and> attempt_key r' = attempt_key r \<and> attempt_count r \<le> attempt_count r' \<and>
    (give_up_at r \<noteq> None \<longrightarrow> give_up_at r' = give_up_at r) \<and>
    (status r = SUCCESS \<longrightarrow> status r' = SUCCESS \<and> execution_result r' = execution_result r \<and>
       attempt_count r' = attempt_count r) \<and>
    (give_up_reason r \<noteq> None \<longrightarrow> status r' = FAILED \<and> give_up_reason r' = give_up_reason r \<and>
       attempt_count r' = attempt_count r)"
  using attempt_steps_advance [OF assms(2,1,3)] unfolding advances_def by blast

theorem outcomes_are_final_witness:
  "\<exists>r'. row 0 sample_running = Some r' \<and> attempt_key r' = (100, ''app.task'', ''{}'')"
proof -
  have "attempt_steps default_settings (\<lambda>_. True) True {''m1''} sample_pending sample_running"
    unfolding sample_running_def by (rule r_into_rtranclp, rule attempt_step.claimed) simp_all
  from outcomes_are_final [OF sample_pending_ok this sample_pending_row] show ?thesis by auto
qed

text \<open>
  C2. An attempt never runs more often than its retry rules allow: when they grant a retry only below
  \<open>m\<close> tries, no row ever counts more than \<open>m\<close> tries. Leases, expired messages, stuck-task sweeps and
  races between processes do not add tries.
\<close>

theorem tries_bounded:
  assumes "attempt_steps s (\<lambda>r. attempt_count r < m) sweeping tokens empty_db d" and "0 < m"
    and "row i d = Some r"
  shows "attempt_count r \<le> m"
proof -
  from assms(2) obtain k where m: "m = Suc k" by (cases m) auto
  have "rows_ok (tries_left sweeping k) d"
    using bounded.steps_keep [of s k sweeping tokens empty_db d] assms(1)
    by (simp add: m)
  from rows_okD [OF this assms(3)] show ?thesis by (simp add: m tries_left_def)
qed

theorem tries_bounded_witness:
  "attempt_count (claim_write sample_clock ''m1'' (Some 60) (new_attempt 0 100 ''app.task'' ''{}'' 1000)) \<le> 3"
  by (rule tries_bounded [OF sample_steps [of default_settings _ True] _ sample_running_row]) simp

text \<open>
  C19. Of all processes racing to claim an attempt exactly one wins: the winner's row is RUNNING under
  its token and counted once, and every later claim of that row changes nothing.
\<close>

theorem claim_has_one_winner:
  assumes "db_ok d" and "fst (claim c i token lease d)"
  shows "\<exists>r. row i d = Some r \<and> status r = PENDING \<and> before_give_up c r \<and>
    row i (snd (claim c i token lease d)) = Some (claim_write c token lease r) \<and>
    claim c' i token' lease' (snd (claim c i token lease d)) = (False, snd (claim c i token lease d))"
proof -
  obtain r where r: "row i d = Some r" "claim_guard c r"
    using assms update_by_id_won unfolding claim_def by blast
  have "row i (snd (claim c i token lease d)) = Some (claim_write c token lease r)"
    using r by (simp add: claim_def row_update_by_id)
  moreover have "\<not> fst (claim c' i token' lease' (snd (claim c i token lease d)))"
    using claim_race.one_winner [OF assms(1), of i "(c, token, lease)" "(c', token', lease')"] assms(2)
    by (simp add: claim_def)
  moreover have "snd (claim c' i token' lease' (snd (claim c i token lease d))) = snd (claim c i token lease d)"
    using claim_race.loser_changes_nothing [OF assms(1), of i "(c, token, lease)" "(c', token', lease')"] assms(2)
    by (simp add: claim_def)
  ultimately show ?thesis using r by (auto simp: claim_guard_def prod_eq_iff)
qed

theorem claim_has_one_winner_witness:
  "claim sample_clock 0 ''m2'' None sample_running = (False, sample_running)"
proof -
  have "db_ok sample_pending" using sample_pending_ok by (simp add: table_ok_def)
  moreover have "fst (claim sample_clock 0 ''m1'' (Some 60) sample_pending)"
    by (simp add: claim_def update_by_id_def count_rows_def sample_pending_def guard_defs new_attempt_def)
  ultimately show ?thesis
    using claim_has_one_winner [of sample_pending sample_clock 0 "''m1''" "Some 60" sample_clock "''m2''" None]
    by (auto simp: sample_running_def)
qed

text \<open>
  C7. Fencing: once the sweep has taken an attempt over, the worker that held it can record neither success
  nor failure, however many further transitions happen in between, and its writes change nothing, as long
  as nobody claims with its token again. The token is the id of the message, so a message that the broker
  delivers a second time claims with the token of the first delivery: \<open>redelivery_shares_the_fence\<close> shows
  that the first worker then passes the fence of the second one's claim.
\<close>

theorem taken_over_worker_is_fenced:
  assumes "db_ok d" and "fst (fail_expired_lease c i delay d)"
    and "attempt_steps s may_retry sweeping tokens (snd (fail_expired_lease c i delay d)) d'"
    and "token \<notin> tokens"
  shows "finish_success c' i token v d' = (False, d') \<and> finish_failure c' i token delay' d' = (False, d')"
proof -
  let ?d = "snd (fail_expired_lease c i delay d)"
  obtain r where r: "row i d = Some r" "lease_expired c r"
    using assms(1,2) update_by_id_won unfolding fail_expired_lease_def by blast
  have row: "row i ?d = Some (failure_write c delay r)"
    using r by (simp add: fail_expired_lease_def row_update_by_id)
  have ok: "db_ok ?d" using assms(1) by (simp add: fail_expired_lease_def)
  have "\<not> (\<exists>r'. row i d' = Some r' \<and> held_by token r')"
    using attempt_steps_held [OF assms(3) ok assms(4) row] by (auto simp: held_by_def)
  moreover have "db_ok d'" using assms(3) ok by (rule attempt_steps_db_ok)
  ultimately show ?thesis
    by (simp add: finish_success_def finish_failure_def update_by_id_lost update_by_id_won prod_eq_iff)
qed

theorem taken_over_worker_is_fenced_witness:
  "\<exists>d'. fst (fail_expired_lease \<lparr>py_now = 1100, db_now = 1100\<rparr> 0 (Some 5) sample_running) \<and>
     finish_success sample_clock 0 ''m1'' None d' = (False, d')"
proof -
  let ?c = "\<lparr>py_now = 1100, db_now = 1100\<rparr> :: clocks"
  have ok: "db_ok sample_running"
    using sample_pending_ok by (simp add: sample_running_def claim_def table_ok_def)
  have lost: "fst (fail_expired_lease ?c 0 (Some 5) sample_running)"
    unfolding fail_expired_lease_def update_by_id_won [OF ok]
    by (simp add: sample_running_row) (simp add: lease_expired_def claim_write_def sample_clock_def db_now_offset_def)
  then show ?thesis
    using taken_over_worker_is_fenced [OF ok lost, of default_settings "\<lambda>_. True" True "{}" _ "''m1''"]
    by blast
qed

lemma redelivery_shares_the_fence:
  assumes "db_ok d" and "fst (claim c i token lease d)"
  shows "fst (finish_success c' i token v (snd (claim c i token lease d)))"
    "fst (finish_failure c' i token delay (snd (claim c i token lease d)))"
proof -
  obtain r where r: "row i d = Some r" "claim_guard c r"
    using assms update_by_id_won unfolding claim_def by blast
  have "row i (snd (claim c i token lease d)) = Some (claim_write c token lease r)"
    using r by (simp add: claim_def row_update_by_id)
  moreover have "held_by token (claim_write c token lease r)" by (simp add: held_by_def claim_write_def)
  moreover have "db_ok (snd (claim c i token lease d))" using assms(1) by (simp add: claim_def)
  ultimately show "fst (finish_success c' i token v (snd (claim c i token lease d)))"
    "fst (finish_failure c' i token delay (snd (claim c i token lease d)))"
    by (simp_all add: finish_success_def finish_failure_def update_by_id_won)
qed

text \<open>
  C9. No attempt is lost: once the clocks have passed everything a well-formed row records, an attempt that
  has neither succeeded nor been given up, and that was sent to a queue with a policy or is below
  \<open>BLOCK_DUMPER_MAX_ATTEMPTS\<close>, is selected by one of the three sweeps: as an expired lease, an expired
  message, or a stuck attempt. A row without a queue or a lease that has reached that limit is selected by none;
  the rows of \<open>@block_task\<close> tasks that have used up their tries are of this kind.
\<close>

theorem every_unfinished_attempt_is_swept:
  assumes "row_ok r" and "status r \<noteq> SUCCESS" and "give_up_reason r = None"
    and "dispatch_queue r \<noteq> None \<or> int (attempt_count r) < get_max_attempt_limit s"
    and "quiet_after ttl r \<le> py_now c" and "quiet_after ttl r \<le> db_now c"
    and "quiet_after ttl r \<le> stale_before"
  shows "lease_expired c r \<or> expired_message c ttl r \<or> stuck_filter s stale_before (map fst ttl) r"
  using assms(1-3)
proof (cases rule: row_ok_unfinished_cases)
  case (leased t)
  then show ?thesis using quiet_after_bounds(2) [OF assms(6)] by (simp add: lease_expired_def)
next
  case unleased
  have "next_retry_at r = None \<or> col_lt (next_retry_at r) stale_before"
    using quiet_after_bounds(3) [OF assms(7)] by (cases "next_retry_at r") auto
  then show ?thesis using unleased assms(4) quiet_after_bounds(1) [OF assms(7)]
    by (auto simp: stuck_filter_def)
next
  case waiting
  then show ?thesis using waiting_is_swept [OF _ assms(4-7)] by blast
next
  case (retrying t)
  then show ?thesis using quiet_after_bounds(3) [OF assms(7)] assms(4) by (auto simp: stuck_filter_def)
qed

theorem every_unfinished_attempt_is_swept_witness:
  "lease_expired \<lparr>py_now = 9000, db_now = 9000\<rparr> sample_dispatched \<or>
   expired_message \<lparr>py_now = 9000, db_now = 9000\<rparr> [(''archive'', 60)] sample_dispatched \<or>
   stuck_filter default_settings 9000 (map fst [(''archive'', 60 :: seconds)]) sample_dispatched"
  by (rule every_unfinished_attempt_is_swept)
    (simp_all add: sample_dispatched_def new_attempt_def row_ok_def quiet_after_def col_time_def)

text \<open>
  The three sweeps do not overlap, and none of them selects an attempt that succeeded or was
  given up.
\<close>

theorem sweeps_are_disjoint:
  assumes "row_ok r"
  shows "\<not> (lease_expired c r \<and> expired_message c ttl r) \<and>
    \<not> (lease_expired c r \<and> stuck_filter s stale_before (map fst ttl) r) \<and>
    \<not> (expired_message c ttl r \<and> stuck_filter s stale_before (map fst ttl) r) \<and>
    (status r = SUCCESS \<or> give_up_reason r \<noteq> None \<longrightarrow>
       \<not> lease_expired c r \<and> \<not> expired_message c ttl r \<and> \<not> stuck_filter s stale_before (map fst ttl) r)"
proof (intro conjI)
  show "\<not> (expired_message c ttl r \<and> stuck_filter s stale_before (map fst ttl) r)"
    by (force simp: expired_message_iff stuck_filter_def col_iff)
  show "status r = SUCCESS \<or> give_up_reason r \<noteq> None \<longrightarrow>
      \<not> lease_expired c r \<and> \<not> expired_message c ttl r \<and> \<not> stuck_filter s stale_before (map fst ttl) r"
    using assms by (auto simp: row_ok_def lease_expired_def expired_message_iff stuck_filter_def)
qed (auto simp: lease_expired_def expired_message_iff stuck_filter_def)

theorem sweeps_are_disjoint_witness:
  "\<not> (expired_message sample_clock [(''archive'', 60)] sample_dispatched \<and>
      stuck_filter default_settings 9000 (map fst [(''archive'', 60 :: seconds)]) sample_dispatched)"
proof -
  have "row_ok sample_dispatched" by (simp add: sample_dispatched_def row_ok_def new_attempt_def)
  from sweeps_are_disjoint [OF this] show ?thesis by blast
qed

end
