(* ===== verification/Registries.thy ===== *)
theory Registries
  imports Queue_Policy Json_Args
begin

text \<open>
  The in-memory registries: the registered tasks (\<open>_internal/dal/memory_registry.py\<close>), the
  \<open>BlockDumper\<close> instances and the queues they use (\<open>_internal/dal/dumper_registry.py\<close>), and
  which tasks use a queue (\<open>_internal/services/queue_inventory.py\<close>).
\<close>

section \<open>Registered tasks\<close>

record block_source =
  bs_name :: string
  finalized :: bool

definition LATEST_BLOCK_SOURCE :: block_source where
  "LATEST_BLOCK_SOURCE = \<lparr>bs_name = ''latest'', finalized = False\<rparr>"

definition FINALIZED_BLOCK_SOURCE :: block_source where
  "FINALIZED_BLOCK_SOURCE = \<lparr>bs_name = ''finalized'', finalized = True\<rparr>"

text \<open>\<open>backfill_queue\<close> is a \<open>Queue\<close> for \<open>BlockDumper\<close> tasks and a name for \<open>@block_task\<close> ones.\<close>

datatype queue_target = Policy queue | Name string

text \<open>What the library reads of a Celery task object.\<close>

record celery_function =
  func_name :: "string option"
  func_module :: string
  func_dunder_name :: string

record registry_item =
  condition :: "int \<Rightarrow> jdict \<Rightarrow> bool res"
  item_function :: celery_function
  item_args :: "jdict list option"
  block_source :: block_source
  backfilling_lookback :: "int option"
  backfill_queue :: "queue_target option"
  celery_kwargs :: "(string, pyval) dict"
  live_queue :: "queue option"
  block_time_seconds :: rat

definition match_condition :: "registry_item \<Rightarrow> int \<Rightarrow> jdict \<Rightarrow> bool res" where
  "match_condition item block args =
     (case condition item block args of Inl _ \<Rightarrow> Inl ConditionEvaluationError | Inr b \<Rightarrow> Inr b)"

definition get_execution_args :: "registry_item \<Rightarrow> jdict list" where
  "get_execution_args item = (case item_args item of None \<Rightarrow> [[]] | Some as \<Rightarrow> if as = [] then [[]] else as)"

text \<open>\<open>RegistryItem.executable_path\<close>.\<close>

definition item_path :: "registry_item \<Rightarrow> string" where
  "item_path item = (case func_name (item_function item) of
     Some n \<Rightarrow> n | None \<Rightarrow> func_module (item_function item) @ ''.'' @ func_dunder_name (item_function item))"

definition requires_backfilling :: "registry_item \<Rightarrow> bool" where
  "requires_backfilling item \<longleftrightarrow> backfilling_lookback item \<noteq> None"

text \<open>The state of \<open>MemoryRegistry\<close> is its list of items.\<close>

type_synonym memory_registry = "registry_item list"

definition register_item :: "registry_item \<Rightarrow> memory_registry \<Rightarrow> memory_registry" where
  "register_item item reg = reg @ [item]"

definition replace_functions :: "registry_item list \<Rightarrow> memory_registry \<Rightarrow> memory_registry" where
  "replace_functions items reg = items"

definition get_functions :: "memory_registry \<Rightarrow> registry_item list" where
  "get_functions reg = reg"

definition clear_tasks :: "memory_registry \<Rightarrow> memory_registry" where
  "clear_tasks reg = []"

fun get_by_executable_path :: "string \<Rightarrow> memory_registry \<Rightarrow> registry_item option" where
  "get_by_executable_path path [] = None"
| "get_by_executable_path path (item # reg) =
     (if item_path item = path then Some item else get_by_executable_path path reg)"

text \<open>The paths of the tasks that belong to a \<open>BlockDumper\<close>.\<close>

definition dumper_paths :: "memory_registry \<Rightarrow> string list" where
  "dumper_paths reg = map item_path (filter (\<lambda>item. live_queue item \<noteq> None) reg)"

section \<open>The registry interface\<close>

text \<open>\<open>BaseRegistry\<close>: what the schedulers, executors and runners rely on.\<close>

locale base_registry =
  fixes register :: "registry_item \<Rightarrow> 'r \<Rightarrow> 'r"
    and items :: "'r \<Rightarrow> registry_item list"
    and clear :: "'r \<Rightarrow> 'r"
    and by_path :: "string \<Rightarrow> 'r \<Rightarrow> registry_item option"
  assumes items_register: "items (register item reg) = items reg @ [item]"
    and items_clear: "items (clear reg) = []"
    and by_path_first: "by_path path reg = find (\<lambda>item. item_path item = path) (items reg)"
begin

lemma by_path_clear: "by_path path (clear reg) = None"
  by (simp add: by_path_first items_clear)

lemma by_path_register:
  "by_path path (register item reg) =
    (case by_path path reg of Some found \<Rightarrow> Some found
     | None \<Rightarrow> if item_path item = path then Some item else None)"
proof -
  have "find p (xs @ [x]) = (case find p xs of Some y \<Rightarrow> Some y | None \<Rightarrow> if p x then Some x else None)"
    for p xs and x :: registry_item by (induction xs) auto
  then show ?thesis by (simp add: by_path_first items_register)
qed

lemma by_path_Some: "by_path path reg = Some item \<Longrightarrow> item \<in> set (items reg) \<and> item_path item = path"
  by (auto simp: by_path_first find_Some_iff)

lemma by_path_None: "by_path path reg = None \<longleftrightarrow> path \<notin> item_path ` set (items reg)"
  by (auto simp: by_path_first find_None_iff)

end

interpretation memory: base_registry register_item get_functions clear_tasks get_by_executable_path
proof
  show "get_by_executable_path path reg = find (\<lambda>item. item_path item = path) (get_functions reg)" for path reg
    unfolding get_functions_def by (induction path reg rule: get_by_executable_path.induct) auto
qed (simp_all add: register_item_def get_functions_def clear_tasks_def)

section \<open>Dumpers and their queues\<close>

text \<open>
  A \<open>BlockDumper\<close> object (its identity is \<open>dumper_id\<close>) with the identity and the name of its Celery
  app.
\<close>

record block_dumper =
  dumper_id :: nat
  celery_app :: nat
  app_main :: string
  bd_block_time :: rat
  bd_queues :: "(string, queue) dict"

record dumper_registry =
  dr_dumpers :: "block_dumper list"
  dr_created_late :: "nat list"
  dr_queues :: "(string, queue) dict"
  dr_queue_owners :: "(string, nat) dict"

definition clear_dumpers :: "dumper_registry \<Rightarrow> dumper_registry" where
  "clear_dumpers reg = \<lparr>dr_dumpers = [], dr_created_late = [], dr_queues = [], dr_queue_owners = []\<rparr>"

definition empty_dumper_registry :: dumper_registry where
  "empty_dumper_registry = \<lparr>dr_dumpers = [], dr_created_late = [], dr_queues = [], dr_queue_owners = []\<rparr>"

text \<open>\<open>register_dumper\<close>; \<open>ready\<close> is Django's \<open>apps.ready\<close>.\<close>

definition register_dumper :: "bool \<Rightarrow> block_dumper \<Rightarrow> dumper_registry \<Rightarrow> dumper_registry res" where
  "register_dumper ready dumper reg =
     (if list_ex (\<lambda>existing. celery_app existing = celery_app dumper) (dr_dumpers reg)
      then Inl (ValueError ''A BlockDumper already exists for Celery app'')
      else Inr (reg\<lparr>dr_dumpers := dr_dumpers reg @ [dumper],
        dr_created_late := dr_created_late reg @ (if ready then [dumper_id dumper] else [])\<rparr>))"

definition get_queue :: "string option \<Rightarrow> (string, queue) dict \<Rightarrow> queue option" where
  "get_queue name queues = (case name of None \<Rightarrow> None | Some n \<Rightarrow> map_of queues n)"

text \<open>The loop of \<open>register_queues\<close> over the queues, with the queues accepted so far.\<close>

fun accept_queues ::
  "dumper_registry \<Rightarrow> nat \<Rightarrow> queue list \<Rightarrow> (string, queue) dict \<Rightarrow> (string, queue) dict res" where
  "accept_queues reg dumper [] accepted = Inr accepted"
| "accept_queues reg dumper (q # qs) accepted =
     (let existing = (case map_of accepted (q_name q) of
            Some e \<Rightarrow> Some e | None \<Rightarrow> map_of (dr_queues reg) (q_name q));
          owner = map_of (dr_queue_owners reg) (q_name q)
      in if (case existing of None \<Rightarrow> False | Some e \<Rightarrow> \<not> same_queue e q)
           then Inl (ValueError ''Queue is already defined with different settings'')
         else if owner \<noteq> None \<and> owner \<noteq> Some dumper
           then Inl (ValueError ''Queue already belongs to another BlockDumper'')
         else accept_queues reg dumper qs (AList.update (q_name q) q accepted))"

definition register_queues :: "nat \<Rightarrow> queue list \<Rightarrow> dumper_registry \<Rightarrow> dumper_registry res" where
  "register_queues dumper queues reg =
     (case accept_queues reg dumper queues [] of
        Inl e \<Rightarrow> Inl e
      | Inr accepted \<Rightarrow> Inr (reg\<lparr>
          dr_queues := dict_update (dr_queues reg) accepted,
          dr_queue_owners := dict_update (dr_queue_owners reg) (map (\<lambda>(n, _). (n, dumper)) accepted)\<rparr>))"

definition registered_queues :: "dumper_registry \<Rightarrow> queue list" where
  "registered_queues reg = map snd (dr_queues reg)"

text \<open>\<open>BlockDumper.queues\<close>.\<close>

definition dumper_queues :: "block_dumper \<Rightarrow> queue list" where
  "dumper_queues d = map snd (bd_queues d)"

section \<open>Queue inventory\<close>

datatype role = LIVE | BACKFILL

record queue_usage =
  u_queue :: queue
  u_dumper :: block_dumper
  u_roles :: "role set"
  named_as_backfill_queue :: bool
  u_tasks :: "registry_item list"

definition target_name :: "queue_target option \<Rightarrow> string option" where
  "target_name t = (case t of Some (Policy q) \<Rightarrow> Some (q_name q) | _ \<Rightarrow> None)"

definition sends_live :: "queue \<Rightarrow> registry_item \<Rightarrow> bool" where
  "sends_live q item \<longleftrightarrow> map_option q_name (live_queue item) = Some (q_name q)"

definition sends_backfill :: "queue \<Rightarrow> registry_item \<Rightarrow> bool" where
  "sends_backfill q item \<longleftrightarrow> target_name (backfill_queue item) = Some (q_name q)"

text \<open>The inner loop of \<open>queue_usages\<close>.\<close>

definition usage_step ::
  "queue \<Rightarrow> registry_item \<Rightarrow> role set \<times> bool \<times> registry_item list \<Rightarrow> role set \<times> bool \<times> registry_item list" where
  "usage_step q item acc =
     (case acc of (roles, named, tasks) \<Rightarrow>
       (roles \<union> (if sends_live q item then {LIVE} \<union> (if backfill_queue item = None then {BACKFILL} else {}) else {}) \<union>
          (if sends_backfill q item then {BACKFILL} else {}),
        named \<or> sends_backfill q item,
        tasks @ (if sends_live q item \<or> sends_backfill q item then [item] else [])))"

definition queue_usages :: "dumper_registry \<Rightarrow> memory_registry \<Rightarrow> queue_usage list" where
  "queue_usages dumpers tasks =
     concat (map (\<lambda>d. map (\<lambda>q.
       (case fold (usage_step q) (get_functions tasks) ({}, False, []) of (roles, named, items) \<Rightarrow>
          \<lparr>u_queue = q, u_dumper = d, u_roles = roles, named_as_backfill_queue = named, u_tasks = items\<rparr>))
       (dumper_queues d)) (dr_dumpers dumpers))"

section \<open>One name, one policy, one owner\<close>

definition registry_ok :: "dumper_registry \<Rightarrow> bool" where
  "registry_ok reg \<longleftrightarrow>
     distinct (map fst (dr_queues reg)) \<and> distinct (map fst (dr_queue_owners reg)) \<and>
     (\<forall>n q. map_of (dr_queues reg) n = Some q \<longrightarrow> q_name q = n) \<and>
     (\<forall>n. map_of (dr_queues reg) n = None \<longleftrightarrow> map_of (dr_queue_owners reg) n = None)"

lemma registry_ok_empty [simp]: "registry_ok empty_dumper_registry"
  by (simp add: registry_ok_def empty_dumper_registry_def)

text \<open>What the loop has checked of the queues it accepted.\<close>

definition accepted_ok :: "dumper_registry \<Rightarrow> nat \<Rightarrow> (string, queue) dict \<Rightarrow> bool" where
  "accepted_ok reg dumper accepted \<longleftrightarrow> distinct (map fst accepted) \<and>
     (\<forall>n q. map_of accepted n = Some q \<longrightarrow> q_name q = n \<and>
        (\<forall>e. map_of (dr_queues reg) n = Some e \<longrightarrow> same_queue e q) \<and>
        (\<forall>owner. map_of (dr_queue_owners reg) n = Some owner \<longrightarrow> owner = dumper))"

lemma accept_queues_ok:
  assumes "accept_queues reg dumper qs acc = Inr acc'" "accepted_ok reg dumper acc"
  shows "accepted_ok reg dumper acc' \<and>
    (\<forall>n e. map_of acc n = Some e \<longrightarrow> (\<exists>e'. map_of acc' n = Some e' \<and> same_queue e e')) \<and>
    (\<forall>q \<in> set qs. \<exists>e'. map_of acc' (q_name q) = Some e' \<and> same_queue q e')"
  using assms
proof (induction qs arbitrary: acc)
  case Nil
  then show ?case by auto
next
  case (Cons q qs)
  let ?upd = "AList.update (q_name q) q acc"
  from Cons.prems(1) have rest: "accept_queues reg dumper qs ?upd = Inr acc'"
    and ex: "\<And>e. map_of acc (q_name q) = Some e \<Longrightarrow> same_queue e q"
      "\<And>e. map_of acc (q_name q) = None \<Longrightarrow> map_of (dr_queues reg) (q_name q) = Some e \<Longrightarrow> same_queue e q"
    and own: "\<And>w. map_of (dr_queue_owners reg) (q_name q) = Some w \<Longrightarrow> w = dumper"
    by (auto simp: Let_def split: if_splits option.splits)
  have "same_queue e q" if "map_of (dr_queues reg) (q_name q) = Some e" for e
    using ex that Cons.prems(2) same_queue_trans unfolding accepted_ok_def
    by (cases "map_of acc (q_name q)") blast+
  with own Cons.prems(2) have ok: "accepted_ok reg dumper ?upd"
    by (auto simp: accepted_ok_def update_conv' distinct_update split: if_splits)
  have upd: "map_of ?upd = (map_of acc)(q_name q \<mapsto> q)" by (simp add: update_conv')
  note ih = Cons.IH [OF rest ok, unfolded upd]
  have "\<exists>e'. map_of acc' n = Some e' \<and> same_queue e e'" if "map_of acc n = Some e" for n e
  proof (cases "n = q_name q")
    case True
    then show ?thesis using ih that ex(1) same_queue_trans by (metis fun_upd_same)
  next
    case False
    then show ?thesis using ih that by simp
  qed
  moreover have "\<exists>e'. map_of acc' (q_name q) = Some e' \<and> same_queue q e'" using ih by simp
  ultimately show ?case using ih by simp
qed

lemma register_queues_lookup:
  assumes "register_queues dumper qs reg = Inr reg'" "registry_ok reg"
  obtains accepted where "accepted_ok reg dumper accepted"
    "map_of (dr_queues reg') = map_of (dr_queues reg) ++ map_of accepted"
    "\<And>n. map_of (dr_queue_owners reg') n =
       (if map_of accepted n = None then map_of (dr_queue_owners reg) n else Some dumper)"
    "distinct (map fst (dr_queues reg'))" "distinct (map fst (dr_queue_owners reg'))"
    "\<And>q. q \<in> set qs \<Longrightarrow> \<exists>e'. map_of accepted (q_name q) = Some e' \<and> same_queue q e'"
proof -
  from assms(1) obtain accepted where acc: "accept_queues reg dumper qs [] = Inr accepted"
    and reg': "reg' = reg\<lparr>dr_queues := dict_update (dr_queues reg) accepted,
      dr_queue_owners := dict_update (dr_queue_owners reg) (map (\<lambda>(n, _). (n, dumper)) accepted)\<rparr>"
    by (auto simp: register_queues_def split: sum.splits)
  have ok: "accepted_ok reg dumper accepted" and all: "\<And>q. q \<in> set qs \<Longrightarrow>
      \<exists>e'. map_of accepted (q_name q) = Some e' \<and> same_queue q e'"
    using accept_queues_ok [OF acc] by (auto simp: accepted_ok_def)
  have d: "distinct (map fst accepted)" using ok by (simp add: accepted_ok_def)
  have d2: "distinct (map fst (map (\<lambda>(n, _). (n, dumper)) accepted))"
    using d by (simp add: comp_def case_prod_beta)
  have "map_of (map (\<lambda>(n, _). (n, dumper)) accepted) n =
      (if map_of accepted n = None then None else Some dumper)" for n
    by (induction accepted) auto
  then have own: "map_of (dr_queue_owners reg') n =
      (if map_of accepted n = None then map_of (dr_queue_owners reg) n else Some dumper)" for n
    by (simp add: reg' map_of_dict_update [OF d2] map_add_def)
  have qs: "map_of (dr_queues reg') = map_of (dr_queues reg) ++ map_of accepted"
    by (simp add: reg' map_of_dict_update [OF d])
  have dist: "distinct (map fst (dr_queues reg'))" "distinct (map fst (dr_queue_owners reg'))"
    using assms(2) by (simp_all add: reg' registry_ok_def distinct_dict_update)
  show ?thesis by (rule that [OF ok qs own dist all])
qed

lemma register_queues_ok:
  assumes "register_queues dumper qs reg = Inr reg'" "registry_ok reg"
  shows "registry_ok reg'"
proof -
  obtain accepted where acc: "accepted_ok reg dumper accepted"
    "map_of (dr_queues reg') = map_of (dr_queues reg) ++ map_of accepted"
    "\<And>n. map_of (dr_queue_owners reg') n =
       (if map_of accepted n = None then map_of (dr_queue_owners reg) n else Some dumper)"
    "distinct (map fst (dr_queues reg'))" "distinct (map fst (dr_queue_owners reg'))"
    using register_queues_lookup [OF assms] by metis
  show ?thesis
    unfolding registry_ok_def
  proof (intro conjI allI impI)
    fix n q assume "map_of (dr_queues reg') n = Some q"
    then show "q_name q = n"
      using acc(1,2) assms(2) by (auto simp: accepted_ok_def registry_ok_def map_add_Some_iff)
  next
    fix n show "map_of (dr_queues reg') n = None \<longleftrightarrow> map_of (dr_queue_owners reg') n = None"
      using acc(2,3) assms(2) by (auto simp: registry_ok_def)
  qed (use acc in simp_all)
qed

text \<open>
  One queue name means one policy and one owner: registering queues succeeds only when every
  name that was defined keeps an equal policy and its owner, and afterwards every registered queue is
  found under its name with an equal policy and belongs to the registering dumper.
\<close>

theorem register_queues_consistent:
  assumes "registry_ok reg" and "register_queues dumper qs reg = Inr reg'"
  shows "registry_ok reg' \<and>
    (\<forall>q \<in> set qs. \<exists>q'. get_queue (Some (q_name q)) (dr_queues reg') = Some q' \<and> same_queue q q' \<and>
       map_of (dr_queue_owners reg') (q_name q) = Some dumper) \<and>
    (\<forall>n q. get_queue n (dr_queues reg) = Some q \<longrightarrow>
       (\<exists>q'. get_queue n (dr_queues reg') = Some q' \<and> same_queue q q') \<and>
       map_of (dr_queue_owners reg') (the n) = map_of (dr_queue_owners reg) (the n))"
proof -
  obtain accepted where ok: "accepted_ok reg dumper accepted"
    and qs: "map_of (dr_queues reg') = map_of (dr_queues reg) ++ map_of accepted"
    and own: "\<And>n. map_of (dr_queue_owners reg') n =
       (if map_of accepted n = None then map_of (dr_queue_owners reg) n else Some dumper)"
    and all: "\<And>q. q \<in> set qs \<Longrightarrow> \<exists>e'. map_of accepted (q_name q) = Some e' \<and> same_queue q e'"
    using register_queues_lookup [OF assms(2,1)] by metis
  have "(\<exists>q'. get_queue n (dr_queues reg') = Some q' \<and> same_queue q q') \<and>
      map_of (dr_queue_owners reg') (the n) = map_of (dr_queue_owners reg) (the n)"
    if "get_queue n (dr_queues reg) = Some q" for n q
  proof -
    from that obtain k where k: "n = Some k" "map_of (dr_queues reg) k = Some q"
      by (auto simp: get_queue_def split: option.splits)
    then have "map_of (dr_queue_owners reg) k \<noteq> None"
      using assms(1) unfolding registry_ok_def by (metis option.distinct(1))
    then show ?thesis
      using ok k qs own by (cases "map_of accepted k") (auto simp: get_queue_def accepted_ok_def map_add_Some_iff)
  qed
  then show ?thesis
    using register_queues_ok [OF assms(2,1)] all own qs by (fastforce simp: get_queue_def map_add_Some_iff)
qed

definition sample_queue :: queue where
  "sample_queue = \<lparr>q_name = ''archive'', soft_time_limit = None, time_limit = Some (PInt 60),
     message_ttl = Some (PInt 60), throttle = Some 5, retry = default_retry_policy\<rparr>"

theorem register_queues_consistent_witness:
  "\<exists>reg' q'. register_queues 1 [sample_queue] empty_dumper_registry = Inr reg' \<and>
     get_queue (Some ''archive'') (dr_queues reg') = Some q' \<and> same_queue sample_queue q'"
proof -
  have "\<exists>reg'. register_queues 1 [sample_queue] empty_dumper_registry = Inr reg'"
    by (simp add: register_queues_def empty_dumper_registry_def)
  then obtain reg' where "register_queues 1 [sample_queue] empty_dumper_registry = Inr reg'" ..
  with register_queues_consistent [OF registry_ok_empty this] show ?thesis
    by (auto simp: sample_queue_def)
qed

end
