(* ===== verification/World.thy ===== *)
theory World
  imports Attempt_Lifecycle Registries
begin

text \<open>
  What the handlers share: the process context (settings, registered tasks, registered queues, and
  whether the broker takes a message), the world they change (the attempt table, the clock readings,
  the messages sent, the metrics), sending a Celery message, the metrics of
  \<open>_internal/services/metrics.py\<close> (counters, gauges and the observed durations) and the retry rules of
  \<open>_internal/services/retry_rules.py\<close>.

  Celery is not part of this repository: \<open>broker_accepts\<close> says which messages \<open>apply_async\<close> hands
  over; for the others it raises. \<open>measured\<close> is what the clock says of the time a block took, by mode and
  block, and \<open>interrupted_after\<close> the blocks after which Ctrl+C arrives while a backfill sleeps.
\<close>

section \<open>Messages\<close>

record message =
  msg_task :: string
  msg_kwargs :: jdict
  msg_options :: "(string, pyval) dict"

record ctx =
  cfg :: settings
  registry :: memory_registry
  queues :: "(string, queue) dict"
  broker_accepts :: "message \<Rightarrow> bool"
  measured :: "string \<Rightarrow> int \<Rightarrow> seconds"
  interrupted_after :: "int \<Rightarrow> bool"

section \<open>Metrics\<close>

datatype metric =
    BlocksProcessed string string
  | TasksSubmitted string
  | CurrentBlock string int string
  | BackfillFrom int
  | BackfillTo int
  | BackfillProgress rat
  | BlockLag string int string
  | RegisteredTasks nat
  | ArchiveNetworkUsage
  | TaskExecutions string string
  | TaskRetries string
  | TasksRecovered string status
  | TaskLeasesExpired string
  | TasksGivenUp string "give_up_reason option"
  | QueueMessages string int
  | QueueConsumers string int
  | InflightTasks string nat
  | Throttled string string
  | MessagesExpired string
  | PendingTasks int
  | BlockProcessingTime string string seconds
  | TaskExecutionTime string seconds

record world =
  table :: db
  clk :: clocks
  sent :: "message list"
  prometheus :: bool
  metrics :: "metric list"

type_synonym 'a action = "world \<Rightarrow> 'a res \<times> world"

definition emit :: "metric \<Rightarrow> world \<Rightarrow> world" where
  "emit m w = (if prometheus w then w\<lparr>metrics := metrics w @ [m]\<rparr> else w)"

definition increment_blocks_processed :: "string \<Rightarrow> string \<Rightarrow> world \<Rightarrow> world" where
  [simp]: "increment_blocks_processed mode source = emit (BlocksProcessed mode source)"

definition increment_tasks_submitted :: "string \<Rightarrow> world \<Rightarrow> world" where
  [simp]: "increment_tasks_submitted name = emit (TasksSubmitted name)"

definition set_current_block :: "string \<Rightarrow> int \<Rightarrow> string \<Rightarrow> world \<Rightarrow> world" where
  [simp]: "set_current_block mode block source = emit (CurrentBlock mode block source)"

definition set_backfill_progress :: "int \<Rightarrow> int \<Rightarrow> int \<Rightarrow> world \<Rightarrow> world" where
  "set_backfill_progress from_block to_block current w =
     (let w' = emit (BackfillTo to_block) (emit (BackfillFrom from_block) w); total = to_block - from_block
      in if total > 0 then emit (BackfillProgress (of_int (current - from_block) / of_int total * 100)) w' else w')"

definition set_block_lag :: "string \<Rightarrow> int \<Rightarrow> string \<Rightarrow> world \<Rightarrow> world" where
  [simp]: "set_block_lag mode lag source = emit (BlockLag mode lag source)"

definition set_registered_tasks :: "nat \<Rightarrow> world \<Rightarrow> world" where
  [simp]: "set_registered_tasks n = emit (RegisteredTasks n)"

definition increment_archive_network_usage :: "world \<Rightarrow> world" where
  [simp]: "increment_archive_network_usage = emit ArchiveNetworkUsage"

definition record_task_execution :: "string \<Rightarrow> string \<Rightarrow> world \<Rightarrow> world" where
  [simp]: "record_task_execution name st = emit (TaskExecutions name st)"

definition record_task_retry :: "string \<Rightarrow> world \<Rightarrow> world" where
  [simp]: "record_task_retry name = emit (TaskRetries name)"

definition record_task_recovered :: "string \<Rightarrow> status \<Rightarrow> world \<Rightarrow> world" where
  [simp]: "record_task_recovered name previous = emit (TasksRecovered name previous)"

definition record_task_lease_expired :: "string \<Rightarrow> world \<Rightarrow> world" where
  [simp]: "record_task_lease_expired name = emit (TaskLeasesExpired name)"

text \<open>The reason \<open>None\<close> stands for the label \<open>unknown\<close>.\<close>

definition record_task_given_up :: "string \<Rightarrow> give_up_reason option \<Rightarrow> world \<Rightarrow> world" where
  [simp]: "record_task_given_up name reason = emit (TasksGivenUp name reason)"

definition set_queue_messages :: "string \<Rightarrow> int \<Rightarrow> world \<Rightarrow> world" where
  [simp]: "set_queue_messages queue n = emit (QueueMessages queue n)"

definition set_queue_consumers :: "string \<Rightarrow> int \<Rightarrow> world \<Rightarrow> world" where
  [simp]: "set_queue_consumers queue n = emit (QueueConsumers queue n)"

definition set_inflight_tasks :: "string \<Rightarrow> nat \<Rightarrow> world \<Rightarrow> world" where
  [simp]: "set_inflight_tasks queue n = emit (InflightTasks queue n)"

definition record_throttled :: "string \<Rightarrow> string \<Rightarrow> world \<Rightarrow> world" where
  [simp]: "record_throttled queue mode = emit (Throttled queue mode)"

definition record_message_expired :: "string \<Rightarrow> world \<Rightarrow> world" where
  [simp]: "record_message_expired queue = emit (MessagesExpired queue)"

definition set_pending_tasks :: "int \<Rightarrow> world \<Rightarrow> world" where
  [simp]: "set_pending_tasks n = emit (PendingTasks n)"

definition observe_task_execution_time :: "string \<Rightarrow> seconds \<Rightarrow> world \<Rightarrow> world" where
  [simp]: "observe_task_execution_time name duration = emit (TaskExecutionTime name duration)"

text \<open>
  The context managers \<open>TaskExecutionTimer\<close> and \<open>BlockProcessingTimer\<close>. Entering one keeps a running timer of
  \<open>prometheus_client\<close> when that is installed; leaving it, by an exception too, observes what the timer measured.
\<close>

record metric_timer =
  timer_metric :: "seconds \<Rightarrow> metric"
  timer_started :: bool

definition TaskExecutionTimer :: "string \<Rightarrow> metric_timer" where
  "TaskExecutionTimer name = \<lparr>timer_metric = TaskExecutionTime name, timer_started = False\<rparr>"

definition BlockProcessingTimer :: "string \<Rightarrow> string \<Rightarrow> metric_timer" where
  "BlockProcessingTimer mode source = \<lparr>timer_metric = BlockProcessingTime mode source, timer_started = False\<rparr>"

definition timer_enter :: "world \<Rightarrow> metric_timer \<Rightarrow> metric_timer" where
  "timer_enter w t = (if prometheus w then t\<lparr>timer_started := True\<rparr> else t)"

definition timer_exit :: "seconds \<Rightarrow> metric_timer \<Rightarrow> world \<Rightarrow> world" where
  "timer_exit duration t w = (if timer_started t then w\<lparr>metrics := metrics w @ [timer_metric t duration]\<rparr> else w)"

lemma timer_exit_sel [simp]:
  "table (timer_exit duration t w) = table w" "clk (timer_exit duration t w) = clk w"
  "sent (timer_exit duration t w) = sent w" "prometheus (timer_exit duration t w) = prometheus w"
  by (simp_all add: timer_exit_def)

lemma emit_sel [simp]:
  "table (emit m w) = table w" "clk (emit m w) = clk w" "sent (emit m w) = sent w"
  "prometheus (emit m w) = prometheus w"
  by (simp_all add: emit_def)

lemma set_backfill_progress_sel [simp]:
  "table (set_backfill_progress f t c w) = table w" "clk (set_backfill_progress f t c w) = clk w"
  "sent (set_backfill_progress f t c w) = sent w"
  by (simp_all add: set_backfill_progress_def Let_def)

section \<open>Sending\<close>

text \<open>
  \<open>LiveLimitsTask.apply_async\<close> (\<open>block_dumper._sending_live_limits\<close>): a message to the live queue of
  a \<open>BlockDumper\<close> task, or to none in particular, carries that queue's options unless it names its own.
\<close>

definition live_limits_options :: "queue \<Rightarrow> (string, pyval) dict \<Rightarrow> (string, pyval) dict" where
  "live_limits_options q options =
     (if (case map_of options ''queue'' of None \<Rightarrow> True | Some v \<Rightarrow> v = PyStr (q_name q))
      then dict_update (message_options q) options else options)"

definition apply_async :: "ctx \<Rightarrow> registry_item \<Rightarrow> jdict \<Rightarrow> (string, pyval) dict \<Rightarrow> unit action" where
  "apply_async x item kwargs options w =
     (let options' = (case live_queue item of None \<Rightarrow> options | Some q \<Rightarrow> live_limits_options q options);
          m = \<lparr>msg_task = item_path item, msg_kwargs = kwargs, msg_options = options'\<rparr>
      in if broker_accepts x m then (Inr (), w\<lparr>sent := sent w @ [m]\<rparr>) else (Inl SendError, w))"

lemma map_of_live_limits:
  assumes "distinct (map fst options)" "map_of options k = Some v"
  shows "map_of (live_limits_options q options) k = Some v"
  using assms by (simp add: live_limits_options_def map_of_dict_update)

text \<open>\<open>path.split(".")[-1]\<close>.\<close>

definition last_part :: "string \<Rightarrow> string" where
  "last_part path = rev (takeWhile (\<lambda>c. c \<noteq> CHR ''.'') (rev path))"

text \<open>\<open>refresh_from_db\<close>; a row that was deleted raises.\<close>

definition refreshed :: "task_attempt \<Rightarrow> db \<Rightarrow> task_attempt res" where
  "refreshed task d = (case row (attempt_id task) d of Some r \<Rightarrow> Inr r | None \<Rightarrow> Inl DoesNotExist)"

text \<open>A row that was just updated is there.\<close>

lemma refreshed_won:
  assumes "fst (update_by_id i p f d)" "keeps_key f" "attempt_id task = i"
  shows "\<exists>r. refreshed task (snd (update_by_id i p f d)) = Inr r"
proof -
  have "filter (\<lambda>r. attempt_id r = i \<and> p r) (attempts d) \<noteq> []"
    using assms(1) by (auto simp: update_by_id_def count_rows_def)
  then have "row i d \<noteq> None" by (auto simp: row_def find_None_iff filter_empty_conv)
  then show ?thesis using assms(2,3) by (auto simp: refreshed_def row_update_by_id)
qed

text \<open>
  The stored arguments as the keyword arguments of a message. \<open>args_json\<close> is written by
  \<^const>\<open>serialize_args\<close> only; \<open>**\<close> of another JSON value raises \<open>TypeError\<close>.
\<close>

definition stored_args :: "task_attempt \<Rightarrow> jdict res" where
  "stored_args r = (case args_dict (args_json r) of JDict kvs \<Rightarrow> Inr kvs | _ \<Rightarrow> Inl (TypeError ''args_dict''))"

section \<open>Retry rules\<close>

datatype retry_rules = QueueRetries retry_policy | SettingsRetries settings

definition retries_for :: "ctx \<Rightarrow> task_attempt \<Rightarrow> retry_rules" where
  "retries_for x r = (case get_queue (dispatch_queue r) (queues x) of
     Some q \<Rightarrow> QueueRetries (retry q) | None \<Rightarrow> SettingsRetries (cfg x))"

fun rules_allow_retry :: "retry_rules \<Rightarrow> nat \<Rightarrow> bool" where
  "rules_allow_retry (QueueRetries p) n = allows_retry p n"
| "rules_allow_retry (SettingsRetries s) n = settings_allows_retry s n"

fun rules_delay :: "retry_rules \<Rightarrow> nat \<Rightarrow> seconds res" where
  "rules_delay (QueueRetries p) n = Inr (delay_seconds p n)"
| "rules_delay (SettingsRetries s) n = get_retry_delay_seconds s n"

definition retry_delay :: "ctx \<Rightarrow> task_attempt \<Rightarrow> seconds option res" where
  "retry_delay x r =
     (let rules = retries_for x r
      in if \<not> rules_allow_retry rules (attempt_count r) then Inr None
         else (case rules_delay rules (attempt_count r) of Inl e \<Rightarrow> Inl e | Inr d \<Rightarrow> Inr (Some d)))"

definition report_given_up :: "task_attempt \<Rightarrow> world \<Rightarrow> world" where
  "report_given_up r w = record_task_given_up (last_part (executable_path r)) (give_up_reason r) w"

lemma report_given_up_sel [simp]:
  "table (report_given_up r w) = table w" "clk (report_given_up r w) = clk w"
  "sent (report_given_up r w) = sent w"
  by (simp_all add: report_given_up_def)

text \<open>
  The rows that some retry rules in force give another try: the settings, or the rules of some queue for
  a row that was sent to one. A row may be sent to another queue while it runs, so the queue is any.
\<close>

definition may_retry :: "ctx \<Rightarrow> task_attempt \<Rightarrow> bool" where
  "may_retry x r \<longleftrightarrow> settings_allows_retry (cfg x) (attempt_count r) \<or>
     dispatch_queue r \<noteq> None \<and> list_ex (\<lambda>(n, q). allows_retry (retry q) (attempt_count r)) (queues x)"

lemma retry_delay_Some: "retry_delay x r = Inr (Some d) \<Longrightarrow> may_retry x r"
  by (fastforce simp: retry_delay_def retries_for_def may_retry_def get_queue_def list_ex_iff Let_def
      split: if_splits option.splits dest: map_of_SomeD)

lemma may_retry_count:
  "may_retry x r \<Longrightarrow> attempt_count r' = attempt_count r \<Longrightarrow>
   (dispatch_queue r \<noteq> None \<Longrightarrow> dispatch_queue r' \<noteq> None) \<Longrightarrow> may_retry x r'"
  by (auto simp: may_retry_def)

text \<open>Every set of rules a registered queue or the settings give allows at most \<open>m\<close> tries.\<close>

definition tries_at_most :: "ctx \<Rightarrow> nat \<Rightarrow> bool" where
  "tries_at_most x m \<longleftrightarrow> get_max_attempt_limit (cfg x) \<le> int m \<and>
     list_all (\<lambda>(n, q). case max_attempts (retry q) of None \<Rightarrow> False | Some k \<Rightarrow> k \<le> int m) (queues x)"

lemma may_retry_at_most: "tries_at_most x m \<Longrightarrow> may_retry x r \<Longrightarrow> attempt_count r < m"
  by (fastforce simp: tries_at_most_def may_retry_def list_ex_iff list_all_iff allows_retry_def
      settings_allows_retry_def split: option.splits)

section \<open>Handlers as steps\<close>

text \<open>Steps under stricter retry rules and with fewer tokens are steps under laxer ones.\<close>

lemma attempt_step_mono:
  assumes "attempt_step s R sw T d d'" "\<And>r. R r \<Longrightarrow> R' r" "T \<subseteq> T'"
  shows "attempt_step s R' sw T' d d'"
  using assms(1)
proof cases
  case (claimed token lease c i)
  then show ?thesis using assms(3) by (auto intro: attempt_step.claimed)
next
  case (failure i token delay c)
  then show ?thesis using assms(2) by (auto intro: attempt_step.failure)
next
  case (lease i c delay)
  then show ?thesis using assms(2) by (auto intro: attempt_step.lease)
qed (auto intro: attempt_step.intros)

lemma attempt_steps_mono:
  assumes "attempt_steps s R sw T d d'" "\<And>r. R r \<Longrightarrow> R' r" "T \<subseteq> T'"
  shows "attempt_steps s R' sw T' d d'"
  using assms(1)
proof (induction rule: rtranclp_induct)
  case (step y z)
  then show ?case using attempt_step_mono [OF _ assms(2,3)] by (meson rtranclp.rtrancl_into_rtrancl)
qed simp

text \<open>Whether the stuck-task sweep is on.\<close>

definition sweeping :: "ctx \<Rightarrow> bool" where
  "sweeping x \<longleftrightarrow> (\<exists>timeout interval batch. stale_task_settings (cfg x) = Inr (Some timeout, interval, batch))"

text \<open>
  What a handler that runs in the context \<open>x\<close> and claims with the tokens \<open>T\<close> may do to the table.
\<close>

definition evolves :: "ctx \<Rightarrow> string set \<Rightarrow> db \<Rightarrow> db \<Rightarrow> bool" where
  "evolves x T d d' \<longleftrightarrow> attempt_steps (cfg x) (may_retry x) (sweeping x) T d d'"

lemma evolves_refl [simp, intro]: "evolves x T d d"
  by (simp add: evolves_def)

lemma evolves_trans [trans]: "evolves x T d d' \<Longrightarrow> evolves x T d' d'' \<Longrightarrow> evolves x T d d''"
  unfolding evolves_def by (rule rtranclp_trans)

lemma evolves_step: "attempt_step (cfg x) (may_retry x) (sweeping x) T d d' \<Longrightarrow> evolves x T d d'"
  unfolding evolves_def by (rule r_into_rtranclp)

lemma evolves_db_ok: "evolves x T d d' \<Longrightarrow> db_ok d \<Longrightarrow> db_ok d'"
  unfolding evolves_def by (rule attempt_steps_db_ok)

lemma evolves_table_ok: "evolves x T d d' \<Longrightarrow> table_ok d \<Longrightarrow> table_ok d'"
  unfolding evolves_def table_ok_def using table.steps_keep by blast

lemma evolves_tokens: "evolves x T d d' \<Longrightarrow> T \<subseteq> T' \<Longrightarrow> evolves x T' d d'"
  unfolding evolves_def by (rule attempt_steps_mono)

text \<open>
  The contract of a handler: from a table that satisfies the constraints it takes only steps of the
  lifecycle, and it leaves the clock readings alone.
\<close>

definition handles :: "ctx \<Rightarrow> string set \<Rightarrow> (world \<Rightarrow> world) \<Rightarrow> bool" where
  "handles x T h \<longleftrightarrow>
     (\<forall>w. db_ok (table w) \<longrightarrow> evolves x T (table w) (table (h w)) \<and> clk (h w) = clk w)"

lemma handlesI:
  "(\<And>w. db_ok (table w) \<Longrightarrow> evolves x T (table w) (table (h w))) \<Longrightarrow>
   (\<And>w. db_ok (table w) \<Longrightarrow> clk (h w) = clk w) \<Longrightarrow> handles x T h"
  by (simp add: handles_def)

lemma handlesD:
  "handles x T h \<Longrightarrow> db_ok (table w) \<Longrightarrow>
   evolves x T (table w) (table (h w)) \<and> clk (h w) = clk w \<and> db_ok (table (h w))"
  unfolding handles_def using evolves_db_ok by blast

lemma handles_id [simp]: "handles x T (\<lambda>w. w)" "handles x T id"
  by (simp_all add: handles_def)

lemma handles_comp:
  assumes "handles x T g" "handles x T h"
  shows "handles x T (\<lambda>w. h (g w))"
  using assms unfolding handles_def by (metis evolves_db_ok evolves_trans)

section \<open>Between two statements of a handler\<close>

text \<open>
  A handler that issues several statements is not atomic: other processes may act between two of them. What
  they do is a parameter of the handler, by the statement it is about to issue; the clock is read again
  after each gap. \<open>alone\<close> is a run nobody interferes with.
\<close>

datatype issued =
    Reopening | SettingDeadline | GivingUp | Refreshing | Dispatching | Sending | Requeuing | FailingLease
  | ClaimingMessage | Redispatching | Retrying | Recovering | LookingForMessages | LookingForStuck

type_synonym gaps = "issued \<Rightarrow> world \<Rightarrow> world"

definition alone :: gaps where
  "alone p w = w"

lemma alone_id [simp]: "alone p = (\<lambda>w. w)"
  by (simp add: alone_def fun_eq_iff)

text \<open>
  The contract of a handler that lets others in between: when they take steps of the lifecycle only, so does
  the whole.
\<close>

definition takes_steps :: "ctx \<Rightarrow> string set \<Rightarrow> (world \<Rightarrow> world) \<Rightarrow> bool" where
  "takes_steps x T h \<longleftrightarrow> (\<forall>w. db_ok (table w) \<longrightarrow> evolves x T (table w) (table (h w)))"

definition others_between :: "ctx \<Rightarrow> string set \<Rightarrow> gaps \<Rightarrow> bool" where
  "others_between x T g \<longleftrightarrow> (\<forall>p. takes_steps x T (g p))"

lemma others_alone [simp]: "others_between x T alone"
  by (simp add: others_between_def takes_steps_def)

lemma takes_stepsD:
  "takes_steps x T h \<Longrightarrow> db_ok (table w) \<Longrightarrow> evolves x T (table w) (table (h w)) \<and> db_ok (table (h w))"
  unfolding takes_steps_def using evolves_db_ok by blast

lemma handles_takes_steps: "handles x T h \<Longrightarrow> takes_steps x T h"
  by (simp add: takes_steps_def handles_def)

lemma takes_steps_comp: "takes_steps x T g \<Longrightarrow> takes_steps x T h \<Longrightarrow> takes_steps x T (\<lambda>w. h (g w))"
  unfolding takes_steps_def by (metis evolves_db_ok evolves_trans)

lemma takes_steps_fold:
  assumes "\<And>i. takes_steps x T (h i)"
  shows "takes_steps x T (fold h is)"
proof (induction "is")
  case (Cons i "is")
  have "takes_steps x T (\<lambda>w. fold h is (h i w))" using assms Cons.IH by (rule takes_steps_comp)
  then show ?case by (simp add: comp_def)
qed (simp add: takes_steps_def)

text \<open>A gap after a step, and a step after a gap.\<close>

lemma evolves_gap:
  assumes "others_between x T g" "db_ok d" "evolves x T d (table w)"
  shows "evolves x T d (table (g p w)) \<and> db_ok (table (g p w))"
  using assms takes_stepsD [of x T "g p" w] evolves_db_ok [OF assms(3,2)] evolves_trans
  unfolding others_between_def by blast

section \<open>Loops\<close>

text \<open>Handlers in a loop, one call per element: the interface the sweeps and the schedulers rely on.\<close>

locale handler_loop =
  fixes x :: ctx and T :: "string set" and h :: "'i \<Rightarrow> world \<Rightarrow> world"
  assumes each: "handles x T (h i)"
begin

lemma fold_handles: "handles x T (fold h is)"
proof (induction "is")
  case (Cons i "is")
  have "handles x T (\<lambda>w. fold h is (h i w))" using each Cons.IH by (rule handles_comp)
  then show ?case by (simp add: comp_def)
qed (simp add: handles_def)

end

end
