(* ===== verification/Queue_Executor.thy ===== *)
theory Queue_Executor
  imports World
begin

text \<open>
  Sending the messages of \<open>BlockDumper\<close> tasks (\<open>_internal/services/queue_executor.py\<close>): first
  submissions and re-dispatches (\<open>execute\<close>), retries (\<open>dispatch_retry\<close>) and the queue they go to. Each
  handler is defined with what other processes do between its statements (\<^typ>\<open>gaps\<close>); the name without
  \<open>_amid\<close> is the run nobody interferes with.
\<close>

definition ARCHIVE_BLOCK_THRESHOLD :: int where
  "ARCHIVE_BLOCK_THRESHOLD = 300"

text \<open>\<open>transitions.create_or_reopen\<close>, with the gap between its read and its conditional UPDATE.\<close>

definition create_or_reopen_amid ::
  "gaps \<Rightarrow> ctx \<Rightarrow> int \<Rightarrow> string \<Rightarrow> jdict \<Rightarrow> world \<Rightarrow> (task_attempt \<times> bool) \<times> world" where
  "create_or_reopen_amid g x block path args w =
     (case get_or_create block path (serialize_args args) (py_now (clk w)) (table w) of
        ((task, created), d) \<Rightarrow>
          let w1 = w\<lparr>table := d\<rparr>; now = py_now (clk w) in
          if created \<or> status task \<noteq> FAILED \<or> \<not> can_run_again (cfg x) task then ((task, created), w1)
          else if next_retry_at task = None \<or> col_le (next_retry_at task) now then
            (let w2 = g Reopening w1;
                 (reopened, d') = reopen_attempt now (attempt_id task) (table w2)
             in ((if reopened then task\<lparr>status := PENDING\<rparr> else task, created), w2\<lparr>table := d'\<rparr>))
          else ((task, created), w1))"

definition gave_up_amid :: "gaps \<Rightarrow> registry_item \<Rightarrow> task_attempt \<Rightarrow> queue \<Rightarrow> int option \<Rightarrow> bool action" where
  "gave_up_amid g item task policy head w =
     (let w1 = (case (give_up_after_blocks (retry policy), head) of
            (Some after_blocks, Some h) \<Rightarrow>
              let w0 = g SettingDeadline w
              in w0\<lparr>table := set_give_up_deadline (clk w0) (attempt_id task)
                (of_int (after_blocks - (h - block_number task)) * block_time_seconds item) (table w0)\<rparr>
          | _ \<Rightarrow> w);
          w2 = g GivingUp w1;
          (given_up, d) = give_up_if_past_deadline (clk w2) (attempt_id task) (table w2)
      in if \<not> given_up then (Inr False, w2\<lparr>table := d\<rparr>)
         else let w3 = g Refreshing (w2\<lparr>table := d\<rparr>)
              in (case refreshed task (table w3) of
                    Inl e \<Rightarrow> (Inl e, w3) | Inr task' \<Rightarrow> (Inr True, report_given_up task' w3)))"

definition gave_up :: "registry_item \<Rightarrow> task_attempt \<Rightarrow> queue \<Rightarrow> int option \<Rightarrow> bool action" where
  "gave_up = gave_up_amid alone"

definition message_kwargs :: "int \<Rightarrow> bool \<Rightarrow> jdict \<Rightarrow> jdict" where
  "message_kwargs block use_archive args =
     dict_update [(''block_number'', JInt block), (''_use_archive_network'', JBool use_archive)] args"

text \<open>The options \<open>execute\<close> passes to \<open>apply_async\<close>.\<close>

definition submit_options ::
  "registry_item \<Rightarrow> queue \<Rightarrow> instant option \<Rightarrow> instant \<Rightarrow> (string, pyval) dict" where
  "submit_options item policy eta now =
     (let base = (case eta of None \<Rightarrow> [] | Some t \<Rightarrow> [(''eta'', PyTime t)]);
          options = filter (\<lambda>(k, _). k \<notin> {''kwargs'', ''eta'', ''args''}) (celery_kwargs item);
          options = AList.update ''queue'' (PyStr (q_name policy)) options;
          options = dict_update options (message_options policy);
          options = (case message_expiry policy eta now of
            None \<Rightarrow> options | Some t \<Rightarrow> AList.update ''expires'' (PyTime t) options)
      in dict_update base options)"

text \<open>
  The policy of a submission: what the attempt was first submitted under, if that still exists, else
  the queue asked for, else the task's live queue. A task without one has no policy to read.
\<close>

definition submission_policy :: "ctx \<Rightarrow> registry_item \<Rightarrow> task_attempt \<Rightarrow> bool \<Rightarrow> queue option \<Rightarrow> queue option" where
  "submission_policy x item task created queue =
     (let asked = (case queue of Some q \<Rightarrow> Some q | None \<Rightarrow> live_queue item)
      in if created then asked
         else (case get_queue (dispatch_queue task) (queues x) of Some q \<Rightarrow> Some q | None \<Rightarrow> asked))"

text \<open>The end of \<open>execute\<close>: record the dispatch, send the message, count it.\<close>

definition submit_message_amid ::
  "gaps \<Rightarrow> ctx \<Rightarrow> registry_item \<Rightarrow> task_attempt \<Rightarrow> queue \<Rightarrow> int \<Rightarrow> jdict \<Rightarrow> bool \<Rightarrow> bool action" where
  "submit_message_amid g x item task policy block args use_archive w =
     (let w1 = g Dispatching w;
          (task', d) = record_dispatch (clk w1) task (Some (q_name policy)) (Some (q_name policy)) (table w1);
          w2 = g Sending (w1\<lparr>table := d\<rparr>)
      in case apply_async x item (message_kwargs block use_archive args)
              (submit_options item policy (next_retry_at task') (py_now (clk w2))) w2 of
             (Inl e, w3) \<Rightarrow> (Inl e, w3)
           | (Inr _, w3) \<Rightarrow>
               let w4 = increment_tasks_submitted (last_part (item_path item)) w3
               in (Inr True, if use_archive then increment_archive_network_usage w4 else w4))"

definition submit_message ::
  "ctx \<Rightarrow> registry_item \<Rightarrow> task_attempt \<Rightarrow> queue \<Rightarrow> int \<Rightarrow> jdict \<Rightarrow> bool \<Rightarrow> bool action" where
  "submit_message = submit_message_amid alone"

text \<open>\<open>QueueExecutor.execute\<close>.\<close>

definition execute_amid ::
  "gaps \<Rightarrow> ctx \<Rightarrow> registry_item \<Rightarrow> int \<Rightarrow> jdict \<Rightarrow> bool \<Rightarrow> queue option \<Rightarrow> int option \<Rightarrow> bool action" where
  "execute_amid g x item block args use_archive queue head w =
     (case create_or_reopen_amid g x block (item_path item) args w of
        ((task, created), w1) \<Rightarrow>
          if \<not> created \<and> status task \<noteq> PENDING then (Inr False, w1)
          else (case submission_policy x item task created queue of
             None \<Rightarrow> (Inl (AttributeError ''retry''), w1)
           | Some policy \<Rightarrow>
               (case gave_up_amid g item task policy head w1 of
                  (Inl e, w2) \<Rightarrow> (Inl e, w2)
                | (Inr True, w2) \<Rightarrow> (Inr False, w2)
                | (Inr False, w2) \<Rightarrow> submit_message_amid g x item task policy block args use_archive w2)))"

definition execute ::
  "ctx \<Rightarrow> registry_item \<Rightarrow> int \<Rightarrow> jdict \<Rightarrow> bool \<Rightarrow> queue option \<Rightarrow> int option \<Rightarrow> bool action" where
  "execute = execute_amid alone"

definition aged_past_archive_threshold :: "clocks \<Rightarrow> registry_item \<Rightarrow> task_attempt \<Rightarrow> bool" where
  "aged_past_archive_threshold c item task \<longleftrightarrow>
     (py_now c - created_at task) / block_time_seconds item > of_int ARCHIVE_BLOCK_THRESHOLD"

text \<open>
  \<open>redispatch_queue\<close>. A plain queue name has no \<open>name\<close> attribute; an empty one is falsy.
\<close>

definition redispatch_queue :: "ctx \<Rightarrow> registry_item \<Rightarrow> task_attempt \<Rightarrow> queue res" where
  "redispatch_queue x item task =
     (case get_queue (dispatch_queue task) (queues x) of
        Some q \<Rightarrow> Inr q
      | None \<Rightarrow>
          (case backfill_queue item of
             Some (Policy q) \<Rightarrow> Inr q
           | Some (Name n) \<Rightarrow>
               if n \<noteq> [] then Inl (AttributeError ''name'')
               else (case live_queue item of Some q \<Rightarrow> Inr q | None \<Rightarrow> Inl (AttributeError ''name''))
           | None \<Rightarrow> (case live_queue item of Some q \<Rightarrow> Inr q | None \<Rightarrow> Inl (AttributeError ''name''))))"

definition retry_options :: "queue \<Rightarrow> instant \<Rightarrow> instant \<Rightarrow> (string, pyval) dict" where
  "retry_options policy eta now =
     (let options = dict_update [(''eta'', PyTime eta), (''queue'', PyStr (q_name policy))] (message_options policy)
      in (case message_expiry policy (Some eta) now of
            None \<Rightarrow> options | Some t \<Rightarrow> AList.update ''expires'' (PyTime t) options))"

definition retry_kwargs :: "task_attempt \<Rightarrow> jdict \<Rightarrow> bool \<Rightarrow> jdict" where
  "retry_kwargs task args archive =
     (let kwargs = dict_update [(''block_number'', JInt (block_number task))] args
      in if archive then AList.update ''_use_archive_network'' (JBool True) kwargs else kwargs)"

definition dispatch_retry_amid :: "gaps \<Rightarrow> ctx \<Rightarrow> registry_item \<Rightarrow> task_attempt \<Rightarrow> bool \<Rightarrow> bool action" where
  "dispatch_retry_amid g x item task use_archive w =
     (case next_retry_at task of
        None \<Rightarrow> (Inr False, w)
      | Some eta \<Rightarrow>
          (case redispatch_queue x item task of
             Inl e \<Rightarrow> (Inl e, w)
           | Inr policy \<Rightarrow>
               let w0 = g Requeuing w;
                   (requeued, d) = requeue_for_retry (clk w0) (attempt_id task) (q_name policy) (table w0);
                   w1 = w0\<lparr>table := d\<rparr>
               in if \<not> requeued then (Inr False, w1)
                  else let w2 = g Sending w1; archive = use_archive \<or> aged_past_archive_threshold (clk w2) item task in
                  (case stored_args task of
                    Inl e \<Rightarrow> (Inl e, w2)
                  | Inr args \<Rightarrow>
                      (case apply_async x item (retry_kwargs task args archive)
                          (retry_options policy eta (py_now (clk w2))) w2 of
                         (Inl e, w3) \<Rightarrow> (Inl e, w3)
                       | (Inr _, w3) \<Rightarrow>
                           let w4 = record_task_retry (last_part (item_path item)) w3
                           in (Inr True, if archive then increment_archive_network_usage w4 else w4)))))"

definition dispatch_retry :: "ctx \<Rightarrow> registry_item \<Rightarrow> task_attempt \<Rightarrow> bool \<Rightarrow> bool action" where
  "dispatch_retry = dispatch_retry_amid alone"

section \<open>Alone\<close>

lemma create_or_reopen_alone:
  "create_or_reopen_amid alone x block path args w =
     (case create_or_reopen (clk w) (cfg x) block path args (table w) of (res, d) \<Rightarrow> (res, w\<lparr>table := d\<rparr>))"
  by (simp add: create_or_reopen_amid_def create_or_reopen_def Let_def split: prod.split)

text \<open>Nobody deletes the row that was just given up.\<close>

lemma gave_up_alone:
  "gave_up item task policy head w =
     (let d = (case (give_up_after_blocks (retry policy), head) of
            (Some after_blocks, Some h) \<Rightarrow>
              set_give_up_deadline (clk w) (attempt_id task)
                (of_int (after_blocks - (h - block_number task)) * block_time_seconds item) (table w)
          | _ \<Rightarrow> table w);
          (given_up, d') = give_up_if_past_deadline (clk w) (attempt_id task) d
      in if \<not> given_up then (Inr False, w\<lparr>table := d'\<rparr>)
         else (case refreshed task d' of
            Inl e \<Rightarrow> (Inl e, w\<lparr>table := d'\<rparr>) | Inr task' \<Rightarrow> (Inr True, report_given_up task' (w\<lparr>table := d'\<rparr>))))"
  unfolding gave_up_def gave_up_amid_def Let_def alone_def by (auto split: prod.split option.split sum.split)

lemma submit_message_alone:
  "submit_message x item task policy block args use_archive w =
     (case record_dispatch (clk w) task (Some (q_name policy)) (Some (q_name policy)) (table w) of
        (task', d) \<Rightarrow>
          (case apply_async x item (message_kwargs block use_archive args)
              (submit_options item policy (next_retry_at task') (py_now (clk w))) (w\<lparr>table := d\<rparr>) of
             (Inl e, w1) \<Rightarrow> (Inl e, w1)
           | (Inr _, w1) \<Rightarrow>
               let w2 = increment_tasks_submitted (last_part (item_path item)) w1
               in (Inr True, if use_archive then increment_archive_network_usage w2 else w2)))"
  by (simp add: submit_message_def submit_message_amid_def Let_def split: prod.split)

lemma execute_alone:
  "execute x item block args use_archive queue head w =
     (case create_or_reopen (clk w) (cfg x) block (item_path item) args (table w) of
        ((task, created), d) \<Rightarrow>
          if \<not> created \<and> status task \<noteq> PENDING then (Inr False, w\<lparr>table := d\<rparr>)
          else (case submission_policy x item task created queue of
             None \<Rightarrow> (Inl (AttributeError ''retry''), w\<lparr>table := d\<rparr>)
           | Some policy \<Rightarrow>
               (case gave_up item task policy head (w\<lparr>table := d\<rparr>) of
                  (Inl e, w') \<Rightarrow> (Inl e, w')
                | (Inr True, w') \<Rightarrow> (Inr False, w')
                | (Inr False, w') \<Rightarrow> submit_message x item task policy block args use_archive w')))"
  unfolding execute_def execute_amid_def create_or_reopen_alone gave_up_def submit_message_def by (simp split: prod.split)

lemma dispatch_retry_alone:
  "dispatch_retry x item task use_archive w =
     (case next_retry_at task of
        None \<Rightarrow> (Inr False, w)
      | Some eta \<Rightarrow>
          (case redispatch_queue x item task of
             Inl e \<Rightarrow> (Inl e, w)
           | Inr policy \<Rightarrow>
               let (requeued, d) = requeue_for_retry (clk w) (attempt_id task) (q_name policy) (table w);
                   w1 = w\<lparr>table := d\<rparr>;
                   archive = use_archive \<or> aged_past_archive_threshold (clk w) item task
               in if \<not> requeued then (Inr False, w1)
                  else (case stored_args task of
                    Inl e \<Rightarrow> (Inl e, w1)
                  | Inr args \<Rightarrow>
                      (case apply_async x item (retry_kwargs task args archive)
                          (retry_options policy eta (py_now (clk w))) w1 of
                         (Inl e, w2) \<Rightarrow> (Inl e, w2)
                       | (Inr _, w2) \<Rightarrow>
                           let w3 = record_task_retry (last_part (item_path item)) w2
                           in (Inr True, if archive then increment_archive_network_usage w3 else w3)))))"
  unfolding dispatch_retry_def dispatch_retry_amid_def Let_def alone_def by (simp split: option.split sum.split prod.split)

lemma gave_up_result: "\<exists>b. fst (gave_up item task policy head w) = Inr b"
  using refreshed_won [of "attempt_id task" "past_deadline (clk w)" "give_up_write (clk w) BLOCK_AGE" _ task]
  by (fastforce simp: gave_up_alone give_up_if_past_deadline_def Let_def case_prod_beta split: sum.splits)

section \<open>Sending\<close>

definition async_message :: "registry_item \<Rightarrow> jdict \<Rightarrow> (string, pyval) dict \<Rightarrow> message" where
  "async_message item kwargs options = \<lparr>msg_task = item_path item, msg_kwargs = kwargs,
     msg_options = (case live_queue item of None \<Rightarrow> options | Some q \<Rightarrow> live_limits_options q options)\<rparr>"

lemma apply_async_alt:
  "apply_async x item kwargs options w =
    (if broker_accepts x (async_message item kwargs options)
     then (Inr (), w\<lparr>sent := sent w @ [async_message item kwargs options]\<rparr>) else (Inl SendError, w))"
  by (simp add: apply_async_def async_message_def Let_def)

lemma submit_message_result:
  assumes "submit_message x item task policy block args use_archive w = (r, w')"
  defines "m \<equiv> async_message item (message_kwargs block use_archive args)
      (submit_options item policy (next_retry_at task) (py_now (clk w)))"
  shows "table w' = snd (record_dispatch (clk w) task (Some (q_name policy)) (Some (q_name policy)) (table w))"
    and "clk w' = clk w" and "r = (if broker_accepts x m then Inr True else Inl SendError)"
    and "sent w' = (if broker_accepts x m then sent w @ [m] else sent w)"
  using assms(1) unfolding m_def
  by (auto simp: submit_message_alone apply_async_alt record_dispatch_def Let_def split: if_splits)

lemma gave_up_evolves:
  assumes "gave_up item task policy head w = (b, w')"
  shows "evolves x T (table w) (table w') \<and> clk w' = clk w \<and> sent w' = sent w"
proof -
  have step: "evolves x T (table w) (case (give_up_after_blocks (retry policy), head) of
      (Some n, Some h) \<Rightarrow> set_give_up_deadline (clk w) (attempt_id task) (f n h) (table w) | _ \<Rightarrow> table w)" for f
    by (auto intro: evolves_step attempt_step.deadline split: option.splits)
  then show ?thesis
    using assms evolves_trans [OF step evolves_step [OF attempt_step.give_up]]
    by (auto simp: gave_up_alone Let_def case_prod_beta split: if_splits sum.splits)
qed

text \<open>The three ways \<open>execute\<close> goes, after it has recorded the attempt.\<close>

lemma execute_cases:
  assumes "execute x item block args use_archive queue head w = (r, w')"
    and "create_or_reopen (clk w) (cfg x) block (item_path item) args (table w) = ((task, created), d)"
  obtains (held) "\<not> created" "status task \<noteq> PENDING" "r = Inr False" "w' = w\<lparr>table := d\<rparr>"
  | (no_policy) "submission_policy x item task created queue = None"
      "r = Inl (AttributeError ''retry'')" "w' = w\<lparr>table := d\<rparr>"
  | (given_up) policy where "submission_policy x item task created queue = Some policy"
      "gave_up item task policy head (w\<lparr>table := d\<rparr>) = (Inr True, w')" "r = Inr False"
  | (submitted) policy w2 where "created \<or> status task = PENDING"
      "submission_policy x item task created queue = Some policy"
      "gave_up item task policy head (w\<lparr>table := d\<rparr>) = (Inr False, w2)"
      "submit_message x item task policy block args use_archive w2 = (r, w')"
proof -
  show ?thesis
  proof (cases "\<not> created \<and> status task \<noteq> PENDING")
    case True
    then show ?thesis using assms that(1) by (simp add: execute_alone)
  next
    case open_: False
    show ?thesis
    proof (cases "submission_policy x item task created queue")
      case None
      then show ?thesis using assms open_ that(2) by (auto simp: execute_alone)
    next
      case (Some policy)
      obtain b w2 where g: "gave_up item task policy head (w\<lparr>table := d\<rparr>) = (Inr b, w2)"
        using gave_up_result by (metis prod.collapse)
      then show ?thesis using assms open_ Some that(3,4) by (cases b) (auto simp: execute_alone)
    qed
  qed
qed

lemma execute_evolves:
  assumes "execute x item block args use_archive queue head w = (r, w')"
  shows "evolves x T (table w) (table w') \<and> clk w' = clk w"
proof -
  obtain task created d where
    c: "create_or_reopen (clk w) (cfg x) block (item_path item) args (table w) = ((task, created), d)"
    by (metis surj_pair)
  have d: "evolves x T (table w) d"
    using evolves_step [OF attempt_step.create, of x T "table w" "clk w" block "item_path item" args] c by simp
  from assms c show ?thesis
  proof (cases rule: execute_cases)
    case (given_up policy)
    then show ?thesis using d gave_up_evolves [OF given_up(2), of x T] evolves_trans by auto
  next
    case (submitted policy w2)
    have "evolves x T d (table w2)" "clk w2 = clk w"
      using gave_up_evolves [OF submitted(3), of x T] by auto
    moreover have "evolves x T (table w2) (table w')" "clk w' = clk w2"
      using submit_message_result(1,2) [OF submitted(4)] evolves_step [OF attempt_step.dispatch] by auto
    ultimately show ?thesis using d evolves_trans by metis
  qed (use d in auto)
qed

lemma execute_handles: "handles x T (\<lambda>w. snd (execute x item block args use_archive queue head w))"
  by (rule handlesI) (metis execute_evolves prod.collapse)+

lemma dispatch_retry_evolves:
  assumes "dispatch_retry x item task use_archive w = (r, w')"
  shows "evolves x T (table w) (table w') \<and> clk w' = clk w"
proof -
  have req: "evolves x T (table w) (snd (requeue_for_retry (clk w) i q (table w)))" for i q
    by (rule evolves_step) (rule attempt_step.requeue)
  show ?thesis
    using assms req
    by (auto simp: dispatch_retry_alone apply_async_alt Let_def case_prod_beta
        split: option.splits sum.splits if_splits)
qed

lemma dispatch_retry_handles: "handles x T (\<lambda>w. snd (dispatch_retry x item task use_archive w))"
  by (rule handlesI) (metis dispatch_retry_evolves prod.collapse)+

section \<open>Amid others\<close>

lemma get_or_create_evolves: "evolves x T d (snd (get_or_create block path (serialize_args args) (py_now (c :: clocks)) d))"
proof (cases "find_key block path (serialize_args args) d")
  case None
  then have "snd (create_or_reopen c (cfg x) block path args d) = snd (get_or_create block path (serialize_args args) (py_now c) d)"
    by (simp add: create_or_reopen_def get_or_create_def split: prod.split)
  then show ?thesis using evolves_step [OF attempt_step.create] by metis
qed (simp add: get_or_create_def)

lemma create_or_reopen_amid_evolves:
  assumes "others_between x T g" "db_ok (table w)" "create_or_reopen_amid g x block path args w = (res, w')"
  shows "evolves x T (table w) (table w')"
proof -
  obtain task created d where get: "get_or_create block path (serialize_args args) (py_now (clk w)) (table w) = ((task, created), d)"
    by (metis surj_pair)
  have d: "evolves x T (table w) d"
    using get_or_create_evolves [of x T "table w" block path args "clk w"] get by simp
  have "evolves x T (table w) (snd (reopen_attempt now i (table (g Reopening (w\<lparr>table := d\<rparr>)))))" for now i
    using evolves_gap [OF assms(1,2), of "w\<lparr>table := d\<rparr>" Reopening] d evolves_trans
      evolves_step [OF attempt_step.reopen] by fastforce
  then show ?thesis
    using assms(3) get d by (auto simp: create_or_reopen_amid_def Let_def case_prod_beta split: if_splits)
qed

lemma gave_up_amid_evolves:
  assumes "others_between x T g" "db_ok (table w)" "gave_up_amid g item task policy head w = (r, w')"
  shows "evolves x T (table w) (table w')"
proof -
  define w1 where "w1 = (case (give_up_after_blocks (retry policy), head) of
      (Some n, Some h) \<Rightarrow>
        let w0 = g SettingDeadline w
        in w0\<lparr>table := set_give_up_deadline (clk w0) (attempt_id task)
          (of_int (n - (h - block_number task)) * block_time_seconds item) (table w0)\<rparr>
    | _ \<Rightarrow> w)"
  have "evolves x T (table w) (set_give_up_deadline c i t (table (g SettingDeadline w)))" for c i t
    using evolves_gap [OF assms(1,2) evolves_refl] evolves_step [OF attempt_step.deadline] evolves_trans by blast
  then have w1: "evolves x T (table w) (table w1)" by (simp add: w1_def Let_def split: option.split)
  define w2 where "w2 = g GivingUp w1"
  have eq: "gave_up_amid g item task policy head w =
      (let (given_up, d) = give_up_if_past_deadline (clk w2) (attempt_id task) (table w2)
       in if \<not> given_up then (Inr False, w2\<lparr>table := d\<rparr>)
          else let w3 = g Refreshing (w2\<lparr>table := d\<rparr>)
               in (case refreshed task (table w3) of
                     Inl e \<Rightarrow> (Inl e, w3) | Inr task' \<Rightarrow> (Inr True, report_given_up task' w3)))"
    by (simp only: gave_up_amid_def w2_def w1_def Let_def)
  define d where "d = snd (give_up_if_past_deadline (clk w2) (attempt_id task) (table w2))"
  have d: "evolves x T (table w) d"
    using evolves_gap [OF assms(1,2) w1] evolves_step [OF attempt_step.give_up] evolves_trans unfolding d_def w2_def by blast
  have "evolves x T (table w) (table (g Refreshing (w2\<lparr>table := d\<rparr>)))"
    using evolves_gap [OF assms(1,2), of "w2\<lparr>table := d\<rparr>"] d by simp
  then show ?thesis
    using assms(3) d unfolding eq by (auto simp: d_def case_prod_beta Let_def split: if_splits sum.splits)
qed

lemma submit_message_amid_evolves:
  assumes "others_between x T g" "db_ok (table w)" "submit_message_amid g x item task policy block args use_archive w = (r, w')"
  shows "evolves x T (table w) (table w')"
proof -
  define w1 where "w1 = g Dispatching w"
  have "evolves x T (table w) (snd (record_dispatch (clk w1) task (Some q) (Some q) (table w1)))" for q
    using evolves_gap [OF assms(1,2) evolves_refl] evolves_step [OF attempt_step.dispatch] evolves_trans unfolding w1_def by blast
  then have "evolves x T (table w) (table (g Sending (w1\<lparr>table := snd (record_dispatch (clk w1) task (Some q) (Some q) (table w1))\<rparr>)))"
    for q using evolves_gap [OF assms(1,2), of "w1\<lparr>table := _\<rparr>"] by simp
  then show ?thesis
    using assms(3) unfolding submit_message_amid_def w1_def [symmetric]
    by (auto simp: Let_def case_prod_beta apply_async_alt split: if_splits)
qed

lemma execute_amid_takes_steps:
  assumes "others_between x T g"
  shows "takes_steps x T (\<lambda>w. snd (execute_amid g x item block args use_archive queue head w))"
  unfolding takes_steps_def
proof (intro allI impI)
  fix w :: world assume ok: "db_ok (table w)"
  obtain task created w1 where c: "create_or_reopen_amid g x block (item_path item) args w = ((task, created), w1)"
    by (metis surj_pair)
  note w1 = create_or_reopen_amid_evolves [OF assms ok c]
  have ok1: "db_ok (table w1)" using w1 ok by (rule evolves_db_ok)
  have w2: "evolves x T (table w) (table w2)" if "gave_up_amid g item task policy head w1 = (b, w2)" for policy b w2
    using gave_up_amid_evolves [OF assms ok1 that] w1 evolves_trans by blast
  have w3: "evolves x T (table w) (table w3)"
    if "gave_up_amid g item task policy head w1 = (b, w2)" "submit_message_amid g x item task policy block args use_archive w2 = (r, w3)"
    for policy b w2 r w3
    using submit_message_amid_evolves [OF assms evolves_db_ok [OF w2 [OF that(1)] ok] that(2)] w2 [OF that(1)] evolves_trans by blast
  let ?w' = "snd (execute_amid g x item block args use_archive queue head w)"
  show "evolves x T (table w) (table ?w')"
  proof (cases "\<not> created \<and> status task \<noteq> PENDING \<or> submission_policy x item task created queue = None")
    case True
    then have "?w' = w1" by (auto simp: execute_amid_def c)
    then show ?thesis using w1 by simp
  next
    case False
    then obtain policy where policy: "submission_policy x item task created queue = Some policy" by blast
    obtain b w2 where b: "gave_up_amid g item task policy head w1 = (b, w2)" by fastforce
    have "?w' = w2 \<or> ?w' = snd (submit_message_amid g x item task policy block args use_archive w2)"
      using False by (auto simp: execute_amid_def c policy b split: sum.split bool.split)
    then show ?thesis using w2 [OF b] w3 [OF b surjective_pairing] by auto
  qed
qed

lemma dispatch_retry_amid_takes_steps:
  assumes "others_between x T g"
  shows "takes_steps x T (\<lambda>w. snd (dispatch_retry_amid g x item task use_archive w))"
  unfolding takes_steps_def
proof (intro allI impI)
  fix w :: world assume ok: "db_ok (table w)"
  define w0 where "w0 = g Requeuing w"
  have req: "evolves x T (table w) (snd (requeue_for_retry (clk w0) i q (table w0)))" for i q
    using evolves_gap [OF assms ok evolves_refl] evolves_step [OF attempt_step.requeue] evolves_trans unfolding w0_def by blast
  then have "evolves x T (table w) (table (g Sending (w0\<lparr>table := snd (requeue_for_retry (clk w0) i q (table w0))\<rparr>)))" for i q
    using evolves_gap [OF assms ok, of "w0\<lparr>table := _\<rparr>"] by simp
  then show "evolves x T (table w) (table (snd (dispatch_retry_amid g x item task use_archive w)))"
    using req unfolding dispatch_retry_amid_def w0_def [symmetric]
    by (auto simp: Let_def case_prod_beta apply_async_alt split: option.split sum.split if_split)
qed

section \<open>What is sent\<close>

lemma create_or_reopen_row:
  assumes "db_ok d" "create_or_reopen c s block path args d = ((task, created), d')"
  shows "\<exists>r. row (attempt_id task) d' = Some r \<and> attempt_key r = (block, path, serialize_args args) \<and>
    task = r\<lparr>updated_at := updated_at task\<rparr> \<and> (created \<longrightarrow> status r = PENDING)"
proof (cases "find_key block path (serialize_args args) d")
  case None
  then have "task = new_attempt (next_id d) block path (serialize_args args) (py_now c)"
    "d' = snd (insert_attempt block path (serialize_args args) (py_now c) d)"
    using assms(2) by (auto simp: create_or_reopen_def reopen_attempt_def get_or_create_def insert_attempt_def Let_def)
  then show ?thesis using row_insert [OF assms(1)] by simp
next
  case (Some r)
  then have mem: "r \<in> set (attempts d)" and key: "attempt_key r = (block, path, serialize_args args)"
    using find_key_eq_Some [OF assms(1)] by auto
  then have row: "row (attempt_id r) d = Some r" using row_eq_Some [OF assms(1)] by simp
  let ?f = "\<lambda>r. r\<lparr>status := PENDING, updated_at := py_now c\<rparr>"
  let ?reopens = "status r = FAILED \<and> can_run_again s r \<and>
    (next_retry_at r = None \<or> col_le (next_retry_at r) (py_now c))"
  show ?thesis
  proof (cases ?reopens)
    case False
    then have "task = r" "\<not> created" "d' = d"
      using assms(2) Some by (auto simp: create_or_reopen_def reopen_attempt_def get_or_create_def split: if_splits)
    then show ?thesis using row key by simp
  next
    case True
    then have guard: "reopen_guard r" by (simp add: reopen_guard_def can_run_again_def split: if_splits)
    have won: "fst (update_by_id (attempt_id r) reopen_guard ?f d)"
      using update_by_id_won [OF assms(1)] row guard by blast
    then have "task = r\<lparr>status := PENDING\<rparr>" "\<not> created" "d' = snd (update_by_id (attempt_id r) reopen_guard ?f d)"
      using assms(2) Some True
      by (auto simp: create_or_reopen_def reopen_attempt_def get_or_create_def Let_def case_prod_beta split: if_splits)
    moreover have "row (attempt_id r) (snd (update_by_id (attempt_id r) reopen_guard ?f d)) = Some (?f r)"
      using row guard by (simp add: row_update_by_id)
    ultimately show ?thesis using key by (simp add: attempt_key_def)
  qed
qed

lemma gave_up_row:
  assumes "db_ok (table w)" "gave_up item task policy head w = (Inr False, w')"
    and "row (attempt_id task) (table w) = Some r"
  shows "\<exists>t. row (attempt_id task) (table w') = Some (r\<lparr>give_up_at := t\<rparr>) \<and>
    \<not> past_deadline (clk w) (r\<lparr>give_up_at := t\<rparr>)"
proof -
  let ?i = "attempt_id task"
  define d where "d = (case (give_up_after_blocks (retry policy), head) of
      (Some n, Some h) \<Rightarrow> set_give_up_deadline (clk w) ?i
        (of_int (n - (h - block_number task)) * block_time_seconds item) (table w)
    | _ \<Rightarrow> table w)"
  have d: "\<exists>t. row ?i d = Some (r\<lparr>give_up_at := t\<rparr>)" and ok: "db_ok d"
    using assms(1,3)
    by (auto simp: d_def set_give_up_deadline_def row_update_by_id deadline_write_def
        split: option.splits intro: exI [of _ "give_up_at r"])
  then obtain t where t: "row ?i d = Some (r\<lparr>give_up_at := t\<rparr>)" by blast
  have lost: "\<not> fst (give_up_if_past_deadline (clk w) ?i d)"
    and w': "w' = w\<lparr>table := snd (give_up_if_past_deadline (clk w) ?i d)\<rparr>"
    using assms(2) unfolding gave_up_alone Let_def d_def [symmetric]
    by (auto simp: case_prod_beta split: if_splits sum.splits)
  then have "\<not> past_deadline (clk w) (r\<lparr>give_up_at := t\<rparr>)"
    using t update_by_id_won [OF ok] by (simp add: give_up_if_past_deadline_def)
  moreover have "row ?i (table w') = Some (r\<lparr>give_up_at := t\<rparr>)"
    using w' t calculation by (simp add: give_up_if_past_deadline_def row_update_by_id)
  ultimately show ?thesis by blast
qed

lemma submit_options_lookup:
  assumes "distinct (map fst (celery_kwargs item))"
  shows "map_of (submit_options item policy eta now) ''queue'' = Some (PyStr (q_name policy))"
    and "eta = Some t \<Longrightarrow> map_of (submit_options item policy eta now) ''eta'' = Some (PyTime t)"
    and "message_expiry policy eta now = Some e \<Longrightarrow>
      map_of (submit_options item policy eta now) ''expires'' = Some (PyTime e)"
    and "soft_time_limit policy = Some l \<Longrightarrow>
      map_of (submit_options item policy eta now) ''soft_time_limit'' = Some (PyNum l)"
    and "time_limit policy = Some l \<Longrightarrow>
      map_of (submit_options item policy eta now) ''time_limit'' = Some (PyNum l)"
    and "distinct (map fst (submit_options item policy eta now))"
proof -
  define f where "f = filter (\<lambda>(k, _). k \<notin> {''kwargs'', ''eta'', ''args''}) (celery_kwargs item)"
  define q where "q = AList.update ''queue'' (PyStr (q_name policy)) f"
  define m where "m = dict_update q (message_options policy)"
  define o' where "o' = (case message_expiry policy eta now of None \<Rightarrow> m | Some t \<Rightarrow> AList.update ''expires'' (PyTime t) m)"
  define base where "base = (case eta of None \<Rightarrow> [] | Some t \<Rightarrow> [(''eta'', PyTime t)])"
  have opts: "submit_options item policy eta now = dict_update base o'"
    by (simp only: submit_options_def Let_def base_def o'_def m_def q_def f_def)
  have "distinct (map fst f)" using assms unfolding f_def by (rule distinct_map_filter)
  then have m: "distinct (map fst m)" unfolding m_def q_def by (intro distinct_dict_update distinct_update)
  then have o: "distinct (map fst o')" by (auto simp: o'_def distinct_update split: option.splits)
  have eq: "map_of (submit_options item policy eta now) = map_of base ++ map_of o'"
    unfolding opts by (rule map_of_dict_update [OF o])
  have mo: "map_of m = map_of q ++ map_of (message_options policy)"
    unfolding m_def by (rule map_of_dict_update [OF distinct_message_options])
  have "''eta'' \<notin> fst ` set f" by (auto simp: f_def)
  then have "map_of q ''eta'' = None" by (simp add: q_def update_conv' map_of_eq_None_iff)
  then have "map_of m ''eta'' = None" by (simp add: mo map_add_def message_options_def split: option.splits)
  then have oe: "map_of o' ''eta'' = None" by (simp add: o'_def update_conv' split: option.splits)
  have oq: "map_of o' k = map_of m k" if "k \<noteq> ''expires''" for k
    using that by (simp add: o'_def update_conv' split: option.splits)
  show "map_of (submit_options item policy eta now) ''queue'' = Some (PyStr (q_name policy))"
    by (simp add: eq oq mo map_add_def)
  show "eta = Some t \<Longrightarrow> map_of (submit_options item policy eta now) ''eta'' = Some (PyTime t)"
    unfolding eq by (simp add: oe map_add_def base_def)
  show "message_expiry policy eta now = Some e \<Longrightarrow>
      map_of (submit_options item policy eta now) ''expires'' = Some (PyTime e)"
    by (simp add: eq o'_def map_add_def update_conv')
  show "soft_time_limit policy = Some l \<Longrightarrow>
      map_of (submit_options item policy eta now) ''soft_time_limit'' = Some (PyNum l)"
    "time_limit policy = Some l \<Longrightarrow>
      map_of (submit_options item policy eta now) ''time_limit'' = Some (PyNum l)"
    by (auto simp: eq oq mo map_add_def message_options_def split: option.splits)
  show "distinct (map fst (submit_options item policy eta now))"
    unfolding opts by (rule distinct_dict_update) (simp add: base_def split: option.splits)
qed

section \<open>Properties\<close>

text \<open>A registered task whose options form a dictionary, with a live queue.\<close>

definition dumper_item :: "registry_item \<Rightarrow> bool" where
  "dumper_item item \<longleftrightarrow> live_queue item \<noteq> None \<and> distinct (map fst (celery_kwargs item))"

text \<open>A message as the policy \<open>q\<close> wants it, sent at \<open>now\<close> to run at \<open>eta\<close> or at once.\<close>

definition follows_policy :: "queue \<Rightarrow> instant option \<Rightarrow> instant \<Rightarrow> message \<Rightarrow> bool" where
  "follows_policy q eta now m \<longleftrightarrow>
     map_of (msg_options m) ''queue'' = Some (PyStr (q_name q)) \<and>
     (\<forall>t. eta = Some t \<longrightarrow> map_of (msg_options m) ''eta'' = Some (PyTime t)) \<and>
     (\<forall>e. message_expiry q eta now = Some e \<longrightarrow> map_of (msg_options m) ''expires'' = Some (PyTime e)) \<and>
     (\<forall>l. soft_time_limit q = Some l \<longrightarrow> map_of (msg_options m) ''soft_time_limit'' = Some (PyNum l)) \<and>
     (\<forall>l. time_limit q = Some l \<longrightarrow> map_of (msg_options m) ''time_limit'' = Some (PyNum l))"

lemma async_message_keeps:
  assumes "distinct (map fst options)" "map_of options k = Some v"
  shows "map_of (msg_options (async_message item kwargs options)) k = Some v"
  using assms map_of_live_limits by (auto simp: async_message_def split: option.splits)

lemma submit_follows_policy:
  assumes "distinct (map fst (celery_kwargs item))"
  shows "follows_policy q eta now (async_message item kwargs (submit_options item q eta now))"
  using submit_options_lookup [OF assms, where policy = q and eta = eta and now = now] async_message_keeps
  unfolding follows_policy_def by blast

lemma execute_submitted_row:
  assumes "table_ok (table w)"
    and "create_or_reopen (clk w) (cfg x) block (item_path item) args (table w) = ((task, created), d)"
    and "created \<or> status task = PENDING"
    and "gave_up item task policy head (w\<lparr>table := d\<rparr>) = (Inr False, w2)"
    and "submit_message x item task policy block args use_archive w2 = (r, w')"
  shows "\<exists>a. row (attempt_id task) (table w') = Some a \<and>
    attempt_key a = (block, item_path item, serialize_args args) \<and> status a = PENDING \<and>
    dispatch_queue a = Some (q_name policy) \<and> dispatched_at a = Some (db_now (clk w)) \<and>
    next_retry_at a = next_retry_at task \<and> give_up_reason a = None \<and> before_give_up (clk w) a"
proof -
  have ok: "db_ok (table w)" using assms(1) by (simp add: table_ok_def)
  obtain a where a: "row (attempt_id task) d = Some a" "attempt_key a = (block, item_path item, serialize_args args)"
      "task = a\<lparr>updated_at := updated_at task\<rparr>" "created \<longrightarrow> status a = PENDING"
    using create_or_reopen_row [OF ok assms(2)] by blast
  have d: "evolves x {} (table w) d"
    using evolves_step [OF attempt_step.create, of x "{}" "table w" "clk w" block "item_path item" args] assms(2)
    by simp
  have "row_ok a" using evolves_table_ok [OF d assms(1)] a(1) rows_okD by (auto simp: table_ok_def)
  have "status task = status a" by (subst a(3)) simp
  then have pending: "status a = PENDING" using a(4) assms(3) by auto
  have reason: "give_up_reason a = None" using \<open>row_ok a\<close> pending by (auto simp: row_ok_def)
  obtain t where t: "row (attempt_id task) (table w2) = Some (a\<lparr>give_up_at := t\<rparr>)"
      "\<not> past_deadline (clk w) (a\<lparr>give_up_at := t\<rparr>)"
    using gave_up_row [OF _ assms(4)] a(1) evolves_db_ok [OF d ok] by auto
  have clk2: "clk w2 = clk w" using gave_up_evolves [OF assms(4)] by auto
  have "row (attempt_id task) (table w') =
      Some (dispatch_write (clk w) (Some (q_name policy)) (Some (q_name policy)) (a\<lparr>give_up_at := t\<rparr>))"
    using submit_message_result(1) [OF assms(5)] t(1) clk2 by (simp add: record_dispatch_def row_update_by_id)
  moreover have "before_give_up (clk w) (a\<lparr>give_up_at := t\<rparr>)"
    using t(2) pending reason by (cases t) (auto simp: past_deadline_def still_runnable_def before_give_up_def)
  moreover have "next_retry_at task = next_retry_at a" by (subst a(3)) simp
  ultimately show ?thesis
    using a(2) pending reason by (simp add: dispatch_write_def attempt_key_def before_give_up_def)
qed

definition sample_item :: registry_item where
  "sample_item = \<lparr>condition = (\<lambda>_ _. Inr True),
     item_function = \<lparr>func_name = Some ''app.task'', func_module = ''app'', func_dunder_name = ''task''\<rparr>,
     item_args = None, block_source = LATEST_BLOCK_SOURCE, backfilling_lookback = None,
     backfill_queue = None, celery_kwargs = [], live_queue = Some sample_queue, block_time_seconds = 12\<rparr>"

definition sample_ctx :: ctx where
  "sample_ctx = \<lparr>cfg = default_settings, registry = [sample_item],
     queues = [(''archive'', sample_queue)], broker_accepts = (\<lambda>_. True),
     measured = (\<lambda>_ _. 1), interrupted_after = (\<lambda>_. False)\<rparr>"

definition sample_world :: world where
  "sample_world = \<lparr>table = empty_db, clk = sample_clock, sent = [], prometheus = False, metrics = []\<rparr>"

lemma sample_item_ok: "dumper_item sample_item"
  by (simp add: dumper_item_def sample_item_def)

lemma table_ok_empty [simp]: "table_ok empty_db"
  by (simp add: table_ok_def)

text \<open>
  The queue whose policy a submission follows, from the row there was before: the queue that row was last
  sent under, if that is still registered, else the queue asked for, else the task's live queue.
\<close>

definition policy_in_force :: "ctx \<Rightarrow> registry_item \<Rightarrow> queue option \<Rightarrow> task_attempt option \<Rightarrow> queue option" where
  "policy_in_force x item queue before =
     (case before of
        Some r \<Rightarrow> (case get_queue (dispatch_queue r) (queues x) of
            Some q \<Rightarrow> Some q | None \<Rightarrow> (case queue of Some q \<Rightarrow> Some q | None \<Rightarrow> live_queue item))
      | None \<Rightarrow> (case queue of Some q \<Rightarrow> Some q | None \<Rightarrow> live_queue item))"

lemma submission_policy_in_force:
  assumes "create_or_reopen c s block path args d = ((task, created), d')"
  shows "submission_policy x item task created queue =
    policy_in_force x item queue (find_key block path (serialize_args args) d)"
  using assms
  by (cases "find_key block path (serialize_args args) d")
    (auto simp: create_or_reopen_def get_or_create_def insert_attempt_def submission_policy_def policy_in_force_def Let_def
      split: if_splits prod.splits option.splits)

text \<open>
  C22. A submission sends a message exactly when it says so. It then sent one message for this task,
  block and arguments under the policy in force: of the queue the attempt was last sent under, else of the
  queue asked for, else of the live queue, with that policy's routing, ETA, expiry and time limits. The
  attempt is PENDING, not given up and before its give-up deadline, and recorded as sent now to that
  queue. Otherwise nothing was sent.
\<close>

theorem execute_sends_what_it_records:
  assumes "table_ok (table w)" and "dumper_item item"
    and "execute x item block args use_archive queue head w = (r, w')"
  shows "(r \<noteq> Inr True \<and> sent w' = sent w) \<or>
    (r = Inr True \<and> (\<exists>m q a. sent w' = sent w @ [m] \<and> msg_task m = item_path item \<and>
      msg_kwargs m = message_kwargs block use_archive args \<and>
      policy_in_force x item queue (find_key block (item_path item) (serialize_args args) (table w)) = Some q \<and>
      follows_policy q (next_retry_at a) (py_now (clk w)) m \<and>
      find_key block (item_path item) (serialize_args args) (table w') = Some a \<and> status a = PENDING \<and>
      dispatch_queue a = Some (q_name q) \<and> dispatched_at a = Some (db_now (clk w)) \<and>
      give_up_reason a = None \<and> before_give_up (clk w) a))"
proof -
  obtain task created d where
    c: "create_or_reopen (clk w) (cfg x) block (item_path item) args (table w) = ((task, created), d)"
    by (metis surj_pair)
  from assms(3) c show ?thesis
  proof (cases rule: execute_cases)
    case (given_up policy)
    then show ?thesis using gave_up_evolves [OF given_up(2)] by simp
  next
    case (submitted policy w2)
    let ?m = "async_message item (message_kwargs block use_archive args)
      (submit_options item policy (next_retry_at task) (py_now (clk w2)))"
    have w2: "clk w2 = clk w" "sent w2 = sent w" using gave_up_evolves [OF submitted(3)] by auto
    obtain a where a: "row (attempt_id task) (table w') = Some a"
        "attempt_key a = (block, item_path item, serialize_args args)" "status a = PENDING"
        "dispatch_queue a = Some (q_name policy)" "dispatched_at a = Some (db_now (clk w))"
        "next_retry_at a = next_retry_at task" "give_up_reason a = None" "before_give_up (clk w) a"
      using execute_submitted_row [OF assms(1) c submitted(1,3,4)] by blast
    have "db_ok (table w')"
      using execute_evolves [OF assms(3), of "{}"] evolves_db_ok assms(1) unfolding table_ok_def by blast
    then have "find_key block (item_path item) (serialize_args args) (table w') = Some a"
      using find_key_eq_Some a(1,2) row_mem by metis
    moreover have "follows_policy policy (next_retry_at a) (py_now (clk w)) ?m"
      using submit_follows_policy assms(2) a(6) w2(1) by (simp add: dumper_item_def)
    moreover have "msg_task ?m = item_path item" "msg_kwargs ?m = message_kwargs block use_archive args"
      by (simp_all add: async_message_def)
    moreover have "policy_in_force x item queue (find_key block (item_path item) (serialize_args args) (table w)) = Some policy"
      using submitted(2) submission_policy_in_force [OF c] by simp
    ultimately show ?thesis
      using submit_message_result(3,4) [OF submitted(4)] w2(2) a by (auto split: if_splits)
  qed auto
qed

theorem execute_sends_what_it_records_witness:
  "\<exists>w' m. execute sample_ctx sample_item 100 [] False None (Some 100) sample_world = (Inr True, w') \<and>
     sent w' = [m] \<and> msg_task m = ''app.task'' \<and>
     map_of (msg_options m) ''time_limit'' = Some (PyNum (PInt 60)) \<and> (\<exists>e. map_of (msg_options m) ''expires'' = Some (PyTime e))"
proof -
  obtain r w' where e: "execute sample_ctx sample_item 100 [] False None (Some 100) sample_world = (r, w')"
    by fastforce
  have "r = Inr True"
  proof -
    have "fst (execute sample_ctx sample_item 100 [] False None (Some 100) sample_world) = Inr True"
      by (simp add: execute_alone create_or_reopen_def reopen_attempt_def get_or_create_def find_key_def sample_world_def
          empty_db_def insert_attempt_def Let_def submission_policy_def sample_item_def gave_up_alone
          sample_queue_def default_retry_policy_def give_up_if_past_deadline_def update_by_id_def
          count_rows_def update_rows_def past_deadline_def new_attempt_def submit_message_alone
          record_dispatch_def apply_async_def sample_ctx_def)
    with e show ?thesis by simp
  qed
  moreover have "table_ok (table sample_world)" by (simp add: sample_world_def)
  moreover have "policy_in_force sample_ctx sample_item None before = Some q \<Longrightarrow> before = None \<Longrightarrow> q = sample_queue" for before q
    by (simp add: policy_in_force_def sample_item_def)
  moreover have "find_key 100 p a (table sample_world) = None" for p a
    by (simp add: find_key_def sample_world_def empty_db_def)
  ultimately show ?thesis
    using execute_sends_what_it_records [OF _ sample_item_ok e] e
    by (fastforce simp: sample_world_def sample_item_def item_path_def follows_policy_def sample_queue_def message_expiry_def Let_def)
qed

text \<open>
  A submission leaves finished and active work alone: when the attempt already succeeded, is
  running, was given up, or failed and waits for its retry, \<open>execute\<close> returns False and changes nothing.
\<close>

theorem execute_leaves_held_attempts:
  assumes "db_ok (table w)"
    and "find_key block (item_path item) (serialize_args args) (table w) = Some a"
    and "status a = SUCCESS \<or> status a = RUNNING \<or> (status a = FAILED \<and>
      (give_up_reason a \<noteq> None \<or> (\<exists>t. next_retry_at a = Some t \<and> py_now (clk w) < t)))"
  shows "execute x item block args use_archive queue head w = (Inr False, w)"
proof -
  have "create_or_reopen (clk w) (cfg x) block (item_path item) args (table w) = ((a, False), table w)"
    using assms(2,3) by (auto simp: create_or_reopen_def reopen_attempt_def get_or_create_def can_run_again_def)
  then show ?thesis using assms(3) by (auto simp: execute_alone)
qed

theorem execute_leaves_held_attempts_witness:
  "execute sample_ctx sample_item 100 [] False None None (sample_world\<lparr>table := sample_running\<rparr>) =
    (Inr False, sample_world\<lparr>table := sample_running\<rparr>)"
proof -
  have ok: "db_ok sample_running"
    using sample_pending_ok by (simp add: sample_running_def claim_def table_ok_def)
  have "serialize_args [] = ''{}''" by (simp add: serialize_args_def dumps_def)
  then have "find_key 100 (item_path sample_item) (serialize_args []) sample_running =
      Some (claim_write sample_clock ''m1'' (Some 60) (new_attempt 0 100 ''app.task'' ''{}'' 1000))"
    using row_mem [OF sample_running_row] find_key_eq_Some [OF ok]
    by (simp add: item_path_def sample_item_def claim_write_def attempt_key_def new_attempt_def)
  then show ?thesis
    using execute_leaves_held_attempts [of "sample_world\<lparr>table := sample_running\<rparr>" 100 sample_item "[]"] ok
    by simp
qed

text \<open>
  The sweep never sends a second message while the first can still run: when it takes a PENDING
  attempt for expired, the expiry stamped on the attempt's message has passed, as long as the database
  clock and the Python clock drifted apart by no more than the recovery margin since it was sent.
\<close>

theorem recovered_message_has_expired:
  assumes "message_ttl q = Some ttl" and "message_expiry q (next_retry_at r) sent_at = Some e"
    and "dispatch_queue r = Some (q_name q)" and "dispatched_at r = Some recorded_at"
    and "distinct (map fst windows)" and "(q_name q, num ttl + margin) \<in> set windows"
    and "expired_message c windows r"
    and "0 \<le> margin" and "(db_now c - py_now c) - (recorded_at - sent_at) \<le> margin"
  shows "e < py_now c"
proof -
  have "status r = PENDING" using assms(7) by (simp add: expired_message_def)
  from expired_message_unique [OF assms(5,6,3) this, of c] assms(7)
  have exp: "recorded_at < db_now c - (num ttl + margin)"
      "next_retry_at r = None \<or> col_lt (next_retry_at r) (py_now c - (num ttl + margin))"
    using assms(4) by (auto simp: db_now_offset_def)
  show ?thesis
  proof (cases "next_retry_at r")
    case None
    then show ?thesis using assms(1,2,9) exp(1) by (simp add: message_expiry_def Let_def)
  next
    case (Some t)
    then have "t < py_now c - (num ttl + margin)" using exp(2) by simp
    then show ?thesis
      using Some assms(1,2,8,9) exp(1) by (auto simp: message_expiry_def Let_def max_def split: if_splits)
  qed
qed

theorem recovered_message_has_expired_witness:
  "1060 < py_now \<lparr>py_now = 1100, db_now = 1100\<rparr>"
  by (rule recovered_message_has_expired [of sample_queue "PInt 60" sample_dispatched 1000 1060 1000
        "[(''archive'', 70)]" 10])
    (simp_all add: sample_queue_def sample_dispatched_def new_attempt_def message_expiry_def expired_message_def
      db_now_offset_def)

lemma retry_options_lookup:
  "map_of (retry_options policy eta now) ''queue'' = Some (PyStr (q_name policy))"
  "map_of (retry_options policy eta now) ''eta'' = Some (PyTime eta)"
  "message_expiry policy (Some eta) now = Some e \<Longrightarrow>
    map_of (retry_options policy eta now) ''expires'' = Some (PyTime e)"
  "soft_time_limit policy = Some l \<Longrightarrow>
    map_of (retry_options policy eta now) ''soft_time_limit'' = Some (PyNum l)"
  "time_limit policy = Some l \<Longrightarrow> map_of (retry_options policy eta now) ''time_limit'' = Some (PyNum l)"
  "distinct (map fst (retry_options policy eta now))"
  by (auto simp: retry_options_def Let_def update_conv' map_of_dict_update [OF distinct_message_options]
      map_add_def distinct_update distinct_dict_update message_options_def split: option.splits)

lemma retry_follows_policy:
  "follows_policy q (Some eta) now (async_message item kwargs (retry_options q eta now))"
  using retry_options_lookup [where policy = q and eta = eta and now = now] async_message_keeps
  unfolding follows_policy_def by blast

lemma dispatch_retry_sent:
  assumes "db_ok (table w)" "row (attempt_id task) (table w) = Some task"
    and "redispatch_queue x item task = Inr q" "stored_args task = Inr args" "\<forall>m. broker_accepts x m"
    and "reopen_guard task" "next_retry_at task = Some eta"
  shows "\<exists>w'. dispatch_retry x item task use_archive w = (Inr True, w') \<and>
    sent w' = sent w @ [async_message item
      (retry_kwargs task args (use_archive \<or> aged_past_archive_threshold (clk w) item task))
      (retry_options q eta (py_now (clk w)))] \<and>
    row (attempt_id task) (table w') = Some (requeue_write (clk w) (q_name q) task)"
proof -
  have won: "fst (requeue_for_retry (clk w) (attempt_id task) (q_name q) (table w))"
    using update_by_id_won [OF assms(1)] assms(2,6) unfolding requeue_for_retry_def by blast
  have "row (attempt_id task) (snd (requeue_for_retry (clk w) (attempt_id task) (q_name q) (table w))) =
      Some (requeue_write (clk w) (q_name q) task)"
    using assms(2,6) by (simp add: requeue_for_retry_def row_update_by_id)
  then show ?thesis
    using assms(3-5,7) won
    by (simp add: dispatch_retry_alone apply_async_alt Let_def case_prod_beta)
qed

text \<open>
  Sending a retry: for an attempt that failed and was not given up, \<open>dispatch_retry\<close> puts the row
  back to PENDING under the queue it picks and sends one message with the stored arguments, due at the
  attempt's retry time, under that queue's policy; it counts no try. For any other attempt it sends
  nothing and changes nothing.
\<close>

theorem dispatch_retry_sends_due_message:
  assumes "db_ok (table w)" and "row (attempt_id task) (table w) = Some task"
    and "redispatch_queue x item task = Inr q" and "stored_args task = Inr args"
    and "\<forall>m. broker_accepts x m"
  shows "if status task = FAILED \<and> give_up_reason task = None \<and> next_retry_at task \<noteq> None
    then \<exists>w' m a eta. dispatch_retry x item task use_archive w = (Inr True, w') \<and>
      sent w' = sent w @ [m] \<and> next_retry_at task = Some eta \<and>
      follows_policy q (Some eta) (py_now (clk w)) m \<and>
      msg_kwargs m = retry_kwargs task args (use_archive \<or> aged_past_archive_threshold (clk w) item task) \<and>
      row (attempt_id task) (table w') = Some a \<and> status a = PENDING \<and> attempt_count a = attempt_count task \<and>
      dispatch_queue a = Some (q_name q)
    else dispatch_retry x item task use_archive w = (Inr False, w)"
proof (cases "status task = FAILED \<and> give_up_reason task = None \<and> next_retry_at task \<noteq> None")
  case True
  then obtain eta where eta: "next_retry_at task = Some eta" and guard: "reopen_guard task"
    by (auto simp: reopen_guard_def)
  then show ?thesis
    using True dispatch_retry_sent [OF assms guard eta, of use_archive] retry_follows_policy
    by (auto simp: async_message_def) (auto simp: requeue_write_def)
next
  case False
  then have "next_retry_at task = None \<or> \<not> reopen_guard task" by (auto simp: reopen_guard_def)
  then have "dispatch_retry x item task use_archive w = (Inr False, w)"
  proof
    assume no: "\<not> reopen_guard task"
    have "\<not> fst (requeue_for_retry (clk w) (attempt_id task) (q_name q) (table w))"
      "snd (requeue_for_retry (clk w) (attempt_id task) (q_name q) (table w)) = table w"
      using no assms(1,2) by (simp_all add: requeue_for_retry_def update_by_id_won update_by_id_lost)
    then show ?thesis
      using assms(3) by (simp add: dispatch_retry_alone Let_def case_prod_beta split: option.splits)
  qed (simp add: dispatch_retry_alone)
  then show ?thesis using False by auto
qed

definition sample_failed :: task_attempt where
  "sample_failed = (new_attempt 0 100 ''app.task'' ''{}'' 1000)\<lparr>status := FAILED, attempt_count := 1,
     next_retry_at := Some 1005, dispatch_queue := Some ''archive''\<rparr>"

theorem dispatch_retry_sends_due_message_witness:
  "\<exists>w'. dispatch_retry sample_ctx sample_item sample_failed False
     (sample_world\<lparr>table := \<lparr>attempts = [sample_failed], next_id = 1\<rparr>\<rparr>) = (Inr True, w')"
proof -
  let ?w = "sample_world\<lparr>table := \<lparr>attempts = [sample_failed], next_id = 1\<rparr>\<rparr>"
  have "db_ok (table ?w)" "row (attempt_id sample_failed) (table ?w) = Some sample_failed"
    by (simp_all add: db_ok_def row_def sample_failed_def new_attempt_def)
  moreover have "redispatch_queue sample_ctx sample_item sample_failed = Inr sample_queue"
    by (simp add: redispatch_queue_def get_queue_def sample_ctx_def sample_failed_def new_attempt_def)
  moreover have "stored_args sample_failed = Inr []"
    using loads_dumps [of "JDict []"]
    by (simp add: stored_args_def sample_failed_def new_attempt_def args_dict_def dumps_def)
  moreover have "\<forall>m. broker_accepts sample_ctx m" by (simp add: sample_ctx_def)
  ultimately have "\<exists>w'. dispatch_retry sample_ctx sample_item sample_failed False ?w = (Inr True, w')"
    using dispatch_retry_sends_due_message [of ?w sample_failed sample_ctx sample_item sample_queue "[]" False]
    by (auto simp: sample_failed_def new_attempt_def)
  then show ?thesis .
qed

end
