(* ===== verification/Task_Runner.thy ===== *)
theory Task_Runner
  imports Queue_Executor
begin

text \<open>
  The worker side of a \<open>BlockDumper\<close> task (\<open>_internal/services/task_runner.py\<close>): claim the attempt,
  run the function, record the outcome, send the retry. What happens between the statements of a worker
  is a parameter: \<open>before_claim\<close> is what other processes do to the table between the read of the
  attempt and its claim, \<open>meanwhile\<close> what happens to the world while the function runs (the refresh of
  the claimed attempt and the second recording of a failure join the statement before them), \<open>between\<close> what
  happens between the commit of a failure and the statements of its retry.
\<close>

section \<open>The worker's view of a message\<close>

text \<open>\<open>a or b\<close> on optional numbers: 0 is falsy.\<close>

definition py_or :: "seconds option \<Rightarrow> seconds option \<Rightarrow> seconds option" where
  "py_or a b = (case a of None \<Rightarrow> b | Some t \<Rightarrow> if t \<noteq> 0 then a else b)"

text \<open>
  \<open>utils.get_current_time_limit\<close> inside a Celery task, from the limit of the message, of the task and
  of the app.
\<close>

definition get_current_time_limit :: "seconds option \<Rightarrow> seconds option \<Rightarrow> seconds option \<Rightarrow> seconds option" where
  "get_current_time_limit message_limit task_limit app_limit = py_or (py_or message_limit task_limit) app_limit"

text \<open>
  What the decorated function does with its arguments. It may raise an \<open>Exception\<close>, or exit
  (\<open>SystemExit\<close> and other exceptions outside \<open>Exception\<close>).
\<close>

datatype outcome = Returns json | ReturnsUnserializable | Raises exn | Exits string

record task_function =
  fn_module :: string
  fn_name :: string
  accepts_var_keyword :: bool
  body :: "jdict \<Rightarrow> outcome"

definition get_executable_path :: "task_function \<Rightarrow> string" where
  "get_executable_path f = fn_module f @ ''.'' @ fn_name f"

text \<open>
  The delivery of one message: its id (\<open>None\<close> outside a Celery task), the random part of a local
  token, the hard time limit, what others do in the gaps, whether the transaction of the
  function can still commit after it, and how long the function takes.
\<close>

record delivery =
  message_id :: "string option"
  uuid_hex :: string
  hard_limit :: "seconds option"
  before_claim :: "db \<Rightarrow> db"
  meanwhile :: "world \<Rightarrow> world"
  between :: gaps
  usable :: bool
  duration :: seconds

definition claim_token :: "delivery \<Rightarrow> string" where
  "claim_token v = (case message_id v of
     Some m \<Rightarrow> if m \<noteq> [] then m else ''local-'' @ uuid_hex v | None \<Rightarrow> ''local-'' @ uuid_hex v)"

fun truthy :: "json \<Rightarrow> bool" where
  "truthy JNull = False"
| "truthy (JBool b) = b"
| "truthy (JInt i) = (i \<noteq> 0)"
| "truthy (JStr s) = (s \<noteq> [])"
| "truthy (JList xs) = (xs \<noteq> [])"
| "truthy (JDict kvs) = (kvs \<noteq> [])"

definition starts_with_underscore :: "string \<Rightarrow> bool" where
  "starts_with_underscore k \<longleftrightarrow> (case k of [] \<Rightarrow> False | ch # _ \<Rightarrow> ch = CHR ''_'')"

text \<open>\<open>kwargs.pop("_use_archive_network", False)\<close> and the arguments that identify the attempt.\<close>

definition archive_hint :: "jdict \<Rightarrow> json" where
  "archive_hint kwargs = (case map_of kwargs ''_use_archive_network'' of None \<Rightarrow> JBool False | Some v \<Rightarrow> v)"

definition popped :: "jdict \<Rightarrow> jdict" where
  "popped kwargs = filter (\<lambda>(k, _). k \<noteq> ''_use_archive_network'') kwargs"

definition db_kwargs :: "jdict \<Rightarrow> jdict" where
  "db_kwargs kwargs = filter (\<lambda>(k, _). \<not> starts_with_underscore k) (popped kwargs)"

section \<open>Claiming\<close>

definition claim_attempt :: "ctx \<Rightarrow> delivery \<Rightarrow> int \<Rightarrow> string \<Rightarrow> string \<Rightarrow> task_attempt option action" where
  "claim_attempt x v block path args w =
     (let found = find_attempt block path args (table w);
          after_race = (\<lambda>found w.
            case found of
              None \<Rightarrow> (Inl (CeleryTaskLockedError ''TaskAttempt not found''), w)
            | Some task \<Rightarrow>
                if status task = RUNNING
                then (Inl (CeleryTaskLockedError ''Task already being processed by another worker''), w)
                else (Inr None, w))
      in case found of
           Some task \<Rightarrow>
             if status task = PENDING then
               (case lease_seconds (cfg x) (hard_limit v) of
                  Inl e \<Rightarrow> (Inl e, w)
                | Inr lease \<Rightarrow>
                    (case claim (clk w) (attempt_id task) (claim_token v) lease (before_claim v (table w)) of
                       (True, d) \<Rightarrow>
                         (case refreshed task d of
                            Inl e \<Rightarrow> (Inl e, w\<lparr>table := d\<rparr>) | Inr task' \<Rightarrow> (Inr (Some task'), w\<lparr>table := d\<rparr>))
                     | (False, d) \<Rightarrow>
                         (case give_up_if_past_deadline (clk w) (attempt_id task) d of
                            (True, d') \<Rightarrow>
                              (case refreshed task d' of
                                 Inl e \<Rightarrow> (Inl e, w\<lparr>table := d'\<rparr>)
                               | Inr task' \<Rightarrow> (Inr None, report_given_up task' (w\<lparr>table := d'\<rparr>)))
                          | (False, d') \<Rightarrow> after_race (find_attempt block path args d') (w\<lparr>table := d'\<rparr>))))
             else after_race found w
         | None \<Rightarrow> after_race found w)"

section \<open>Recording the outcome\<close>

text \<open>\<open>_finish_failure\<close>: computing the delay may raise.\<close>

definition runner_finish_failure :: "ctx \<Rightarrow> task_attempt \<Rightarrow> string \<Rightarrow> bool action" where
  "runner_finish_failure x task token w =
     (case retry_delay x task of
        Inl e \<Rightarrow> (Inl e, w)
      | Inr delay \<Rightarrow>
          (case finish_failure (clk w) (attempt_id task) token delay (table w) of
             (won, d) \<Rightarrow> (Inr won, w\<lparr>table := d\<rparr>)))"

definition report_failure :: "string \<Rightarrow> seconds \<Rightarrow> world \<Rightarrow> world" where
  "report_failure name taken w = observe_task_execution_time name taken (record_task_execution name ''failed'' w)"

text \<open>\<open>_retry_or_report_given_up\<close>: a failing send is logged, a row that is gone raises.\<close>

definition retry_or_report_given_up :: "gaps \<Rightarrow> ctx \<Rightarrow> task_attempt \<Rightarrow> bool \<Rightarrow> unit action" where
  "retry_or_report_given_up g x task use_archive w =
     (let w1 = g Retrying w in
      case refreshed task (table w1) of
        Inl e \<Rightarrow> (Inl e, w1)
      | Inr task' \<Rightarrow>
          if give_up_reason task' \<noteq> None then (Inr (), report_given_up task' w1)
          else (case get_by_executable_path (executable_path task') (registry x) of
            None \<Rightarrow> (Inr (), w1)
          | Some item \<Rightarrow> (Inr (), snd (dispatch_retry_amid g x item task' use_archive w1))))"

definition record_failure :: "gaps \<Rightarrow> ctx \<Rightarrow> task_attempt \<Rightarrow> string \<Rightarrow> bool \<Rightarrow> unit action" where
  "record_failure g x task token use_archive w =
     (case runner_finish_failure x task token w of
        (Inl e, w1) \<Rightarrow> (Inl e, w1)
      | (Inr False, w1) \<Rightarrow> (Inr (), w1)
      | (Inr True, w1) \<Rightarrow> retry_or_report_given_up g x task use_archive w1)"

text \<open>A JSON column stores Python's \<open>None\<close> as NULL.\<close>

definition stored_result :: "json \<Rightarrow> json option" where
  "stored_result val = (if val = JNull then None else Some val)"

text \<open>
  The transaction around the function: \<open>Committed\<close> with whether the function failed, \<open>TakenOver\<close> when
  the claim was lost (rolled back), \<open>NotCommitted\<close> when an exception left nothing committed, \<open>Escaped\<close>
  when the function exited, which no handler here catches (rolled back).
\<close>

datatype tx_end = Committed bool | TakenOver | NotCommitted bool | Escaped string

definition run_in_transaction ::
  "ctx \<Rightarrow> delivery \<Rightarrow> task_attempt \<Rightarrow> string \<Rightarrow> string \<Rightarrow> outcome \<Rightarrow> world \<Rightarrow> tx_end \<times> world" where
  "run_in_transaction x v task token name out w =
     (case out of
        Raises e \<Rightarrow>
          (let w1 = report_failure name (duration v) w in
           if \<not> usable v then (NotCommitted True, w1)
           else (case runner_finish_failure x task token w1 of
             (Inl e', w2) \<Rightarrow> (NotCommitted True, w1)
           | (Inr True, w2) \<Rightarrow> (Committed True, w2)
           | (Inr False, w2) \<Rightarrow> (TakenOver, w1)))
      | Exits m \<Rightarrow> (Escaped m, w)
      | ReturnsUnserializable \<Rightarrow> (NotCommitted False, w)
      | Returns val \<Rightarrow>
          if \<not> usable v then (NotCommitted False, w)
          else (case finish_success (clk w) (attempt_id task) token (stored_result val) (table w) of
            (True, d) \<Rightarrow> (Committed False, w\<lparr>table := d\<rparr>)
          | (False, d) \<Rightarrow> (TakenOver, w)))"

section \<open>TaskRunner.run\<close>

definition execution_kwargs :: "task_function \<Rightarrow> int \<Rightarrow> jdict \<Rightarrow> jdict" where
  "execution_kwargs f block kwargs =
     (let base = dict_update [(''block_number'', JInt block)] (popped kwargs)
      in if accepts_var_keyword f
         then AList.update ''_use_archive_network'' (archive_hint kwargs) base else base)"

definition run :: "ctx \<Rightarrow> delivery \<Rightarrow> task_function \<Rightarrow> int \<Rightarrow> jdict \<Rightarrow> world \<Rightarrow> (raised + json option) \<times> world" where
  "run x v f block kwargs w =
     (let path = get_executable_path f; token = claim_token v; name = last_part path;
          archive = truthy (archive_hint kwargs);
          failed_run = (\<lambda>res. case res of (Inl e, w') \<Rightarrow> (Inl (Raised e), w') | (Inr _, w') \<Rightarrow> (Inr None, w'))
      in case claim_attempt x v block path (serialize_args (db_kwargs kwargs)) w of
           (Inl e, w1) \<Rightarrow> (Inl (Raised e), w1)
         | (Inr None, w1) \<Rightarrow> (Inr None, w1)
         | (Inr (Some task), w1) \<Rightarrow>
             (let out = body f (execution_kwargs f block kwargs)
              in case run_in_transaction x v task token name out (meanwhile v w1) of
                   (TakenOver, w2) \<Rightarrow> (Inr None, w2)
                 | (Escaped m, w2) \<Rightarrow> (Inl (Exited m), w2)
                 | (NotCommitted failed, w2) \<Rightarrow>
                     failed_run (record_failure (between v) x task token archive
                       (if failed then w2 else report_failure name (duration v) w2))
                 | (Committed True, w2) \<Rightarrow> failed_run (retry_or_report_given_up (between v) x task archive w2)
                 | (Committed False, w2) \<Rightarrow>
                     (case out of
                        Returns val \<Rightarrow> (Inr (Some (JDict [(''result'', val)])), observe_task_execution_time name (duration v)
                          (record_task_execution name ''success'' w2))
                      | _ \<Rightarrow> (Inr None, w2))))"

section \<open>Steps\<close>

lemma lease_set_when_sweeping:
  assumes "sweeping x" "lease_seconds (cfg x) limit = Inr lease"
  shows "lease \<noteq> None"
  using assms by (auto simp: sweeping_def lease_seconds_def split: option.splits if_splits sum.splits)

lemma evolves_row:
  assumes "evolves x T d d'" "db_ok d" "row i d = Some r"
  shows "\<exists>r'. row i d' = Some r' \<and> attempt_key r' = attempt_key r"
  using assms unfolding evolves_def by (rule attempt_steps_row)

lemma evolves_held:
  assumes "evolves x T d d'" "db_ok d" "token \<notin> T" "row i d = Some r"
    "row i d' = Some r'" "held_by token r'"
  shows "held_by token r \<and> attempt_count r' = attempt_count r \<and>
    (dispatch_queue r \<noteq> None \<longrightarrow> dispatch_queue r' \<noteq> None)"
  using assms unfolding evolves_def by (rule attempt_steps_held)

text \<open>What the gaps of a delivery may do: steps of other processes, which hold other tokens.\<close>

definition others_act :: "ctx \<Rightarrow> string set \<Rightarrow> delivery \<Rightarrow> bool" where
  "others_act x T v \<longleftrightarrow> claim_token v \<notin> T \<and>
     (\<forall>d. db_ok d \<longrightarrow> evolves x T d (before_claim v d)) \<and>
     (\<forall>w. db_ok (table w) \<longrightarrow> evolves x T (table w) (table (meanwhile v w))) \<and> others_between x T (between v)"

text \<open>A claim that is won.\<close>

lemma claim_won_row:
  assumes "db_ok d" "claim c i token lease d = (True, d')"
  shows "\<exists>r. row i d' = Some r \<and> held_by token r \<and> (\<exists>r0. row i d = Some r0 \<and> attempt_key r = attempt_key r0)"
proof -
  have won: "fst (claim c i token lease d)" "d' = snd (claim c i token lease d)" using assms(2) by simp_all
  then obtain r where r: "row i d = Some r" "claim_guard c r"
    using update_by_id_won [OF assms(1)] unfolding claim_def by blast
  then have "row i d' = Some (claim_write c token lease r)"
    unfolding won(2) by (simp add: claim_def row_update_by_id)
  then show ?thesis using r(1) by (auto simp: held_by_def claim_write_def attempt_key_def)
qed

lemma claim_attempt_evolves:
  assumes "others_act x T v" "db_ok (table w)" "claim_attempt x v block path args w = (r, w')"
  shows "evolves x (insert (claim_token v) T) (table w) (table w') \<and> clk w' = clk w \<and> sent w' = sent w"
proof (cases "\<exists>task lease. find_attempt block path args (table w) = Some task \<and> status task = PENDING \<and>
    lease_seconds (cfg x) (hard_limit v) = Inr lease")
  case False
  then show ?thesis
    using assms(3) by (auto simp: claim_attempt_def Let_def split: option.splits if_splits sum.splits)
next
  case True
  then obtain task lease where t: "find_attempt block path args (table w) = Some task" "status task = PENDING"
    "lease_seconds (cfg x) (hard_limit v) = Inr lease" by blast
  let ?T = "insert (claim_token v) T" and ?d0 = "before_claim v (table w)"
  obtain b d where cl: "claim (clk w) (attempt_id task) (claim_token v) lease ?d0 = (b, d)" by fastforce
  have "evolves x ?T (table w) ?d0" using assms(1,2) evolves_tokens unfolding others_act_def by blast
  moreover have "evolves x ?T ?d0 d"
    using evolves_step [OF attempt_step.claimed, of "claim_token v" ?T x lease ?d0 "clk w" "attempt_id task"]
      lease_set_when_sweeping [OF _ t(3)] cl by simp
  ultimately have d: "evolves x ?T (table w) d" by (rule evolves_trans)
  obtain g d' where gu: "give_up_if_past_deadline (clk w) (attempt_id task) d = (g, d')" by fastforce
  have "evolves x ?T d d'"
    using evolves_step [OF attempt_step.give_up, of x ?T d "clk w" "attempt_id task"] gu by simp
  then have d': "evolves x ?T (table w) d'" using d evolves_trans by blast
  show ?thesis
    using assms(3) t cl gu d d'
    by (cases b; cases g) (auto simp: claim_attempt_def Let_def split: option.splits if_splits sum.splits)
qed

lemma claim_attempt_won:
  assumes "others_act x T v" "db_ok (table w)" "claim_attempt x v block path args w = (Inr (Some task), w')"
  shows "row (attempt_id task) (table w') = Some task \<and> held_by (claim_token v) task \<and>
    attempt_key task = (block, path, args)"
proof -
  obtain t0 lease d where t: "find_attempt block path args (table w) = Some t0"
    and cl: "claim (clk w) (attempt_id t0) (claim_token v) lease (before_claim v (table w)) = (True, d)"
    and res: "refreshed t0 d = Inr task" "w' = w\<lparr>table := d\<rparr>"
    using assms(3)
    by (auto simp: claim_attempt_def Let_def split: option.splits if_splits sum.splits prod.splits bool.splits)
  let ?d0 = "before_claim v (table w)"
  have ev: "evolves x T (table w) ?d0" using assms(1,2) unfolding others_act_def by blast
  have t0: "row (attempt_id t0) (table w) = Some t0" "attempt_key t0 = (block, path, args)"
    using t find_key_eq_Some [OF assms(2)] row_eq_Some [OF assms(2)] by (auto simp: find_attempt_def)
  obtain r r0 where r: "row (attempt_id t0) d = Some r" "held_by (claim_token v) r"
      "row (attempt_id t0) ?d0 = Some r0" "attempt_key r = attempt_key r0"
    using claim_won_row [OF evolves_db_ok [OF ev assms(2)] cl] by blast
  have "attempt_key r0 = attempt_key t0" using evolves_row [OF ev assms(2) t0(1)] r(3) by auto
  then show ?thesis using r t0(2) res row_id [OF r(1)] by (simp add: refreshed_def)
qed

lemma report_failure_sel [simp]:
  "table (report_failure name taken w) = table w" "clk (report_failure name taken w) = clk w"
  "sent (report_failure name taken w) = sent w"
  by (simp_all add: report_failure_def)

text \<open>
  The state after the function ran: the row may still be held, and then has the same tries and is still
  sent to a queue if it was.
\<close>

definition still_counts :: "db \<Rightarrow> task_attempt \<Rightarrow> string \<Rightarrow> bool" where
  "still_counts d task token \<longleftrightarrow>
     (\<forall>r. row (attempt_id task) d = Some r \<longrightarrow> held_by token r \<longrightarrow>
        attempt_count r = attempt_count task \<and> (dispatch_queue task \<noteq> None \<longrightarrow> dispatch_queue r \<noteq> None))"

lemma runner_finish_failure_evolves:
  assumes "runner_finish_failure x task token w = (r, w')" "still_counts (table w) task token"
  shows "evolves x T (table w) (table w') \<and> clk w' = clk w \<and> sent w' = sent w"
proof (cases "retry_delay x task")
  case (Inl e)
  then show ?thesis using assms(1) by (simp add: runner_finish_failure_def)
next
  case (Inr delay)
  have "may_retry x r" if "row (attempt_id task) (table w) = Some r" "held_by token r" "delay \<noteq> None" for r
    using that assms(2) Inr retry_delay_Some may_retry_count unfolding still_counts_def by blast
  then have "evolves x T (table w) (snd (finish_failure (clk w) (attempt_id task) token delay (table w)))"
    by (intro evolves_step attempt_step.failure)
  then show ?thesis using assms(1) Inr by (auto simp: runner_finish_failure_def case_prod_beta)
qed

lemma retry_or_report_evolves:
  assumes "others_between x T g" "db_ok (table w)"
  shows "evolves x T (table w) (table (snd (retry_or_report_given_up g x task use_archive w)))"
proof -
  have w1: "evolves x T (table w) (table (g Retrying w))" "db_ok (table (g Retrying w))"
    using evolves_gap [OF assms evolves_refl] by blast+
  have "evolves x T (table w) (table (snd (dispatch_retry_amid g x item task' use_archive (g Retrying w))))" for item task'
    using takes_stepsD [OF dispatch_retry_amid_takes_steps [OF assms(1)] w1(2)] w1(1) evolves_trans by blast
  then show ?thesis using w1(1) by (simp add: retry_or_report_given_up_def Let_def split: option.split sum.split)
qed

lemma record_failure_evolves:
  assumes "record_failure g x task token use_archive w = (r, w')" "still_counts (table w) task token"
    and "db_ok (table w)" "others_between x T g"
  shows "evolves x T (table w) (table w')"
proof -
  obtain b w1 where f: "runner_finish_failure x task token w = (b, w1)" by fastforce
  have w1: "evolves x T (table w) (table w1)" using runner_finish_failure_evolves [OF f assms(2)] by blast
  have "evolves x T (table w1) (table (snd (retry_or_report_given_up g x task use_archive w1)))"
    by (rule retry_or_report_evolves [OF assms(4) evolves_db_ok [OF w1 assms(3)]])
  then show ?thesis
    using assms(1) f w1 evolves_trans
    by (auto simp: record_failure_def split: sum.splits bool.splits)
qed

lemma others_between_tokens: "others_between x T g \<Longrightarrow> T \<subseteq> T' \<Longrightarrow> others_between x T' g"
  unfolding others_between_def takes_steps_def using evolves_tokens by blast

lemma run_in_transaction_evolves:
  assumes "run_in_transaction x v task token name out w = (e, w')" "still_counts (table w) task token"
  shows "evolves x T (table w) (table w') \<and> (\<not> (\<exists>failed. e = Committed failed) \<longrightarrow> table w' = table w)"
proof (cases out)
  case (Returns val)
  have "evolves x T (table w) (snd (finish_success (clk w) (attempt_id task) token (stored_result val) (table w)))"
    by (intro evolves_step attempt_step.success)
  then show ?thesis
    using assms(1) Returns by (auto simp: run_in_transaction_def split: if_splits prod.splits bool.splits)
next
  case (Raises e')
  obtain b w2 where f: "runner_finish_failure x task token (report_failure name (duration v) w) = (b, w2)" by fastforce
  have "evolves x T (table w) (table w2)"
    using runner_finish_failure_evolves [OF f] assms(2) by simp
  then show ?thesis
    using assms(1) Raises f
    by (auto simp: run_in_transaction_def Let_def split: if_splits sum.splits bool.splits)
qed (use assms in \<open>auto simp: run_in_transaction_def\<close>)

text \<open>What a worker does after the claim, step by step and as a whole.\<close>

lemma still_counts_meanwhile:
  assumes "others_act x T v" "db_ok (table w)" "claim_attempt x v block path args w = (Inr (Some task), w1)"
  shows "db_ok (table (meanwhile v w1)) \<and> evolves x T (table w1) (table (meanwhile v w1)) \<and>
    still_counts (table (meanwhile v w1)) task (claim_token v)"
proof -
  have "evolves x (insert (claim_token v) T) (table w) (table w1)"
    using claim_attempt_evolves [OF assms] by blast
  then have ok1: "db_ok (table w1)" using evolves_db_ok assms(2) by blast
  have row1: "row (attempt_id task) (table w1) = Some task" using claim_attempt_won [OF assms] by blast
  have m: "evolves x T (table w1) (table (meanwhile v w1))" and tok: "claim_token v \<notin> T"
    using assms(1) ok1 unfolding others_act_def by blast+
  have "still_counts (table (meanwhile v w1)) task (claim_token v)"
    using evolves_held [OF m ok1 tok row1] unfolding still_counts_def by blast
  then show ?thesis using evolves_db_ok [OF m ok1] m by blast
qed

lemma run_after_claim:
  assumes "others_act x T v" "db_ok (table w)" "run x v f block kwargs w = (r, w')"
    and cl: "claim_attempt x v block (get_executable_path f) (serialize_args (db_kwargs kwargs)) w = (c, w1)"
  shows "evolves x (insert (claim_token v) T) (table w1) (table w')"
proof (cases "\<exists>task. c = Inr (Some task)")
  case False
  then show ?thesis using assms(3) cl by (auto simp: run_def Let_def split: sum.splits option.splits)
next
  case True
  then obtain task where task: "c = Inr (Some task)" ..
  let ?T = "insert (claim_token v) T" and ?name = "last_part (get_executable_path f)" and ?w2 = "meanwhile v w1"
  have ok2: "db_ok (table ?w2)" and m: "evolves x T (table w1) (table ?w2)"
    and counts: "still_counts (table ?w2) task (claim_token v)"
    using still_counts_meanwhile [OF assms(1,2) cl [unfolded task]] by blast+
  have w2: "evolves x ?T (table w1) (table ?w2)" using evolves_tokens [OF m] by blast
  have gaps: "others_between x ?T (between v)"
    using assms(1) others_between_tokens [of x T "between v" ?T] by (auto simp: others_act_def)
  define out where "out = body f (execution_kwargs f block kwargs)"
  obtain e w3 where tx: "run_in_transaction x v task (claim_token v) ?name out ?w2 = (e, w3)" by fastforce
  have same: "table w3 = table ?w2" if "\<not> (\<exists>b. e = Committed b)"
    using run_in_transaction_evolves [OF tx counts] that by blast
  have tx_ev: "evolves x ?T (table ?w2) (table w3)"
    using run_in_transaction_evolves [OF tx counts, of ?T] by blast
  have w3: "evolves x ?T (table w1) (table w3)" using evolves_trans [OF w2 tx_ev] .
  have ok3: "db_ok (table w3)" using evolves_db_ok [OF tx_ev ok2] .
  have rec: "evolves x ?T (table w1) (table w4)" if "table w3 = table ?w2" "table wx = table w3"
    "record_failure (between v) x task (claim_token v) a wx = (r', w4)" for wx w4 r' a
    using record_failure_evolves [OF that(3) _ _ gaps] that counts ok3 w3 evolves_trans by metis
  have retry: "evolves x ?T (table w1) (table (snd (retry_or_report_given_up (between v) x task a w3)))" for a
    using retry_or_report_evolves [OF gaps ok3] w3 evolves_trans by blast
  show ?thesis
  proof (cases e)
    case (Committed b)
    obtain rr w4 where rr: "retry_or_report_given_up (between v) x task (truthy (archive_hint kwargs)) w3 = (rr, w4)"
      by fastforce
    have "evolves x ?T (table w1) (table w4)" using retry [of "truthy (archive_hint kwargs)"] rr by simp
    then show ?thesis
      using assms(3) cl task tx w3 rr Committed
      by (cases b) (auto simp: run_def Let_def out_def [symmetric] split: outcome.splits sum.splits)
  next
    case TakenOver
    then show ?thesis using assms(3) cl task tx w3 by (simp add: run_def Let_def out_def [symmetric])
  next
    case (Escaped m)
    then show ?thesis using assms(3) cl task tx w3 by (simp add: run_def Let_def out_def [symmetric])
  next
    case (NotCommitted failed)
    obtain r4 w4 where rf: "record_failure (between v) x task (claim_token v) (truthy (archive_hint kwargs))
        (if failed then w3 else report_failure ?name (duration v) w3) = (r4, w4)" by fastforce
    have "w' = w4" using assms(3) cl task tx NotCommitted rf
      by (auto simp: run_def Let_def out_def [symmetric] split: sum.splits)
    then show ?thesis using rec [OF _ _ rf] same NotCommitted by simp
  qed
qed

lemma run_evolves:
  assumes "others_act x T v" "db_ok (table w)" "run x v f block kwargs w = (r, w')"
  shows "evolves x (insert (claim_token v) T) (table w) (table w')"
proof -
  obtain c w1 where cl: "claim_attempt x v block (get_executable_path f) (serialize_args (db_kwargs kwargs)) w = (c, w1)"
    by fastforce
  show ?thesis
    using evolves_trans [OF _ run_after_claim [OF assms cl]] claim_attempt_evolves [OF assms(1,2) cl] by blast
qed

text \<open>
  A worker may die: after it claimed the attempt, or after the transaction of the function and before
  the retry is sent. The transaction itself is atomic.
\<close>

definition died_claimed :: "ctx \<Rightarrow> delivery \<Rightarrow> task_function \<Rightarrow> int \<Rightarrow> jdict \<Rightarrow> world \<Rightarrow> world" where
  "died_claimed x v f block kwargs w =
     snd (claim_attempt x v block (get_executable_path f) (serialize_args (db_kwargs kwargs)) w)"

definition died_committed :: "ctx \<Rightarrow> delivery \<Rightarrow> task_function \<Rightarrow> int \<Rightarrow> jdict \<Rightarrow> world \<Rightarrow> world" where
  "died_committed x v f block kwargs w =
     (case claim_attempt x v block (get_executable_path f) (serialize_args (db_kwargs kwargs)) w of
        (Inr (Some task), w1) \<Rightarrow>
          snd (run_in_transaction x v task (claim_token v) (last_part (get_executable_path f))
            (body f (execution_kwargs f block kwargs)) (meanwhile v w1))
      | (_, w1) \<Rightarrow> w1)"

lemma died_evolves:
  assumes "others_act x T v" "db_ok (table w)"
  shows "evolves x (insert (claim_token v) T) (table w) (table (died_claimed x v f block kwargs w))"
    and "evolves x (insert (claim_token v) T) (table w) (table (died_committed x v f block kwargs w))"
proof -
  let ?T = "insert (claim_token v) T"
  obtain c w1 where cl: "claim_attempt x v block (get_executable_path f) (serialize_args (db_kwargs kwargs)) w = (c, w1)"
    by fastforce
  have w1: "evolves x ?T (table w) (table w1)" using claim_attempt_evolves [OF assms cl] by blast
  then show "evolves x ?T (table w) (table (died_claimed x v f block kwargs w))"
    by (simp add: died_claimed_def cl)
  have "evolves x ?T (table w) (table (snd (run_in_transaction x v task (claim_token v) name out (meanwhile v w1))))"
    if "c = Inr (Some task)" for task name out
    using still_counts_meanwhile [OF assms cl [unfolded that]] run_in_transaction_evolves [OF surjective_pairing]
      evolves_trans [OF w1] evolves_trans evolves_tokens [of x T _ _ ?T] by (metis subset_insertI)
  then show "evolves x ?T (table w) (table (died_committed x v f block kwargs w))"
    using w1 by (simp add: died_committed_def cl split: sum.splits option.splits)
qed

section \<open>Properties\<close>

text \<open>How \<open>run\<close> goes on once the attempt is claimed.\<close>

lemma run_claimed:
  assumes "claim_attempt x v block (get_executable_path f) (serialize_args (db_kwargs kwargs)) w = (Inr (Some task), w1)"
  shows "run x v f block kwargs w =
    (let name = last_part (get_executable_path f); archive = truthy (archive_hint kwargs);
         out = body f (execution_kwargs f block kwargs)
     in case run_in_transaction x v task (claim_token v) name out (meanwhile v w1) of
          (TakenOver, w2) \<Rightarrow> (Inr None, w2)
        | (Escaped m, w2) \<Rightarrow> (Inl (Exited m), w2)
        | (NotCommitted failed, w2) \<Rightarrow>
            (case record_failure (between v) x task (claim_token v) archive
                (if failed then w2 else report_failure name (duration v) w2) of
               (Inl e, w4) \<Rightarrow> (Inl (Raised e), w4) | (Inr _, w4) \<Rightarrow> (Inr None, w4))
        | (Committed True, w2) \<Rightarrow>
            (case retry_or_report_given_up (between v) x task archive w2 of
               (Inl e, w4) \<Rightarrow> (Inl (Raised e), w4) | (Inr _, w4) \<Rightarrow> (Inr None, w4))
        | (Committed False, w2) \<Rightarrow>
            (case out of
               Returns val \<Rightarrow> (Inr (Some (JDict [(''result'', val)])), observe_task_execution_time name (duration v)
                          (record_task_execution name ''success'' w2))
             | _ \<Rightarrow> (Inr None, w2)))"
  using assms by (simp add: run_def Let_def split: prod.splits tx_end.splits)

lemma finish_lost:
  assumes "db_ok d" "\<not> (\<exists>r. row i d = Some r \<and> held_by token r)"
  shows "finish_success c i token val d = (False, d)" "finish_failure c i token delay d = (False, d)"
  using assms
  by (simp_all add: finish_success_def finish_failure_def prod_eq_iff update_by_id_lost update_by_id_won)

lemma finish_won:
  assumes "db_ok d" "row i d = Some r" "held_by token r"
  shows "fst (finish_success c i token val d)" "fst (finish_failure c i token delay d)"
    "row i (snd (finish_success c i token val d)) = Some (success_write c val r)"
    "row i (snd (finish_failure c i token delay d)) = Some (failure_write c delay r)"
  using assms by (simp_all add: finish_success_def finish_failure_def update_by_id_won row_update_by_id)

lemma runner_finish_failure_lost:
  assumes "db_ok (table w)" "\<not> (\<exists>r. row (attempt_id task) (table w) = Some r \<and> held_by token r)"
  shows "\<exists>r. runner_finish_failure x task token w = (r, w) \<and> r \<noteq> Inr True"
  using finish_lost(2) [OF assms] by (auto simp: runner_finish_failure_def split: sum.splits)

lemma record_failure_lost:
  assumes "db_ok (table w)" "\<not> (\<exists>r. row (attempt_id task) (table w) = Some r \<and> held_by token r)"
  shows "\<exists>r. record_failure g x task token a w = (r, w)"
  using runner_finish_failure_lost [OF assms, of x]
  by (auto simp: record_failure_def split: sum.splits bool.splits)

lemma run_in_transaction_lost:
  assumes "db_ok (table w)" "\<not> (\<exists>r. row (attempt_id task) (table w) = Some r \<and> held_by token r)"
    and "run_in_transaction x v task token name out w = (e, w')"
  shows "table w' = table w \<and> sent w' = sent w \<and> (\<forall>b. e \<noteq> Committed b)"
proof (cases out)
  case (Returns val)
  then show ?thesis
    using assms(3) finish_lost(1) [OF assms(1,2)] by (auto simp: run_in_transaction_def split: if_splits)
next
  case (Raises e')
  then show ?thesis
    using assms(3) runner_finish_failure_lost [of "report_failure name (duration v) w" task token x] assms(1,2)
    by (auto simp: run_in_transaction_def Let_def split: if_splits sum.splits bool.splits)
qed (use assms(3) in \<open>auto simp: run_in_transaction_def\<close>)

text \<open>A message for block 100 delivered to a worker, with what happens while the function runs.\<close>

definition sample_delivery :: "(world \<Rightarrow> world) \<Rightarrow> delivery" where
  "sample_delivery m = \<lparr>message_id = Some ''m1'', uuid_hex = [], hard_limit = Some 60,
     before_claim = (\<lambda>d. d), meanwhile = m, between = alone, usable = True, duration = 1\<rparr>"

definition sample_function :: "outcome \<Rightarrow> task_function" where
  "sample_function out = \<lparr>fn_module = ''app'', fn_name = ''task'', accepts_var_keyword = False, body = (\<lambda>_. out)\<rparr>"

definition sample_task :: task_attempt where
  "sample_task = claim_write sample_clock ''m1'' (Some 70) (new_attempt 0 100 ''app.task'' ''{}'' 1000)"

definition sample_claimed_world :: world where
  "sample_claimed_world = sample_world\<lparr>table := snd (claim sample_clock 0 ''m1'' (Some 70) sample_pending)\<rparr>"

lemma sample_claim:
  "claim_attempt sample_ctx (sample_delivery m) 100 (get_executable_path (sample_function out))
     (serialize_args (db_kwargs [])) (sample_world\<lparr>table := sample_pending\<rparr>) =
   (Inr (Some sample_task), sample_claimed_world)"
proof -
  have find: "find_attempt 100 (get_executable_path (sample_function out)) (serialize_args (db_kwargs []))
      sample_pending = Some (new_attempt 0 100 ''app.task'' ''{}'' 1000)"
    by (simp add: find_attempt_def find_key_def sample_pending_def get_executable_path_def sample_function_def
        db_kwargs_def popped_def serialize_args_def dumps_def)
  have lease: "lease_seconds (cfg sample_ctx) (Some 60) = Inr (Some 70)"
    by (simp add: lease_seconds_def recovery_margin_seconds_def sample_ctx_def default_settings_def)
  have ok: "db_ok sample_pending" using sample_pending_ok by (simp add: table_ok_def)
  have guard: "claim_guard sample_clock (new_attempt 0 100 ''app.task'' ''{}'' 1000)"
    by (simp add: claim_guard_def before_give_up_def new_attempt_def)
  have won: "fst (claim sample_clock 0 ''m1'' (Some 70) sample_pending)"
    using update_by_id_won [OF ok] sample_pending_row guard unfolding claim_def by blast
  have row: "row 0 (snd (claim sample_clock 0 ''m1'' (Some 70) sample_pending)) = Some sample_task"
    using sample_pending_row guard by (simp add: claim_def row_update_by_id sample_task_def)
  show ?thesis
    using find lease won row
    by (simp add: claim_attempt_def Let_def sample_delivery_def claim_token_def sample_world_def
        sample_claimed_world_def refreshed_def case_prod_beta)
qed

lemma sample_claimed_row: "row 0 (table sample_claimed_world) = Some sample_task"
  using sample_pending_row
  by (simp add: sample_claimed_world_def claim_def row_update_by_id sample_task_def
      claim_guard_def before_give_up_def) (simp add: new_attempt_def)

lemma sample_claimed_ok: "db_ok (table sample_claimed_world)"
  using sample_pending_ok by (simp add: sample_claimed_world_def claim_def table_ok_def)

lemma sample_task_sel [simp]:
  "attempt_id sample_task = 0" "held_by ''m1'' sample_task" "attempt_count sample_task = 1"
  "executable_path sample_task = ''app.task''" "dispatch_queue sample_task = None"
  "args_json sample_task = ''{}''" "give_up_at sample_task = None"
  by (simp_all add: sample_task_def claim_write_def new_attempt_def held_by_def)

text \<open>
  C23. A worker whose attempt was taken over while its function ran leaves no trace: whatever the
  function did, \<open>run\<close> reports no success, sends no message and leaves the attempt table as the others
  left it.
\<close>

theorem taken_over_run_changes_nothing:
  assumes "claim_attempt x v block (get_executable_path f) (serialize_args (db_kwargs kwargs)) w = (Inr (Some task), w1)"
    and "db_ok (table (meanwhile v w1))"
    and "\<not> (\<exists>r. row (attempt_id task) (table (meanwhile v w1)) = Some r \<and> held_by (claim_token v) r)"
    and "run x v f block kwargs w = (res, w')"
  shows "table w' = table (meanwhile v w1) \<and> sent w' = sent (meanwhile v w1) \<and> (\<forall>val. res \<noteq> Inr (Some val))"
proof -
  define out where "out = body f (execution_kwargs f block kwargs)"
  let ?name = "last_part (get_executable_path f)"
  obtain e w2 where tx: "run_in_transaction x v task (claim_token v) ?name out (meanwhile v w1) = (e, w2)"
    by fastforce
  note lost = run_in_transaction_lost [OF assms(2,3) tx]
  have rec: "\<exists>r. record_failure (between v) x task (claim_token v) a w3 = (r, w3)" if "table w3 = table w2" for a w3
    using record_failure_lost [of w3] that lost assms(2,3) by simp
  show ?thesis
    using assms(4) lost tx rec [of w2 "truthy (archive_hint kwargs)"]
      rec [of "report_failure ?name (duration v) w2" "truthy (archive_hint kwargs)"]
    unfolding run_claimed [OF assms(1)] Let_def out_def [symmetric]
    by (cases e) (auto split: if_splits sum.splits)
qed

theorem taken_over_run_changes_nothing_witness:
  "let v = sample_delivery (\<lambda>w. w\<lparr>table := snd (fail_expired_lease \<lparr>py_now = 2000, db_now = 2000\<rparr> 0 None (table w))\<rparr>)
   in \<forall>val. fst (run sample_ctx v (sample_function (Returns (JInt 1))) 100 []
      (sample_world\<lparr>table := sample_pending\<rparr>)) \<noteq> Inr (Some val)"
proof -
  let ?c = "\<lparr>py_now = 2000, db_now = 2000\<rparr> :: clocks"
  let ?v = "sample_delivery (\<lambda>w. w\<lparr>table := snd (fail_expired_lease ?c 0 None (table w))\<rparr>)"
  have late: "lease_expired ?c sample_task"
    by (simp add: lease_expired_def sample_task_def claim_write_def sample_clock_def db_now_offset_def)
  have ok: "db_ok (table (meanwhile ?v sample_claimed_world))"
    using sample_claimed_ok by (simp add: sample_delivery_def fail_expired_lease_def)
  have "row 0 (table (meanwhile ?v sample_claimed_world)) = Some (failure_write ?c None sample_task)"
    using sample_claimed_row late by (simp add: sample_delivery_def fail_expired_lease_def row_update_by_id)
  then have lost: "\<not> (\<exists>r. row (attempt_id sample_task) (table (meanwhile ?v sample_claimed_world)) = Some r \<and>
      held_by (claim_token ?v) r)"
    by (auto simp: held_by_def)
  show ?thesis
    using taken_over_run_changes_nothing [OF sample_claim ok lost] by (simp add: prod_eq_iff)
qed

text \<open>
  C24. A successful run is recorded: while the claim is still held, a function that returns a value
  makes the attempt SUCCESS with that value as its result and no retry ahead, the worker returns the
  value, and no message is sent.
\<close>

theorem successful_run_is_recorded:
  assumes "claim_attempt x v block (get_executable_path f) (serialize_args (db_kwargs kwargs)) w = (Inr (Some task), w1)"
    and "db_ok (table (meanwhile v w1))"
    and "row (attempt_id task) (table (meanwhile v w1)) = Some r" and "held_by (claim_token v) r"
    and "usable v" and "body f (execution_kwargs f block kwargs) = Returns val"
  shows "\<exists>w' a. run x v f block kwargs w = (Inr (Some (JDict [(''result'', val)])), w') \<and>
    row (attempt_id task) (table w') = Some a \<and> status a = SUCCESS \<and>
    execution_result a = stored_result val \<and> next_retry_at a = None \<and> lease_expires_at a = None \<and>
    attempt_count a = attempt_count r \<and> sent w' = sent (meanwhile v w1)"
proof -
  let ?w2 = "meanwhile v w1"
  let ?fin = "finish_success (clk ?w2) (attempt_id task) (claim_token v) (stored_result val) (table ?w2)"
  note won = finish_won [OF assms(2-4), of "clk ?w2"]
  have "run_in_transaction x v task (claim_token v) name (Returns val) ?w2 =
      (Committed False, ?w2\<lparr>table := snd ?fin\<rparr>)" for name
    using assms(5) won(1) [of "stored_result val"]
    by (simp add: run_in_transaction_def case_prod_beta)
  then show ?thesis
    using won(3) [of "stored_result val"] unfolding run_claimed [OF assms(1)] Let_def assms(6)
    by (simp add: success_write_def)
qed

theorem successful_run_is_recorded_witness:
  "fst (run sample_ctx (sample_delivery (\<lambda>w. w)) (sample_function (Returns (JInt 1))) 100 []
     (sample_world\<lparr>table := sample_pending\<rparr>)) = Inr (Some (JDict [(''result'', JInt 1)]))"
proof -
  let ?v = "sample_delivery (\<lambda>w. w)"
  have "db_ok (table (meanwhile ?v sample_claimed_world))"
    "row (attempt_id sample_task) (table (meanwhile ?v sample_claimed_world)) = Some sample_task"
    using sample_claimed_ok sample_claimed_row by (simp_all add: sample_delivery_def)
  from successful_run_is_recorded [OF sample_claim this, of "Returns (JInt 1)" "JInt 1"] show ?thesis
    by (auto simp: sample_delivery_def claim_token_def sample_function_def)
qed

text \<open>
  C25. A failed run is recorded and retried, or given up. Let the claim be held and the transaction usable
  after the function, the retry rules give a delay or none, the task still be registered, the broker
  accept messages, and nobody act between the commit of the failure and its retry. Then a function that
  raises an \<open>Exception\<close> does not make the worker raise. With no tries left, or when the retry would start past the
  give-up deadline, the attempt is given up and nothing is sent. Otherwise the attempt is PENDING again
  and one message is sent, due after the delay of the retry rules. A function that exits makes the worker
  exit: the attempt stays claimed with its lease and nothing is sent.
\<close>

theorem failed_run_is_retried_or_given_up:
  assumes "claim_attempt x v block (get_executable_path f) (serialize_args (db_kwargs kwargs)) w = (Inr (Some task), w1)"
    and "db_ok (table (meanwhile v w1))"
    and "row (attempt_id task) (table (meanwhile v w1)) = Some r" and "held_by (claim_token v) r"
    and "usable v" and "between v = alone"
    and "retry_delay x task = Inr delay"
    and "get_by_executable_path (executable_path r) (registry x) = Some item"
    and "redispatch_queue x item r = Inr q" and "stored_args r = Inr args" and "\<forall>m. broker_accepts x m"
  defines "c \<equiv> clk (meanwhile v w1)" and "out \<equiv> body f (execution_kwargs f block kwargs)"
  shows "(out = Raises err \<longrightarrow>
      (\<exists>w' a. run x v f block kwargs w = (Inr None, w') \<and> row (attempt_id task) (table w') = Some a \<and>
    attempt_count a = attempt_count r \<and>
    (case delay of
       None \<Rightarrow> status a = FAILED \<and> give_up_reason a = Some ATTEMPTS \<and> sent w' = sent (meanwhile v w1)
     | Some secs \<Rightarrow>
         if too_late c secs r
         then status a = FAILED \<and> give_up_reason a = Some BLOCK_AGE \<and> sent w' = sent (meanwhile v w1)
         else status a = PENDING \<and> dispatch_queue a = Some (q_name q) \<and>
           (\<exists>m. sent w' = sent (meanwhile v w1) @ [m] \<and> follows_policy q (Some (py_now c + secs)) (py_now c) m)))) \<and>
    (out = Exits msg \<longrightarrow> run x v f block kwargs w = (Inl (Exited msg), meanwhile v w1))"
    (is "(_ \<longrightarrow> ?recorded) \<and> _")
proof (intro conjI impI)
  assume "out = Exits msg"
  then show "run x v f block kwargs w = (Inl (Exited msg), meanwhile v w1)"
    unfolding run_claimed [OF assms(1)] Let_def out_def by (simp add: run_in_transaction_def)
next
  assume "out = Raises err"
  then have raised: "body f (execution_kwargs f block kwargs) = Raises err" by (simp add: out_def)
  let ?w2 = "meanwhile v w1" and ?name = "last_part (get_executable_path f)"
  define w3 where "w3 = (report_failure ?name (duration v) ?w2)\<lparr>table :=
    snd (finish_failure c (attempt_id task) (claim_token v) delay (table ?w2))\<rparr>"
  let ?a = "failure_write c delay r"
  note won = finish_won [OF assms(2-4), of c]
  have "run_in_transaction x v task (claim_token v) ?name (Raises err) ?w2 = (Committed True, w3)"
    using assms(5,7) won(2) [of delay]
    by (simp add: run_in_transaction_def runner_finish_failure_def c_def w3_def Let_def case_prod_beta)
  then have run: "run x v f block kwargs w =
      (case retry_or_report_given_up alone x task (truthy (archive_hint kwargs)) w3 of
         (Inl e, w4) \<Rightarrow> (Inl (Raised e), w4) | (Inr _, w4) \<Rightarrow> (Inr None, w4))"
    unfolding run_claimed [OF assms(1)] Let_def raised assms(6) by simp
  have id: "attempt_id r = attempt_id task" using row_id [OF assms(3)] .
  have row: "row (attempt_id task) (table w3) = Some ?a" using won(4) [of delay] by (simp add: w3_def)
  have frame: "sent w3 = sent ?w2" "clk w3 = c" by (simp_all add: w3_def c_def)
  have ref: "refreshed task (table w3) = Inr ?a" using row by (simp add: refreshed_def)
  have path: "executable_path ?a = executable_path r" and cnt: "attempt_count ?a = attempt_count r"
    by (simp_all add: failure_write_def failure_fields_def split: option.splits)
  show ?recorded
  proof (cases "give_up_reason ?a")
    case (Some reason)
    then have "retry_or_report_given_up alone x task (truthy (archive_hint kwargs)) w3 = (Inr (), report_given_up ?a w3)"
      by (simp add: retry_or_report_given_up_def ref Let_def)
    then show ?thesis
      using run row cnt Some frame
      by (auto simp: failure_write_def failure_fields_def too_late_def split: option.splits if_splits)
  next
    case None
    then obtain secs where secs: "delay = Some secs" "\<not> too_late c secs r"
      by (cases delay) (auto simp: failure_write_def failure_fields_def too_late_def split: if_splits)
    then have eta: "next_retry_at ?a = Some (py_now c + secs)"
      by (simp add: failure_write_def failure_fields_def too_late_def)
    have ok: "db_ok (table w3)" using assms(2) by (simp add: w3_def finish_failure_def)
    have ida: "attempt_id ?a = attempt_id task"
      using id by (simp add: failure_write_def failure_fields_def split: option.splits)
    have same: "redispatch_queue x item ?a = Inr q" "stored_args ?a = Inr args"
      using assms(9,10)
      by (simp_all add: redispatch_queue_def stored_args_def failure_write_def failure_fields_def split: option.splits)
    have guard: "reopen_guard ?a" using None by (simp add: reopen_guard_def)
    from dispatch_retry_sent [OF ok _ same assms(11) guard eta, of "truthy (archive_hint kwargs)"] row ida
    obtain w' m where w': "dispatch_retry x item ?a (truthy (archive_hint kwargs)) w3 = (Inr True, w')"
        "sent w' = sent w3 @ [m]" "follows_policy q (Some (py_now c + secs)) (py_now (clk w3)) m"
        "row (attempt_id task) (table w') = Some (requeue_write (clk w3) (q_name q) ?a)"
      using retry_follows_policy by fastforce
    have "retry_or_report_given_up alone x task (truthy (archive_hint kwargs)) w3 = (Inr (), w')"
      using None w'(1) assms(8) path by (simp add: retry_or_report_given_up_def ref Let_def dispatch_retry_def)
    then show ?thesis
      using run w' secs cnt frame by (auto simp: requeue_write_def)
  qed
qed

theorem failed_run_is_retried_or_given_up_witness:
  "\<exists>w' m. run sample_ctx (sample_delivery (\<lambda>w. w)) (sample_function (Raises (UserError ''boom''))) 100 []
     (sample_world\<lparr>table := sample_pending\<rparr>) = (Inr None, w') \<and> sent w' = [m]"
proof -
  let ?v = "sample_delivery (\<lambda>w. w)" and ?f = "sample_function (Raises (UserError ''boom''))"
  have ok: "db_ok (table (meanwhile ?v sample_claimed_world))"
    "row (attempt_id sample_task) (table (meanwhile ?v sample_claimed_world)) = Some sample_task"
    using sample_claimed_ok sample_claimed_row by (simp_all add: sample_delivery_def)
  have delay: "retry_delay sample_ctx sample_task = Inr (Some 60)"
    by (simp add: retry_delay_def retries_for_def get_queue_def sample_ctx_def settings_allows_retry_def
        get_max_attempt_limit_def default_settings_def get_retry_delay_seconds_def settings_retry_policy_def
        uses_staged_settings_def legacy_retry_policy_def staged_delay_seconds_def max_delay_seconds_def)
  have item: "get_by_executable_path (executable_path sample_task) (registry sample_ctx) = Some sample_item"
    by (simp add: sample_ctx_def item_path_def sample_item_def)
  have q: "redispatch_queue sample_ctx sample_item sample_task = Inr sample_queue"
    by (simp add: redispatch_queue_def get_queue_def sample_item_def)
  have args: "stored_args sample_task = Inr []"
    using loads_dumps [of "JDict []"] by (simp add: stored_args_def args_dict_def dumps_def)
  have acc: "\<forall>m. broker_accepts sample_ctx m" by (simp add: sample_ctx_def)
  have held: "held_by (claim_token ?v) sample_task" by (simp add: sample_delivery_def claim_token_def)
  have alone: "usable ?v" "between ?v = alone" and body: "body ?f (execution_kwargs ?f 100 []) = Raises (UserError ''boom'')"
    by (simp_all add: sample_delivery_def sample_function_def)
  show ?thesis
    using conjunct1 [OF failed_run_is_retried_or_given_up [where f = ?f and err = "UserError ''boom''",
        OF sample_claim ok held alone delay item q args acc]] body
    by (auto simp: too_late_def sample_delivery_def sample_claimed_world_def sample_world_def)
qed

end
