(* ===== verification/Reconciler.thy ===== *)
theory Reconciler
  imports Queue_Executor
begin

text \<open>
  Recovery of \<open>BlockDumper\<close> attempts nothing is carrying (\<open>_internal/services/reconciler.py\<close>):
  expired leases, expired messages, stuck attempts, in this order and at most \<open>limit\<close> of them.
  \<open>locked\<close> says which rows other transactions hold (\<open>select_for_update(skip_locked=True)\<close> passes
  over them).
\<close>

definition needs_archive :: "task_attempt \<Rightarrow> int option \<Rightarrow> bool" where
  "needs_archive task head =
     (case head of None \<Rightarrow> False | Some h \<Rightarrow> h - block_number task > ARCHIVE_BLOCK_THRESHOLD)"

text \<open>
  Every recovery is the run of its statements with gaps between them (\<^typ>\<open>gaps\<close>); the versions without
  \<open>_amid\<close> are runs nobody interferes with. First, what follows the failure of an expired lease.
\<close>

definition after_lease_failed :: "gaps \<Rightarrow> ctx \<Rightarrow> int option \<Rightarrow> task_attempt \<Rightarrow> bool action" where
  "after_lease_failed g x head task w =
     (let name = last_part (executable_path task); w1 = record_task_lease_expired name w
      in if give_up_reason task \<noteq> None then (Inr False, report_given_up task w1)
         else (case get_by_executable_path (executable_path task) (registry x) of
           None \<Rightarrow> (Inr False, w1)
         | Some item \<Rightarrow>
             (case dispatch_retry_amid g x item task (needs_archive task head) w1 of
                (Inr True, w2) \<Rightarrow> (Inr True, record_task_recovered name RUNNING w2)
              | (res, w2) \<Rightarrow> (res, w2))))"

definition recover_expired_lease_amid :: "gaps \<Rightarrow> ctx \<Rightarrow> int option \<Rightarrow> nat \<Rightarrow> bool action" where
  "recover_expired_lease_amid g x head i w =
     (let w0 = g Recovering w in
      case row i (table w0) of
        None \<Rightarrow> (Inr False, w0)
      | Some task \<Rightarrow>
          (case retry_delay x task of
             Inl e \<Rightarrow> (Inl e, w0)
           | Inr delay \<Rightarrow>
               (let w1 = g FailingLease w0 in
                case fail_expired_lease (clk w1) i delay (table w1) of
                  (False, d) \<Rightarrow> (Inr False, w1\<lparr>table := d\<rparr>)
                | (True, d) \<Rightarrow>
                    let w2 = g Refreshing (w1\<lparr>table := d\<rparr>)
                    in (case refreshed task (table w2) of
                          Inl e \<Rightarrow> (Inl e, w2)
                        | Inr task' \<Rightarrow> after_lease_failed g x head task' w2))))"

text \<open>Both kinds of re-dispatch hand the stored arguments and the picked queue to \<open>execute\<close>.\<close>

definition redispatch_amid ::
  "gaps \<Rightarrow> ctx \<Rightarrow> registry_item \<Rightarrow> task_attempt \<Rightarrow> status \<Rightarrow> int option \<Rightarrow> bool action" where
  "redispatch_amid g x item task previous head w =
     (case (stored_args task, redispatch_queue x item task) of
        (Inr args, Inr q) \<Rightarrow>
          (case execute_amid g x item (block_number task) args (needs_archive task head) (Some q) head (g Redispatching w) of
             (Inr True, w') \<Rightarrow>
               (Inr True, record_task_recovered (last_part (executable_path task)) previous w')
           | (res, w') \<Rightarrow> (res, w'))
      | (Inl e, _) \<Rightarrow> (Inl e, w)
      | (_, Inl e) \<Rightarrow> (Inl e, w))"

definition redispatch :: "ctx \<Rightarrow> registry_item \<Rightarrow> task_attempt \<Rightarrow> status \<Rightarrow> int option \<Rightarrow> bool action" where
  "redispatch = redispatch_amid alone"

definition recover_expired_lease :: "ctx \<Rightarrow> int option \<Rightarrow> nat \<Rightarrow> bool action" where
  "recover_expired_lease = recover_expired_lease_amid alone"

definition recover_expired_message_amid ::
  "gaps \<Rightarrow> ctx \<Rightarrow> (string, seconds) dict \<Rightarrow> int option \<Rightarrow> nat \<Rightarrow> bool action" where
  "recover_expired_message_amid g x ttl_windows head i w =
     (let w0 = g Recovering w in
      case row i (table w0) of
        None \<Rightarrow> (Inr False, w0)
      | Some task \<Rightarrow>
          (case get_by_executable_path (executable_path task) (registry x) of
             None \<Rightarrow> (Inr False, w0)
           | Some item \<Rightarrow>
               (let w1 = g ClaimingMessage w0 in
                case claim_expired_message (clk w1) i ttl_windows (table w1) of
                  (False, d) \<Rightarrow> (Inr False, w1\<lparr>table := d\<rparr>)
                | (True, d) \<Rightarrow> redispatch_amid g x item task PENDING head (w1\<lparr>table := d\<rparr>))))"

definition recover_expired_message ::
  "ctx \<Rightarrow> (string, seconds) dict \<Rightarrow> int option \<Rightarrow> nat \<Rightarrow> bool action" where
  "recover_expired_message = recover_expired_message_amid alone"

text \<open>
  The row lock is held from the read of a stuck attempt to the commit of its reset, so nobody acts between these.
\<close>

definition recover_stuck_task_amid ::
  "gaps \<Rightarrow> ctx \<Rightarrow> (nat \<Rightarrow> bool) \<Rightarrow> instant \<Rightarrow> string list \<Rightarrow> int option \<Rightarrow> nat \<Rightarrow> bool action" where
  "recover_stuck_task_amid g x locked stale_before ttl_queues head i w =
     (let w0 = g Recovering w in
      case (if locked i then None else row i (table w0)) of
        None \<Rightarrow> (Inr False, w0)
      | Some task \<Rightarrow>
          if \<not> queue_is_stuck (cfg x) task stale_before ttl_queues then (Inr False, w0)
          else (case get_by_executable_path (executable_path task) (registry x) of
             None \<Rightarrow> (Inr False, w0)
           | Some item \<Rightarrow>
               (case reset_to_pending (clk w0) task (table w0) of
                  (task', d) \<Rightarrow> redispatch_amid g x item task' (status task) head (w0\<lparr>table := d\<rparr>))))"

definition recover_stuck_task ::
  "ctx \<Rightarrow> (nat \<Rightarrow> bool) \<Rightarrow> instant \<Rightarrow> string list \<Rightarrow> int option \<Rightarrow> nat \<Rightarrow> bool action" where
  "recover_stuck_task = recover_stuck_task_amid alone"

text \<open>One turn of a recovery loop: exceptions are logged and cost only that attempt.\<close>

definition sweep_one :: "(nat \<Rightarrow> bool action) \<Rightarrow> nat \<Rightarrow> nat \<times> world \<Rightarrow> nat \<times> world" where
  "sweep_one recover i acc =
     (case acc of (n, w) \<Rightarrow>
       (case recover i w of (Inr True, w') \<Rightarrow> (Suc n, w') | (_, w') \<Rightarrow> (n, w')))"

definition ttl_windows :: "ctx \<Rightarrow> (string, seconds) dict res" where
  "ttl_windows x =
     (let with_ttl = concat (map (\<lambda>(n, q). case message_ttl q of None \<Rightarrow> [] | Some t \<Rightarrow> [(q_name q, num t)]) (queues x))
      in if with_ttl = [] then Inr []
         else (case recovery_margin_seconds (cfg x) of
           Inl e \<Rightarrow> Inl e | Inr margin \<Rightarrow> Inr (dict_update [] (map (\<lambda>(n, t). (n, t + margin)) with_ttl))))"

text \<open>The whole sweep; \<open>gs i\<close> are the gaps in the recovery of the attempt \<open>i\<close>.\<close>

definition reconcile_amid ::
  "gaps \<Rightarrow> (nat \<Rightarrow> gaps) \<Rightarrow> ctx \<Rightarrow> (nat \<Rightarrow> bool) \<Rightarrow> seconds option \<Rightarrow> int \<Rightarrow> int option \<Rightarrow> nat action" where
  "reconcile_amid g gs x locked stale_after limit head w =
     (let paths = dumper_paths (registry x) in
      if paths = [] then (Inr 0, w)
      else
        let expired_ids = expired_lease_ids (clk w) limit paths (table w);
            (n1, w1) = fold (\<lambda>i. sweep_one (recover_expired_lease_amid (gs i) x head) i) expired_ids (0, w)
        in (case ttl_windows x of
              Inl e \<Rightarrow> (Inl e, w1)
            | Inr windows \<Rightarrow>
                let w1 = g LookingForMessages w1;
                    message_ids = expired_message_ids (clk w1) windows (limit - int (length expired_ids)) paths (table w1);
                    (n2, w2) = fold (\<lambda>i. sweep_one (recover_expired_message_amid (gs i) x windows head) i) message_ids (n1, w1)
                in (case stale_after of
                      None \<Rightarrow> (Inr n2, w2)
                    | Some secs \<Rightarrow>
                        let w2 = g LookingForStuck w2;
                            stale_before = py_now (clk w2) - secs;
                            remaining = limit - int (length expired_ids) - int (length message_ids);
                            stuck_ids = stuck_attempt_ids (cfg x) stale_before remaining paths (map fst windows) (table w2);
                            (n3, w3) = fold (\<lambda>i. sweep_one
                              (recover_stuck_task_amid (gs i) x locked stale_before (map fst windows) head) i)
                              stuck_ids (n2, w2)
                        in (Inr n3, w3))))"

definition reconcile :: "ctx \<Rightarrow> (nat \<Rightarrow> bool) \<Rightarrow> seconds option \<Rightarrow> int \<Rightarrow> int option \<Rightarrow> nat action" where
  "reconcile = reconcile_amid alone (\<lambda>_. alone)"

section \<open>Alone\<close>

lemma recover_expired_lease_alone:
  "recover_expired_lease x head i w =
     (case row i (table w) of
        None \<Rightarrow> (Inr False, w)
      | Some task \<Rightarrow>
          (case retry_delay x task of
             Inl e \<Rightarrow> (Inl e, w)
           | Inr delay \<Rightarrow>
               (case fail_expired_lease (clk w) i delay (table w) of
                  (False, d) \<Rightarrow> (Inr False, w\<lparr>table := d\<rparr>)
                | (True, d) \<Rightarrow>
                    (case refreshed task d of
                       Inl e \<Rightarrow> (Inl e, w\<lparr>table := d\<rparr>)
                     | Inr task' \<Rightarrow> after_lease_failed alone x head task' (w\<lparr>table := d\<rparr>)))))"
  unfolding recover_expired_lease_def recover_expired_lease_amid_def Let_def alone_id
  by (simp split: option.split sum.split prod.split bool.split)

lemma redispatch_alone:
  "redispatch x item task previous head w =
     (case (stored_args task, redispatch_queue x item task) of
        (Inr args, Inr q) \<Rightarrow>
          (case execute x item (block_number task) args (needs_archive task head) (Some q) head w of
             (Inr True, w') \<Rightarrow>
               (Inr True, record_task_recovered (last_part (executable_path task)) previous w')
           | (res, w') \<Rightarrow> (res, w'))
      | (Inl e, _) \<Rightarrow> (Inl e, w)
      | (_, Inl e) \<Rightarrow> (Inl e, w))"
  unfolding redispatch_def redispatch_amid_def execute_def alone_id ..

lemma recover_expired_message_alone:
  "recover_expired_message x windows head i w =
     (case row i (table w) of
        None \<Rightarrow> (Inr False, w)
      | Some task \<Rightarrow>
          (case get_by_executable_path (executable_path task) (registry x) of
             None \<Rightarrow> (Inr False, w)
           | Some item \<Rightarrow>
               (case claim_expired_message (clk w) i windows (table w) of
                  (False, d) \<Rightarrow> (Inr False, w\<lparr>table := d\<rparr>)
                | (True, d) \<Rightarrow> redispatch x item task PENDING head (w\<lparr>table := d\<rparr>))))"
  unfolding recover_expired_message_def recover_expired_message_amid_def redispatch_def Let_def alone_id
  by (simp split: option.split)

lemma recover_stuck_task_alone:
  "recover_stuck_task x locked stale_before ttl_queues head i w =
     (case (if locked i then None else row i (table w)) of
        None \<Rightarrow> (Inr False, w)
      | Some task \<Rightarrow>
          if \<not> queue_is_stuck (cfg x) task stale_before ttl_queues then (Inr False, w)
          else (case get_by_executable_path (executable_path task) (registry x) of
             None \<Rightarrow> (Inr False, w)
           | Some item \<Rightarrow>
               (case reset_to_pending (clk w) task (table w) of
                  (task', d) \<Rightarrow> redispatch x item task' (status task) head (w\<lparr>table := d\<rparr>))))"
  unfolding recover_stuck_task_def recover_stuck_task_amid_def redispatch_def Let_def alone_id
  by (simp split: option.split)

lemma reconcile_alone:
  "reconcile x locked stale_after limit head w =
     (let paths = dumper_paths (registry x) in
      if paths = [] then (Inr 0, w)
      else
        let expired_ids = expired_lease_ids (clk w) limit paths (table w);
            (n1, w1) = fold (sweep_one (recover_expired_lease x head)) expired_ids (0, w)
        in (case ttl_windows x of
              Inl e \<Rightarrow> (Inl e, w1)
            | Inr windows \<Rightarrow>
                let message_ids = expired_message_ids (clk w1) windows (limit - int (length expired_ids)) paths (table w1);
                    (n2, w2) = fold (sweep_one (recover_expired_message x windows head)) message_ids (n1, w1)
                in (case stale_after of
                      None \<Rightarrow> (Inr n2, w2)
                    | Some secs \<Rightarrow>
                        let stale_before = py_now (clk w2) - secs;
                            remaining = limit - int (length expired_ids) - int (length message_ids);
                            stuck_ids = stuck_attempt_ids (cfg x) stale_before remaining paths (map fst windows) (table w2);
                            (n3, w3) = fold (sweep_one (recover_stuck_task x locked stale_before (map fst windows) head))
                              stuck_ids (n2, w2)
                        in (Inr n3, w3))))"
  unfolding reconcile_def reconcile_amid_def recover_expired_lease_def recover_expired_message_def recover_stuck_task_def
    Let_def alone_id ..

section \<open>Steps\<close>

lemma redispatch_handles: "handles x T (\<lambda>w. snd (redispatch x item task previous head w))"
proof (rule handlesI)
  fix w :: world
  have "evolves x T (table w) (table (snd (redispatch x item task previous head w))) \<and>
      clk (snd (redispatch x item task previous head w)) = clk w"
    using execute_evolves [of x item "block_number task" _ "needs_archive task head" _ head w _ _ T]
    by (auto simp: redispatch_alone split: sum.splits prod.splits bool.splits)
  then show "evolves x T (table w) (table (snd (redispatch x item task previous head w)))"
    and "clk (snd (redispatch x item task previous head w)) = clk w" by simp_all
qed

lemma after_lease_failed_takes_steps:
  assumes "others_between x T g"
  shows "takes_steps x T (\<lambda>w. snd (after_lease_failed g x head task w))"
  unfolding takes_steps_def
proof (intro allI impI)
  fix w :: world assume ok: "db_ok (table w)"
  have "evolves x T (table w) (table (snd (dispatch_retry_amid g x item task a (record_task_lease_expired name w))))" for item a name
    using takes_stepsD [OF dispatch_retry_amid_takes_steps [OF assms], of "record_task_lease_expired name w" item task a] ok
    by simp
  then show "evolves x T (table w) (table (snd (after_lease_failed g x head task w)))"
    by (auto simp: after_lease_failed_def Let_def split: option.split prod.split sum.split bool.split)
      (metis snd_conv)+
qed

lemma after_lease_failed_handles: "handles x T (\<lambda>w. snd (after_lease_failed alone x head task w))"
proof (rule handlesI)
  fix w :: world assume ok: "db_ok (table w)"
  show "evolves x T (table w) (table (snd (after_lease_failed alone x head task w)))"
    using takes_stepsD [OF after_lease_failed_takes_steps [OF others_alone] ok] by blast
  have "clk (snd (dispatch_retry x item task a (record_task_lease_expired name w))) = clk w" for item a name
    using dispatch_retry_evolves [of x item task a "record_task_lease_expired name w"]
    by (metis emit_sel(2) prod.collapse record_task_lease_expired_def)
  then show "clk (snd (after_lease_failed alone x head task w)) = clk w"
    unfolding after_lease_failed_def dispatch_retry_def [symmetric]
    by (auto simp: Let_def split: option.split prod.split sum.split bool.split) (metis snd_conv)+
qed

text \<open>
  The delay a failed lease gets was computed from the row as it was read. It is the delay of the row that is
  written when no further claim was made, and expired, in between.
\<close>

definition no_second_lease :: "nat \<Rightarrow> (world \<Rightarrow> world) \<Rightarrow> bool" where
  "no_second_lease i h \<longleftrightarrow> (\<forall>w r r'. row i (table w) = Some r \<longrightarrow> row i (table (h w)) = Some r' \<longrightarrow>
     lease_expired (clk (h w)) r' \<longrightarrow> attempt_count r' = attempt_count r)"

lemma row_step_sent: "row_step s R sw T r r' \<Longrightarrow> dispatch_queue r \<noteq> None \<Longrightarrow> dispatch_queue r' \<noteq> None"
  by (induction rule: row_step.induct) (auto simp: write_defs reset_write_def split: option.splits)

lemma evolves_sent:
  assumes "evolves x T d d'" "db_ok d" "row i d = Some r" "row i d' = Some r'" "dispatch_queue r \<noteq> None"
  shows "dispatch_queue r' \<noteq> None"
  using assms(1,4) unfolding evolves_def
proof (induction arbitrary: r' rule: rtranclp_induct)
  case base
  then show ?case using assms(3,5) by simp
next
  case (step y z)
  have ok: "db_ok y" using step.hyps(1) assms(2) by (rule attempt_steps_db_ok)
  obtain ry where ry: "row i y = Some ry" using attempt_steps_row [OF step.hyps(1) assms(2,3)] by blast
  show ?case
    using attempt_step_row [OF step.hyps(2) ok ry] step.prems step.IH [OF ry] row_step_sent by (metis option.inject)
qed

lemma recover_expired_lease_amid_takes_steps:
  assumes "others_between x T g" "no_second_lease i (g FailingLease)"
  shows "takes_steps x T (\<lambda>w. snd (recover_expired_lease_amid g x head i w))"
  unfolding takes_steps_def
proof (intro allI impI)
  fix w :: world assume ok: "db_ok (table w)"
  define w0 where "w0 = g Recovering w"
  define w1 where "w1 = g FailingLease w0"
  have w0: "evolves x T (table w) (table w0)" "db_ok (table w0)"
    using evolves_gap [OF assms(1) ok evolves_refl] unfolding w0_def by blast+
  have w01: "evolves x T (table w0) (table w1)" "db_ok (table w1)"
    using evolves_gap [OF assms(1) w0(2) evolves_refl] unfolding w1_def by blast+
  have w1: "evolves x T (table w) (table w1)" using w0(1) w01(1) by (rule evolves_trans)
  show "evolves x T (table w) (table (snd (recover_expired_lease_amid g x head i w)))"
  proof (cases "\<exists>task delay. row i (table w0) = Some task \<and> retry_delay x task = Inr delay")
    case False
    then show ?thesis
      using w0(1) unfolding recover_expired_lease_amid_def w0_def [symmetric]
      by (auto simp: Let_def split: option.split sum.split)
  next
    case True
    then obtain task delay where t: "row i (table w0) = Some task" "retry_delay x task = Inr delay" by blast
    define d where "d = snd (fail_expired_lease (clk w1) i delay (table w1))"
    have "may_retry x r" if r: "row i (table w1) = Some r" "lease_expired (clk w1) r" "delay \<noteq> None" for r
    proof -
      have "attempt_count r = attempt_count task"
        using assms(2) t(1) r(1,2) unfolding no_second_lease_def w1_def by blast
      moreover have "may_retry x task" using t(2) r(3) retry_delay_Some by auto
      ultimately show ?thesis using may_retry_count evolves_sent [OF w01(1) w0(2) t(1) r(1)] by blast
    qed
    then have "evolves x T (table w1) d" unfolding d_def by (intro evolves_step attempt_step.lease) blast
    then have d: "evolves x T (table w) d" using w1 evolves_trans by blast
    define w2 where "w2 = g Refreshing (w1\<lparr>table := d\<rparr>)"
    have w2: "evolves x T (table w) (table w2)" "db_ok (table w2)"
      using evolves_gap [OF assms(1) ok, of "w1\<lparr>table := d\<rparr>" Refreshing] d unfolding w2_def by auto
    have "evolves x T (table w) (table (snd (after_lease_failed g x head task' w2)))" for task'
      using takes_stepsD [OF after_lease_failed_takes_steps [OF assms(1)] w2(2)] w2(1) evolves_trans by blast
    then show ?thesis
      using t d w2(1) unfolding recover_expired_lease_amid_def
      by (auto simp: Let_def case_prod_beta w2_def d_def w1_def w0_def split: bool.split sum.split)
  qed
qed

lemma recover_expired_lease_handles: "handles x T (\<lambda>w. snd (recover_expired_lease x head i w))"
proof (rule handlesI)
  fix w :: world assume ok: "db_ok (table w)"
  have "no_second_lease i (alone FailingLease)" by (simp add: no_second_lease_def)
  from takes_stepsD [OF recover_expired_lease_amid_takes_steps [OF others_alone this] ok]
  show "evolves x T (table w) (table (snd (recover_expired_lease x head i w)))" unfolding recover_expired_lease_def by blast
  have "clk (snd (after_lease_failed alone x head task (w\<lparr>table := snd (fail_expired_lease (clk w) i delay (table w))\<rparr>))) = clk w"
    for task delay
    using handlesD [OF after_lease_failed_handles, of "w\<lparr>table := snd (fail_expired_lease (clk w) i delay (table w))\<rparr>" x T head task] ok
    by (simp add: fail_expired_lease_def)
  then show "clk (snd (recover_expired_lease x head i w)) = clk w"
    by (simp add: recover_expired_lease_alone case_prod_beta del: alone_id split: option.split sum.split bool.split)
qed

lemma redispatch_amid_takes_steps:
  assumes "others_between x T g"
  shows "takes_steps x T (\<lambda>w. snd (redispatch_amid g x item task previous head w))"
  unfolding takes_steps_def
proof (intro allI impI)
  fix w :: world assume ok: "db_ok (table w)"
  let ?w1 = "g Redispatching w"
  have w1: "evolves x T (table w) (table ?w1)" "db_ok (table ?w1)"
    using evolves_gap [OF assms ok evolves_refl] by blast+
  have "evolves x T (table w) (table (snd (execute_amid g x item b args a q head ?w1)))" for b args a q
    using takes_stepsD [OF execute_amid_takes_steps [OF assms] w1(2)] w1(1) evolves_trans by blast
  then show "evolves x T (table w) (table (snd (redispatch_amid g x item task previous head w)))"
    by (auto simp: redispatch_amid_def split: sum.split prod.split bool.split) (metis snd_conv)+
qed

lemma recover_expired_message_amid_takes_steps:
  assumes "others_between x T g"
  shows "takes_steps x T (\<lambda>w. snd (recover_expired_message_amid g x windows head i w))"
  unfolding takes_steps_def
proof (intro allI impI)
  fix w :: world assume ok: "db_ok (table w)"
  define w0 where "w0 = g Recovering w"
  define w1 where "w1 = g ClaimingMessage w0"
  define d where "d = snd (claim_expired_message (clk w1) i windows (table w1))"
  have w0: "evolves x T (table w) (table w0)" "db_ok (table w0)"
    using evolves_gap [OF assms ok evolves_refl] unfolding w0_def by blast+
  have w1: "evolves x T (table w) (table w1)"
    using evolves_gap [OF assms ok w0(1)] unfolding w1_def by blast
  have d: "evolves x T (table w) d"
    using w1 evolves_step [OF attempt_step.message] evolves_trans unfolding d_def by blast
  have "evolves x T (table w) (table (snd (redispatch_amid g x item task st head (w1\<lparr>table := d\<rparr>))))" for item task st
    using takes_stepsD [OF redispatch_amid_takes_steps [OF assms], of "w1\<lparr>table := d\<rparr>" item task st head]
      d evolves_db_ok [OF d ok] evolves_trans by auto
  then show "evolves x T (table w) (table (snd (recover_expired_message_amid g x windows head i w)))"
    using w0(1) d unfolding recover_expired_message_amid_def
    by (auto simp: Let_def case_prod_beta d_def w1_def w0_def split: option.split bool.split)
qed

lemma recover_stuck_task_amid_takes_steps:
  assumes "others_between x T g" "sweeping x"
  shows "takes_steps x T (\<lambda>w. snd (recover_stuck_task_amid g x locked stale_before ttl_queues head i w))"
  unfolding takes_steps_def
proof (intro allI impI)
  fix w :: world assume ok: "db_ok (table w)"
  define w0 where "w0 = g Recovering w"
  have w0: "evolves x T (table w) (table w0)" "db_ok (table w0)"
    using evolves_gap [OF assms(1) ok evolves_refl] unfolding w0_def by blast+
  show "evolves x T (table w) (table (snd (recover_stuck_task_amid g x locked stale_before ttl_queues head i w)))"
  proof (cases "\<exists>task item. \<not> locked i \<and> row i (table w0) = Some task \<and>
      queue_is_stuck (cfg x) task stale_before ttl_queues \<and>
      get_by_executable_path (executable_path task) (registry x) = Some item")
    case False
    then show ?thesis
      using w0(1) unfolding recover_stuck_task_amid_def w0_def [symmetric]
      by (auto simp: Let_def split: option.split)
  next
    case True
    then obtain task item where t: "\<not> locked i" "row i (table w0) = Some task"
      "queue_is_stuck (cfg x) task stale_before ttl_queues"
      "get_by_executable_path (executable_path task) (registry x) = Some item" by blast
    define d where "d = snd (reset_to_pending (clk w0) task (table w0))"
    have "attempt_step (cfg x) (may_retry x) (sweeping x) T (table w0) d"
      unfolding d_def using t(2,3) assms(2) by (rule attempt_step.reset)
    then have d: "evolves x T (table w) d" using w0(1) evolves_step evolves_trans by blast
    have "evolves x T (table w) (table (snd (redispatch_amid g x item task' st head (w0\<lparr>table := d\<rparr>))))" for task' st
      using takes_stepsD [OF redispatch_amid_takes_steps [OF assms(1)], of "w0\<lparr>table := d\<rparr>" item task' st head]
        d evolves_db_ok [OF d ok] evolves_trans by auto
    then show ?thesis
      using t unfolding recover_stuck_task_amid_def w0_def [symmetric]
      by (simp add: Let_def case_prod_beta d_def)
  qed
qed

lemma recover_expired_message_handles:
  "handles x T (\<lambda>w. snd (recover_expired_message x windows head i w))"
proof -
  have "evolves x T (table w) (table w') \<and> clk w' = clk w"
    if ok: "db_ok (table w)" and r: "recover_expired_message x windows head i w = (r, w')" for w r w'
  proof -
    let ?d = "snd (claim_expired_message (clk w) i windows (table w))"
    have d: "evolves x T (table w) ?d" by (intro evolves_step attempt_step.message)
    have red: "evolves x T ?d (table w2) \<and> clk w2 = clk w"
      if "redispatch x item task PENDING head (w\<lparr>table := ?d\<rparr>) = (res, w2)" for item task res w2
      using handlesD [OF redispatch_handles, of "w\<lparr>table := ?d\<rparr>" x T item task PENDING head] that
        evolves_db_ok [OF d ok] by auto
    then show ?thesis
      using r d red evolves_trans [OF d]
      by (auto simp: recover_expired_message_alone case_prod_beta split: option.splits bool.splits)
  qed
  then show ?thesis by (intro handlesI) (metis prod.collapse)+
qed

lemma recover_stuck_task_handles:
  assumes "sweeping x"
  shows "handles x T (\<lambda>w. snd (recover_stuck_task x locked stale_before ttl_queues head i w))"
proof -
  have "evolves x T (table w) (table w') \<and> clk w' = clk w"
    if ok: "db_ok (table w)" and r: "recover_stuck_task x locked stale_before ttl_queues head i w = (r, w')" for w r w'
  proof (cases "\<exists>task item. \<not> locked i \<and> row i (table w) = Some task \<and>
      queue_is_stuck (cfg x) task stale_before ttl_queues \<and>
      get_by_executable_path (executable_path task) (registry x) = Some item")
    case False
    then show ?thesis using r by (auto simp: recover_stuck_task_alone split: option.splits if_splits)
  next
    case True
    then obtain task item where t: "\<not> locked i" "row i (table w) = Some task"
      "queue_is_stuck (cfg x) task stale_before ttl_queues"
      "get_by_executable_path (executable_path task) (registry x) = Some item" by blast
    obtain task' d where res: "reset_to_pending (clk w) task (table w) = (task', d)" by fastforce
    have "attempt_step (cfg x) (may_retry x) (sweeping x) T (table w) (snd (reset_to_pending (clk w) task (table w)))"
      using t(2,3) assms by (rule attempt_step.reset)
    then have d: "evolves x T (table w) d" using res evolves_step by simp
    have w': "w' = snd (redispatch x item task' (status task) head (w\<lparr>table := d\<rparr>))"
      using r t res by (simp add: recover_stuck_task_alone)
    then show ?thesis
      using handlesD [OF redispatch_handles, of "w\<lparr>table := d\<rparr>" x T item task' "status task" head]
        evolves_db_ok [OF d ok] d evolves_trans [OF d] by simp
  qed
  then show ?thesis by (intro handlesI) (metis prod.collapse)+
qed

text \<open>The world a recovery loop leaves, without its counter.\<close>

lemma sweep_loop_world:
  "snd (fold (sweep_one recover) ids (n, w)) = fold (\<lambda>i w. snd (recover i w)) ids w"
proof (induction ids arbitrary: n w)
  case (Cons i ids)
  obtain m w' where one: "sweep_one recover i (n, w) = (m, w')" by fastforce
  then have "w' = snd (recover i w)"
    by (auto simp: sweep_one_def split: prod.splits sum.splits bool.splits)
  then show ?case using one Cons.IH [of m w'] by simp
qed simp

lemma sweep_loop_count: "fst (fold (sweep_one recover) ids (n, w)) \<le> n + length ids"
proof (induction ids arbitrary: n w)
  case (Cons i ids)
  obtain m w' where one: "sweep_one recover i (n, w) = (m, w')" by fastforce
  then have "m \<le> Suc n" by (auto simp: sweep_one_def split: prod.splits sum.splits bool.splits)
  then show ?case using one Cons.IH [of m w'] by simp
qed simp

interpretation lease_sweep: handler_loop x T "\<lambda>i w. snd (recover_expired_lease x head i w)"
  by unfold_locales (rule recover_expired_lease_handles)

interpretation message_sweep: handler_loop x T "\<lambda>i w. snd (recover_expired_message x windows head i w)"
  by unfold_locales (rule recover_expired_message_handles)

text \<open>The stages of \<open>reconcile\<close>, as worlds.\<close>

definition after_leases :: "ctx \<Rightarrow> int \<Rightarrow> int option \<Rightarrow> world \<Rightarrow> world" where
  "after_leases x limit head w = fold (\<lambda>i w. snd (recover_expired_lease x head i w))
     (expired_lease_ids (clk w) limit (dumper_paths (registry x)) (table w)) w"

lemma after_leases_handles: "handles x T (after_leases x limit head)"
  unfolding after_leases_def using lease_sweep.fold_handles handlesD
  by (intro handlesI) (blast, metis)

lemma stuck_loop_handles:
  assumes "sweeping x"
  shows "handles x T (fold (\<lambda>i w. snd (recover_stuck_task x locked stale_before ttl_queues head i w)) ids)"
proof (induction ids)
  case (Cons i ids)
  then show ?case
    using handles_comp [OF recover_stuck_task_handles [OF assms] Cons.IH] by (simp add: comp_def)
qed (simp add: handles_def)

definition after_messages :: "ctx \<Rightarrow> (string, seconds) dict \<Rightarrow> int \<Rightarrow> int option \<Rightarrow> world \<Rightarrow> world" where
  "after_messages x windows remaining head w = fold (\<lambda>i w. snd (recover_expired_message x windows head i w))
     (expired_message_ids (clk w) windows remaining (dumper_paths (registry x)) (table w)) w"

definition after_stuck ::
  "ctx \<Rightarrow> (nat \<Rightarrow> bool) \<Rightarrow> (string, seconds) dict \<Rightarrow> seconds \<Rightarrow> int \<Rightarrow> int option \<Rightarrow> world \<Rightarrow> world" where
  "after_stuck x locked windows secs remaining head w =
     (let t = py_now (clk w) - secs
      in fold (\<lambda>i w. snd (recover_stuck_task x locked t (map fst windows) head i w))
        (stuck_attempt_ids (cfg x) t remaining (dumper_paths (registry x)) (map fst windows) (table w)) w)"

lemma after_messages_handles: "handles x T (after_messages x windows remaining head)"
  unfolding after_messages_def using message_sweep.fold_handles handlesD
  by (intro handlesI) (blast, metis)

lemma after_stuck_handles: "sweeping x \<Longrightarrow> handles x T (after_stuck x locked windows secs remaining head)"
  unfolding after_stuck_def Let_def using stuck_loop_handles handlesD
  by (intro handlesI) (blast, metis)

text \<open>What is left of the batch for the second and for the third loop.\<close>

definition left_for_messages :: "ctx \<Rightarrow> int \<Rightarrow> world \<Rightarrow> int" where
  "left_for_messages x limit w = limit - int (length (expired_lease_ids (clk w) limit (dumper_paths (registry x)) (table w)))"

definition left_for_stuck :: "ctx \<Rightarrow> (string, seconds) dict \<Rightarrow> int \<Rightarrow> world \<Rightarrow> int" where
  "left_for_stuck x windows remaining w =
     remaining - int (length (expired_message_ids (clk w) windows remaining (dumper_paths (registry x)) (table w)))"

lemma reconcile_world:
  assumes "dumper_paths (registry x) \<noteq> []"
  shows "snd (reconcile x locked stale_after limit head w) =
    (let w1 = after_leases x limit head w; k = left_for_messages x limit w in
     case ttl_windows x of Inl e \<Rightarrow> w1
     | Inr windows \<Rightarrow>
         (let w2 = after_messages x windows k head w1
          in case stale_after of None \<Rightarrow> w2
             | Some secs \<Rightarrow> after_stuck x locked windows secs (left_for_stuck x windows k w1) head w2))"
proof (cases "ttl_windows x")
  case (Inl e)
  then show ?thesis
    using assms by (simp add: reconcile_alone Let_def case_prod_beta sweep_loop_world after_leases_def)
next
  case (Inr windows)
  then show ?thesis
    using assms
    by (simp add: reconcile_alone Let_def case_prod_beta sweep_loop_world after_leases_def after_messages_def
        after_stuck_def left_for_messages_def left_for_stuck_def split: option.splits)
qed

lemma reconcile_after_leases:
  assumes "stale_after \<noteq> None \<Longrightarrow> sweeping x" "dumper_paths (registry x) \<noteq> []"
    and "db_ok (table (after_leases x limit head w))"
  shows "evolves x T (table (after_leases x limit head w))
      (table (snd (reconcile x locked stale_after limit head w))) \<and>
    clk (snd (reconcile x locked stale_after limit head w)) = clk (after_leases x limit head w)"
proof -
  define w1 where "w1 = after_leases x limit head w"
  define w' where "w' = snd (reconcile x locked stale_after limit head w)"
  define k where "k = left_for_messages x limit w"
  define k' where "k' ws = left_for_stuck x ws k w1" for ws
  have stages: "w' = (case ttl_windows x of Inl e \<Rightarrow> w1
      | Inr ws \<Rightarrow> case stale_after of None \<Rightarrow> after_messages x ws k head w1
        | Some secs \<Rightarrow> after_stuck x locked ws secs (k' ws) head (after_messages x ws k head w1))"
    using reconcile_world [OF assms(2), of locked stale_after limit head w]
    unfolding w'_def w1_def k_def k'_def Let_def .
  have w2: "evolves x T (table w1) (table (after_messages x ws k head w1)) \<and>
      clk (after_messages x ws k head w1) = clk w1 \<and> db_ok (table (after_messages x ws k head w1))" for ws
    using handlesD [OF after_messages_handles, of w1 x T ws k head] assms(3) w1_def by simp
  have w3: "evolves x T (table w1) (table (after_stuck x locked ws secs (k' ws) head (after_messages x ws k head w1))) \<and>
      clk (after_stuck x locked ws secs (k' ws) head (after_messages x ws k head w1)) = clk w1"
    if "stale_after = Some secs" for ws secs
    using handlesD [OF after_stuck_handles, of x "after_messages x ws k head w1" T locked ws secs "k' ws" head]
      assms(1) that w2 [of ws] evolves_trans by auto
  show ?thesis
  proof (cases "ttl_windows x")
    case (Inr ws)
    then show ?thesis
      using stages w2 [of ws] w3 [of _ ws] unfolding w1_def [symmetric] w'_def [symmetric]
      by (cases stale_after) simp_all
  qed (use stages in \<open>simp add: w1_def w'_def\<close>)
qed

lemma reconcile_handles:
  assumes "stale_after \<noteq> None \<Longrightarrow> sweeping x"
  shows "handles x T (\<lambda>w. snd (reconcile x locked stale_after limit head w))"
  unfolding handles_def
proof (intro allI impI)
  fix w :: world assume ok: "db_ok (table w)"
  let ?w' = "snd (reconcile x locked stale_after limit head w)"
  show "evolves x T (table w) (table ?w') \<and> clk ?w' = clk w"
  proof (cases "dumper_paths (registry x) = []")
    case True
    then show ?thesis by (simp add: reconcile_alone)
  next
    case False
    have "evolves x T (table w) (table (after_leases x limit head w)) \<and>
        clk (after_leases x limit head w) = clk w \<and> db_ok (table (after_leases x limit head w))"
      using handlesD [OF after_leases_handles ok] .
    then show ?thesis
      using reconcile_after_leases [OF assms False, of stale_after limit head w T locked] evolves_trans by metis
  qed
qed

section \<open>A sweep amid others\<close>

lemma sweep_loop_amid_world:
  "snd (fold (\<lambda>i. sweep_one (recover i) i) ids acc) = fold (\<lambda>i w. snd (recover i i w)) ids (snd acc)"
proof (induction ids arbitrary: acc)
  case (Cons i ids)
  have "snd (sweep_one (recover i) i acc) = snd (recover i i (snd acc))"
    by (auto simp: sweep_one_def split: prod.splits sum.splits bool.splits)
  then show ?case using Cons.IH [of "sweep_one (recover i) i acc"] by simp
qed simp

lemma reconcile_amid_takes_steps:
  assumes "others_between x T g" "\<And>i. others_between x T (gs i)" "\<And>i. no_second_lease i (gs i FailingLease)"
    and "stale_after \<noteq> None \<Longrightarrow> sweeping x"
  shows "takes_steps x T (\<lambda>w. snd (reconcile_amid g gs x locked stale_after limit head w))"
proof -
  have leases: "takes_steps x T (fold (\<lambda>i w. snd (recover_expired_lease_amid (gs i) x head i w)) ids)" for ids
    by (rule takes_steps_fold) (rule recover_expired_lease_amid_takes_steps [OF assms(2,3)])
  have messages: "takes_steps x T (fold (\<lambda>i w. snd (recover_expired_message_amid (gs i) x ws head i w)) ids)" for ws ids
    by (rule takes_steps_fold) (rule recover_expired_message_amid_takes_steps [OF assms(2)])
  have stuck: "takes_steps x T (fold (\<lambda>i w. snd (recover_stuck_task_amid (gs i) x locked t ttl head i w)) ids)"
    if "stale_after = Some secs" for secs t ttl ids
    by (rule takes_steps_fold) (rule recover_stuck_task_amid_takes_steps [OF assms(2)], use that assms(4) in simp)
  have gap: "takes_steps x T (g p)" for p using assms(1) by (simp add: others_between_def)
  have two: "evolves x T (table w) (table (h w')) \<and> db_ok (table (h w'))"
    if "takes_steps x T h" "evolves x T (table w) (table w') \<and> db_ok (table w')" for h w w'
    using takes_stepsD [OF that(1)] that(2) evolves_trans by blast
  show ?thesis
    unfolding takes_steps_def
  proof (intro allI impI)
    fix w :: world assume ok: "db_ok (table w)"
    let ?w' = "snd (reconcile_amid g gs x locked stale_after limit head w)"
    let ?ids = "expired_lease_ids (clk w) limit (dumper_paths (registry x)) (table w)"
    let ?w1 = "fold (\<lambda>i w. snd (recover_expired_lease_amid (gs i) x head i w)) ?ids w"
    have w1: "evolves x T (table w) (table ?w1) \<and> db_ok (table ?w1)" using two [OF leases] ok by blast
    have w2: "evolves x T (table w) (table (fold (\<lambda>i w. snd (recover_expired_message_amid (gs i) x ws head i w)) ids
          (g LookingForMessages ?w1))) \<and>
        db_ok (table (fold (\<lambda>i w. snd (recover_expired_message_amid (gs i) x ws head i w)) ids (g LookingForMessages ?w1)))"
      for ws ids using two [OF messages two [OF gap w1]] .
    note w3 = two [OF stuck two [OF gap w2]]
    show "evolves x T (table w) (table ?w')"
      using w1 w2 w3
      by (cases stale_after)
        (simp_all add: reconcile_amid_def Let_def case_prod_beta sweep_loop_amid_world split: sum.split)
  qed
qed

section \<open>Properties\<close>

lemma expired_lease_ids_mem:
  assumes "i \<in> set (expired_lease_ids c limit paths d)" "db_ok d"
  shows "\<exists>r. row i d = Some r \<and> lease_expired c r \<and> executable_path r \<in> set paths"
  using assms row_eq_Some [OF assms(2)]
  by (auto simp: expired_lease_ids_def dest!: ordered_limit_filterD)

text \<open>Without a claim in between, a row does not become RUNNING.\<close>

lemma row_step_no_claim: "row_step s R sw {} r r' \<Longrightarrow> lease_expired c r' \<Longrightarrow> lease_expired c r"
  by (induction rule: row_step.induct)
    (auto simp: lease_expired_def write_defs reset_write_def split: option.splits)

lemma evolves_no_claim:
  assumes "evolves x {} d d'" "db_ok d" "row i d' = Some r'" "lease_expired c r'"
  shows "\<exists>r. row i d = Some r \<and> lease_expired c r \<and> attempt_key r = attempt_key r'"
  using assms(1) assms(3,4) unfolding evolves_def
proof (induction arbitrary: r' rule: rtranclp_induct)
  case base
  then show ?case by blast
next
  case (step y z)
  have ok: "db_ok y" using step.hyps(1) assms(2) by (rule attempt_steps_db_ok)
  show ?case
  proof (cases "row i y")
    case None
    then obtain b p a t where "r' = new_attempt i b p a t"
      using attempt_step_new_rows [OF step.hyps(2) ok step.prems(1)] by blast
    then show ?thesis using step.prems(2) by (simp add: lease_expired_def)
  next
    case (Some ry)
    then have "row_step (cfg x) (may_retry x) (sweeping x) {} ry r'"
      using attempt_step_row [OF step.hyps(2) ok Some] step.prems(1) by simp
    then show ?thesis using step.IH [OF Some] row_step_no_claim row_step_key step.prems(2) by metis
  qed
qed

lemma recover_expired_lease_clears:
  assumes "db_ok (table w)" "\<And>r. \<exists>delay. retry_delay x r = Inr delay"
    and "row i (table (snd (recover_expired_lease x head i w))) = Some r'"
  shows "\<not> lease_expired (clk w) r'"
proof
  assume exp: "lease_expired (clk w) r'"
  let ?w' = "snd (recover_expired_lease x head i w)"
  have ev: "evolves x {} (table w) (table ?w')" using handlesD [OF recover_expired_lease_handles assms(1)] by blast
  obtain r where r: "row i (table w) = Some r" "lease_expired (clk w) r"
    using evolves_no_claim [OF ev assms(1,3) exp] by blast
  obtain delay where delay: "retry_delay x r = Inr delay" using assms(2) by blast
  let ?d = "snd (fail_expired_lease (clk w) i delay (table w))"
  have won: "fst (fail_expired_lease (clk w) i delay (table w))"
    using update_by_id_won [OF assms(1)] r unfolding fail_expired_lease_def by blast
  have row: "row i ?d = Some (failure_write (clk w) delay r)"
    using r by (simp add: fail_expired_lease_def row_update_by_id)
  have ok: "db_ok ?d" using assms(1) by (simp add: fail_expired_lease_def)
  have "evolves x {} ?d (table ?w')"
  proof -
    have "evolves x {} ?d (table (snd (after_lease_failed alone x head tk (w\<lparr>table := ?d\<rparr>))))" for tk
      using handlesD [OF after_lease_failed_handles, of "w\<lparr>table := ?d\<rparr>" x "{}" head tk] ok by simp
    then show ?thesis
      using r delay won
      by (auto simp: recover_expired_lease_alone case_prod_beta simp del: alone_id split: option.splits sum.splits bool.splits)
  qed
  from evolves_no_claim [OF this ok assms(3) exp] row show False by (auto simp: lease_expired_def)
qed

lemma lease_loop_clears:
  assumes "db_ok (table w)" "\<And>r. \<exists>delay. retry_delay x r = Inr delay"
    and "row i (table (fold (\<lambda>i w. snd (recover_expired_lease x head i w)) ids w)) = Some r'"
    and "lease_expired (clk w) r'"
  shows "i \<notin> set ids"
  using assms(1,3,4)
proof (induction ids arbitrary: w)
  case (Cons j ids)
  let ?w1 = "snd (recover_expired_lease x head j w)"
  have h: "evolves x {} (table w) (table ?w1) \<and> clk ?w1 = clk w \<and> db_ok (table ?w1)"
    using handlesD [OF recover_expired_lease_handles Cons.prems(1)] .
  have rest: "i \<notin> set ids" using Cons.IH [of ?w1] Cons.prems(2,3) h by simp
  have "evolves x {} (table ?w1) (table (fold (\<lambda>i w. snd (recover_expired_lease x head i w)) ids ?w1))"
    using handlesD [OF lease_sweep.fold_handles, of ?w1 x "{}" head ids] h by blast
  then obtain r where "row i (table ?w1) = Some r" "lease_expired (clk w) r"
    using evolves_no_claim Cons.prems(2,3) h by fastforce
  then have "i \<noteq> j" using recover_expired_lease_clears [OF Cons.prems(1) assms(2)] by blast
  then show ?case using rest by simp
qed simp

text \<open>The attempts the lease sweep is about.\<close>

definition expired_leases :: "ctx \<Rightarrow> clocks \<Rightarrow> task_attempt \<Rightarrow> bool" where
  "expired_leases x c r \<longleftrightarrow> lease_expired c r \<and> executable_path r \<in> set (dumper_paths (registry x))"

lemma reconcile_count:
  assumes "reconcile x locked stale_after limit head w = (Inr n, w')" "0 \<le> limit"
  shows "int n \<le> limit"
proof (cases "dumper_paths (registry x) = []")
  case True
  then show ?thesis using assms by (simp add: reconcile_alone)
next
  case False
  define ids where "ids = expired_lease_ids (clk w) limit (dumper_paths (registry x)) (table w)"
  obtain n1 w1 where l1: "fold (sweep_one (recover_expired_lease x head)) ids (0, w) = (n1, w1)" by fastforce
  obtain windows where ws: "ttl_windows x = Inr windows"
    using assms(1) False ids_def l1 by (auto simp: reconcile_alone Let_def split: sum.splits)
  define mids where "mids = expired_message_ids (clk w1) windows (limit - int (length ids)) (dumper_paths (registry x)) (table w1)"
  obtain n2 w2 where l2: "fold (sweep_one (recover_expired_message x windows head)) mids (n1, w1) = (n2, w2)" by fastforce
  have len1: "int (length ids) \<le> limit"
    using assms(2) by (simp add: ids_def expired_lease_ids_def int_length_ordered_limit)
  have len2: "int (length mids) \<le> limit - int (length ids)"
    using len1 by (simp add: mids_def expired_message_ids_def int_length_ordered_limit)
  have n: "n1 \<le> length ids" "n2 \<le> n1 + length mids"
    using sweep_loop_count [of "recover_expired_lease x head" ids 0 w] l1
      sweep_loop_count [of "recover_expired_message x windows head" mids n1 w1] l2 by simp_all
  show ?thesis
  proof (cases stale_after)
    case None
    then have "n = n2" using assms(1) False ws l1 l2 by (simp add: reconcile_alone Let_def ids_def mids_def)
    then show ?thesis using n len1 len2 by linarith
  next
    case (Some secs)
    define sids where "sids = stuck_attempt_ids (cfg x) (py_now (clk w2) - secs)
      (limit - int (length ids) - int (length mids)) (dumper_paths (registry x)) (map fst windows) (table w2)"
    have len3: "int (length sids) \<le> limit - int (length ids) - int (length mids)"
      using len2 by (simp add: sids_def stuck_attempt_ids_def int_length_ordered_limit)
    have "n \<le> n2 + length sids"
      using assms(1) False ws l1 l2 Some
        sweep_loop_count [of "recover_stuck_task x locked (py_now (clk w2) - secs) (map fst windows) head" sids n2 w2]
      by (auto simp: reconcile_alone Let_def case_prod_beta ids_def mids_def sids_def)
    then show ?thesis using n len3 by linarith
  qed
qed

text \<open>
  C26. The recovery sweep finishes off dead workers: when the batch size covers them, a sweep leaves no
  \<open>BlockDumper\<close> attempt RUNNING under a lease that has passed. It takes only lifecycle steps, claims
  nothing, and counts at most as many recoveries as the batch size.
\<close>

theorem reconcile_clears_expired_leases:
  assumes "db_ok (table w)" and "\<And>r. \<exists>delay. retry_delay x r = Inr delay"
    and "int (count_rows (expired_leases x (clk w)) (table w)) \<le> limit"
    and "stale_after \<noteq> None \<longrightarrow> sweeping x"
    and "reconcile x locked stale_after limit head w = (res, w')"
  shows "count_rows (expired_leases x (clk w)) (table w') = 0 \<and> evolves x {} (table w) (table w') \<and>
    (\<forall>n. res = Inr n \<longrightarrow> int n \<le> limit)"
proof -
  let ?paths = "dumper_paths (registry x)" and ?w1 = "after_leases x limit head w"
  have ev: "evolves x {} (table w) (table w')"
    using handlesD [OF reconcile_handles assms(1), of stale_after x "{}" locked limit head] assms(4,5) by simp
  have "False" if r': "r' \<in> set (attempts (table w'))" "expired_leases x (clk w) r'" for r'
  proof -
    have paths: "?paths \<noteq> []" using r'(2) by (auto simp: expired_leases_def)
    have ok': "db_ok (table w')" using ev assms(1) evolves_db_ok by blast
    have row': "row (attempt_id r') (table w') = Some r'" using row_eq_Some [OF ok'] r'(1) by simp
    have w1: "db_ok (table ?w1)" "clk ?w1 = clk w" using handlesD [OF after_leases_handles assms(1)] by blast+
    have "evolves x {} (table ?w1) (table w')"
      using reconcile_after_leases [OF _ paths w1(1), of stale_after "{}" locked] assms(4,5) by simp
    then obtain r1 where r1: "row (attempt_id r') (table ?w1) = Some r1" "lease_expired (clk w) r1"
      using evolves_no_claim [OF _ w1(1) row'] r'(2) unfolding expired_leases_def by blast
    obtain r where r: "row (attempt_id r') (table w) = Some r" "lease_expired (clk w) r" "attempt_key r = attempt_key r'"
      using evolves_no_claim [OF ev assms(1) row'] r'(2) by (auto simp: expired_leases_def)
    have "r \<in> set (filter (expired_leases x (clk w)) (attempts (table w)))"
      using r r'(2) row_mem [OF r(1)] by (auto simp: expired_leases_def attempt_key_def)
    moreover have "set (expired_lease_ids (clk w) limit ?paths (table w)) =
        attempt_id ` set (filter (expired_leases x (clk w)) (attempts (table w)))"
      using assms(3) unfolding expired_lease_ids_def count_rows_def expired_leases_def
      by (simp only: set_map set_ordered_limit_all)
    ultimately have "attempt_id r' \<in> set (expired_lease_ids (clk w) limit ?paths (table w))"
      using row_id [OF r(1)] by (metis image_eqI)
    then show False
      using lease_loop_clears [OF assms(1,2)] r1 unfolding after_leases_def by blast
  qed
  then have "count_rows (expired_leases x (clk w)) (table w') = 0"
    by (auto simp: count_rows_def filter_empty_conv)
  moreover have "int n \<le> limit" if "res = Inr n" for n
    using reconcile_count assms(3,5) that of_nat_0_le_iff order_trans by metis
  ultimately show ?thesis using ev by blast
qed

lemma sample_delays: "\<exists>delay. retry_delay sample_ctx r = Inr delay"
proof -
  have p: "settings_retry_policy default_settings = Inr (legacy_retry_policy default_settings)"
    by (simp add: settings_retry_policy_def uses_staged_settings_def default_settings_def)
  have "get_retry_delay_seconds default_settings n = Inr (settings_delay_seconds default_settings n)" for n
    by (rule settings_delay_eq(1) [OF p]) (simp_all add: legacy_retry_policy_def default_settings_def)
  then show ?thesis
    by (cases "retries_for sample_ctx r")
      (auto simp: retry_delay_def retries_for_def sample_ctx_def Let_def split: option.splits)
qed

theorem reconcile_clears_expired_leases_witness:
  "count_rows (expired_leases sample_ctx \<lparr>py_now = 2000, db_now = 2000\<rparr>)
     (table (snd (reconcile sample_ctx (\<lambda>_. False) None 200 None
       (sample_world\<lparr>table := sample_running, clk := \<lparr>py_now = 2000, db_now = 2000\<rparr>\<rparr>)))) = 0"
proof -
  let ?c = "\<lparr>py_now = 2000, db_now = 2000\<rparr> :: clocks"
  let ?w = "sample_world\<lparr>table := sample_running, clk := ?c\<rparr>"
  have ok: "db_ok (table ?w)"
    using sample_pending_ok by (simp add: sample_running_def claim_def table_ok_def)
  have "length (attempts sample_running) = 1"
    by (simp add: sample_running_def claim_def update_by_id_def update_rows_def sample_pending_def)
  then have "count_rows (expired_leases sample_ctx (clk ?w)) (table ?w) \<le> 1"
    using length_filter_le [of _ "attempts sample_running"] by (simp add: count_rows_def)
  then have few: "int (count_rows (expired_leases sample_ctx (clk ?w)) (table ?w)) \<le> 200" by simp
  obtain res w' where "reconcile sample_ctx (\<lambda>_. False) None 200 None ?w = (res, w')" by fastforce
  then show ?thesis
    using reconcile_clears_expired_leases [OF ok sample_delays few, of None] by simp
qed

end
