(* ===== verification/Celery_Executor.thy ===== *)
theory Celery_Executor
  imports Queue_Executor
begin

text \<open>
  Sending the messages of \<open>@block_task\<close> tasks (\<open>_internal/services/executor.py\<close>) and their retries
  (\<open>v1/decorators.schedule_retry\<close>).
\<close>

definition celery_options :: "registry_item \<Rightarrow> string option \<Rightarrow> instant option \<Rightarrow> (string, pyval) dict" where
  "celery_options item queue eta =
     (let base = (case eta of None \<Rightarrow> [] | Some t \<Rightarrow> [(''eta'', PyTime t)]);
          options = filter (\<lambda>(k, _). k \<notin> {''kwargs'', ''eta'', ''args''}) (celery_kwargs item);
          options = (case queue of None \<Rightarrow> options | Some q \<Rightarrow> AList.update ''queue'' (PyStr q) options)
      in dict_update base options)"

text \<open>
  \<open>CeleryExecutor.execute\<close> as the statements it issues: it looks the attempt up, saves it as PENDING when it has
  to be reopened, records the dispatch, and sends the message. Between two of them other processes may act; what
  the process then holds is the attempt as it was read. A submission in progress is the next statement, with that
  attempt.
\<close>

record submission_call =
  sc_item :: registry_item
  sc_block :: int
  sc_args :: jdict
  sc_archive :: bool
  sc_queue :: "string option"

datatype submission =
    Looks submission_call
  | Reopens submission_call task_attempt
  | Dispatches submission_call task_attempt
  | Sends submission_call task_attempt

fun submission_step :: "ctx \<Rightarrow> submission \<Rightarrow> submission option action" where
  "submission_step x (Looks c) w =
     (case get_or_create (sc_block c) (item_path (sc_item c)) (serialize_args (sc_args c)) (py_now (clk w)) (table w) of
        ((task, created), d) \<Rightarrow>
          (Inr (if reopens (clk w) (cfg x) task created then Some (Reopens c task)
                else if \<not> created \<and> status task \<noteq> PENDING then None else Some (Dispatches c task)),
           w\<lparr>table := d\<rparr>))"
| "submission_step x (Reopens c task) w =
     (case reopen_loaded (clk w) task (table w) of (task', d) \<Rightarrow> (Inr (Some (Dispatches c task')), w\<lparr>table := d\<rparr>))"
| "submission_step x (Dispatches c task) w =
     (case task_record_dispatch (clk w) task (sc_queue c) (table w) of
        (task', d) \<Rightarrow> (Inr (Some (Sends c task')), w\<lparr>table := d\<rparr>))"
| "submission_step x (Sends c task) w =
     (case apply_async x (sc_item c) (message_kwargs (sc_block c) (sc_archive c) (sc_args c))
         (celery_options (sc_item c) (sc_queue c) (next_retry_at task)) w of
        (Inl e, w1) \<Rightarrow> (Inl e, w1)
      | (Inr _, w1) \<Rightarrow> (Inr None, increment_tasks_submitted (last_part (item_path (sc_item c))) w1))"

text \<open>The gap before a statement, and the statements in a row. \<open>execute\<close> returns nothing, whether or not it sent a message.\<close>

fun submission_gap :: "gaps \<Rightarrow> submission \<Rightarrow> world \<Rightarrow> world" where
  "submission_gap g (Looks c) = id"
| "submission_gap g (Reopens c task) = g Reopening"
| "submission_gap g (Dispatches c task) = g Dispatching"
| "submission_gap g (Sends c task) = g Sending"

fun statements_left :: "submission \<Rightarrow> nat" where
  "statements_left (Looks c) = 3"
| "statements_left (Reopens c task) = 2"
| "statements_left (Dispatches c task) = 1"
| "statements_left (Sends c task) = 0"

lemma submission_step_left:
  "submission_step x s w = (Inr (Some s'), w') \<Longrightarrow> statements_left s' < statements_left s"
  by (cases s) (auto simp: reopen_loaded_def task_record_dispatch_def Let_def split: prod.splits sum.splits if_splits)

function submission_run :: "gaps \<Rightarrow> ctx \<Rightarrow> submission \<Rightarrow> unit action" where
  "submission_run g x s w =
     (case submission_step x s (submission_gap g s w) of
        (Inl e, w') \<Rightarrow> (Inl e, w')
      | (Inr None, w') \<Rightarrow> (Inr (), w')
      | (Inr (Some s'), w') \<Rightarrow> submission_run g x s' w')"
  by auto
termination
  by (relation "measure (\<lambda>(g, x, s, w). statements_left s)") (auto dest: submission_step_left [OF sym])

declare submission_run.simps [simp del]

definition celery_execute_amid ::
  "gaps \<Rightarrow> ctx \<Rightarrow> registry_item \<Rightarrow> int \<Rightarrow> jdict \<Rightarrow> bool \<Rightarrow> string option \<Rightarrow> unit action" where
  "celery_execute_amid g x item block args use_archive queue =
     submission_run g x (Looks \<lparr>sc_item = item, sc_block = block, sc_args = args, sc_archive = use_archive, sc_queue = queue\<rparr>)"

definition celery_execute ::
  "ctx \<Rightarrow> registry_item \<Rightarrow> int \<Rightarrow> jdict \<Rightarrow> bool \<Rightarrow> string option \<Rightarrow> unit action" where
  "celery_execute = celery_execute_amid alone"

text \<open>The look-up and the save are \<open>task_create_or_get_pending\<close> with the gap between them.\<close>

lemma submission_looks_up:
  assumes "submission_step x (Looks c) w = (Inr (Some (Reopens c task)), w1)"
    and "submission_step x (Reopens c task) w2 = (Inr (Some (Dispatches c task')), w3)"
  shows "task_create_or_get_pending_amid (\<lambda>_. table w2) (clk w) (clk w2) (cfg x) (sc_block c) (item_path (sc_item c))
    (Some (sc_args c)) (table w) = ((task', False), table w3)"
  using assms
  by (auto simp: task_create_or_get_pending_amid_def reopen_loaded_def reopens_def Let_def split: prod.splits if_splits)

text \<open>The whole with nobody in between.\<close>

lemma celery_execute_alone:
  "celery_execute x item block args use_archive queue w =
     (case task_create_or_get_pending (clk w) (cfg x) block (item_path item) (Some args) (table w) of
        ((task, created), d) \<Rightarrow>
          if \<not> created \<and> status task \<noteq> PENDING then (Inr (), w\<lparr>table := d\<rparr>)
          else (case task_record_dispatch (clk w) task queue d of
            (task', d') \<Rightarrow>
              (case apply_async x item (message_kwargs block use_archive args)
                  (celery_options item queue (next_retry_at task')) (w\<lparr>table := d'\<rparr>) of
                 (Inl e, w1) \<Rightarrow> (Inl e, w1)
               | (Inr _, w1) \<Rightarrow> (Inr (), increment_tasks_submitted (last_part (item_path item)) w1))))"
proof -
  obtain task created d where g: "get_or_create block (item_path item) (serialize_args args) (py_now (clk w)) (table w) = ((task, created), d)"
    by (metis surj_pair)
  have "\<not> created" "status task = FAILED" if "reopens (clk w) (cfg x) task created"
    using that by (simp_all add: reopens_def)
  then show ?thesis
    by (auto simp: celery_execute_def celery_execute_amid_def submission_run.simps task_create_or_get_pending_alone
        reopen_loaded_def task_record_dispatch_def g Let_def split: sum.split prod.split)
qed

text \<open>
  \<open>schedule_retry\<close>: the row goes back to PENDING before the task is looked up.
\<close>

definition schedule_retry :: "ctx \<Rightarrow> task_attempt \<Rightarrow> unit action" where
  "schedule_retry x task w =
     (case next_retry_at task of
        None \<Rightarrow> (Inr (), w)
      | Some eta \<Rightarrow>
          if status task \<noteq> FAILED then (Inr (), w)
          else
            let queue = celery_queue_override task;
                (task', d) = task_schedule_to_retry (clk w) task queue (table w);
                w1 = w\<lparr>table := d\<rparr>
            in (case get_by_executable_path (executable_path task') (registry x) of
                  None \<Rightarrow> (Inr (), w1)
                | Some item \<Rightarrow>
                    (case stored_args task' of
                       Inl e \<Rightarrow> (Inl e, w1)
                     | Inr args \<Rightarrow>
                         let kwargs = dict_update [(''block_number'', JInt (block_number task'))] args;
                             options = [(''eta'', PyTime eta)] @
                               (case queue of None \<Rightarrow> [] | Some q \<Rightarrow> [(''queue'', PyStr q)])
                         in (case apply_async x item kwargs options w1 of
                               (Inl e, w2) \<Rightarrow> (Inl e, w2)
                             | (Inr _, w2) \<Rightarrow> (Inr (), record_task_retry (last_part (executable_path task')) w2)))))"

section \<open>Rows stay\<close>

text \<open>
  What every operation of the library but the clean-ups keeps: the constraints of the table, and a row
  for every unit of work that had one.
\<close>

definition keeps_rows :: "db \<Rightarrow> db \<Rightarrow> bool" where
  "keeps_rows d d' \<longleftrightarrow> (db_ok d \<longrightarrow> db_ok d' \<and> attempt_key ` set (attempts d) \<subseteq> attempt_key ` set (attempts d'))"

lemma keeps_rows_refl [simp, intro]: "keeps_rows d d"
  by (simp add: keeps_rows_def)

lemma keeps_rows_trans [trans]: "keeps_rows d d' \<Longrightarrow> keeps_rows d' d'' \<Longrightarrow> keeps_rows d d''"
  by (auto simp: keeps_rows_def)

lemma has_row: "find_key b p a d \<noteq> None \<longleftrightarrow> (b, p, a) \<in> attempt_key ` set (attempts d)"
  unfolding find_key_None by (auto simp: image_iff) metis

lemma keeps_rows_find:
  "keeps_rows d d' \<Longrightarrow> db_ok d \<Longrightarrow> find_key b p a d \<noteq> None \<Longrightarrow> find_key b p a d' \<noteq> None"
  unfolding has_row keeps_rows_def by blast

lemma row_has_key: "row i d = Some r \<Longrightarrow> attempt_key r = (b, p, a) \<Longrightarrow> find_key b p a d \<noteq> None"
  unfolding has_row using row_mem by (metis image_eqI)

lemma keeps_rows_db_ok: "keeps_rows d d' \<Longrightarrow> db_ok d \<Longrightarrow> db_ok d'"
  by (simp add: keeps_rows_def)

lemma keeps_rows_update_by_id: "keeps_key f \<Longrightarrow> keeps_rows d (snd (update_by_id i p f d))"
proof -
  assume f: "keeps_key f"
  have "attempt_key ` set (attempts (update_rows q f d)) = attempt_key ` set (attempts d)" for q
    using map_key_update(2) [OF f, of q d] by (metis set_map)
  then show ?thesis using f by (simp add: keeps_rows_def update_by_id_def)
qed

lemma evolves_keeps_rows: "evolves x T d d' \<Longrightarrow> keeps_rows d d'"
  unfolding keeps_rows_def
proof (intro impI conjI subsetI)
  assume ev: "evolves x T d d'" and ok: "db_ok d"
  show ok': "db_ok d'" using ev ok by (rule evolves_db_ok)
  fix k assume "k \<in> attempt_key ` set (attempts d)"
  then obtain r where r: "r \<in> set (attempts d)" "k = attempt_key r" by blast
  then have "row (attempt_id r) d = Some r" using row_eq_Some [OF ok] by simp
  then obtain r' where "row (attempt_id r) d' = Some r'" "attempt_key r' = attempt_key r"
    using attempt_steps_row ev ok unfolding evolves_def by blast
  then show "k \<in> attempt_key ` set (attempts d')" using r(2) row_mem by (metis image_eqI)
qed

lemma keeps_rows_insert:
  "find_key b p a d = None \<Longrightarrow> keeps_rows d (snd (insert_attempt b p a t d))"
  using db_ok_insert by (auto simp: keeps_rows_def insert_attempt_def Let_def)

lemma keeps_rows_save:
  assumes "row (attempt_id r) d = Some r0" "attempt_key r = attempt_key r0"
  shows "keeps_rows d (save t r d)"
proof (cases "db_ok d")
  case True
  have ex: "\<exists>x \<in> set (attempts d). attempt_id x = attempt_id r"
    using row_mem [OF assms(1)] row_id [OF assms(1)] by blast
  let ?f = "\<lambda>x. if attempt_id x = attempt_id r \<and> x = r0 then r\<lparr>updated_at := t\<rparr> else x"
  have key: "keeps_key ?f"
    using assms(2) row_id [OF assms(1)] by (auto simp: keeps_key_def attempt_key_def)
  have "save t r d = snd (update_by_id (attempt_id r) (\<lambda>_. True) ?f d)"
    using row_id [OF assms(1)] by (intro save_as_update [OF True assms(1)]) simp
  then show ?thesis using keeps_rows_update_by_id [OF key] by simp
qed (simp add: keeps_rows_def)

text \<open>Creating or reopening the row of a \<open>@block_task\<close> attempt.\<close>

lemma task_create_or_get_pending_row:
  assumes "db_ok d" "task_create_or_get_pending c s block path (Some args) d = ((task, created), d')"
  shows "keeps_rows d d' \<and> row (attempt_id task) d' = Some task \<and>
    attempt_key task = (block, path, serialize_args args) \<and> (created \<longrightarrow> status task = PENDING)"
proof (cases "find_key block path (serialize_args args) d")
  case None
  then have "task = new_attempt (next_id d) block path (serialize_args args) (py_now c)"
    "d' = snd (insert_attempt block path (serialize_args args) (py_now c) d)"
    using assms(2) by (auto simp: task_create_or_get_pending_alone reopens_def get_or_create_def insert_attempt_def Let_def)
  then show ?thesis using row_insert [OF assms(1)] keeps_rows_insert [OF None] by simp
next
  case (Some r)
  then have mem: "r \<in> set (attempts d)" and key: "attempt_key r = (block, path, serialize_args args)"
    using find_key_eq_Some [OF assms(1)] by auto
  then have row: "row (attempt_id r) d = Some r" using row_eq_Some [OF assms(1)] by simp
  let ?t = "r\<lparr>status := PENDING, updated_at := py_now c\<rparr>"
  let ?f = "\<lambda>r. r\<lparr>status := PENDING, updated_at := py_now c\<rparr>"
  have upd: "save (py_now c) ?t d = snd (update_by_id (attempt_id r) (\<lambda>_. True) ?f d)"
    using save_as_update [OF assms(1), of ?t r ?f "py_now c"] row by simp
  have "task = r \<and> \<not> created \<and> d' = d \<or> task = ?t \<and> \<not> created \<and> d' = save (py_now c) ?t d"
    using assms(2) Some by (auto simp: task_create_or_get_pending_alone reopens_def get_or_create_def Let_def split: if_splits)
  then show ?thesis
    using row key unfolding upd
    by (auto simp: row_update_by_id keeps_rows_update_by_id) (simp add: attempt_key_def)+
qed

lemma celery_execute_keeps_rows:
  assumes "celery_execute x item block args use_archive queue w = (r, w')"
  shows "keeps_rows (table w) (table w') \<and> clk w' = clk w"
proof -
  obtain task created d where
    c: "task_create_or_get_pending (clk w) (cfg x) block (item_path item) (Some args) (table w) = ((task, created), d)"
    by (metis surj_pair)
  have d: "keeps_rows (table w) d"
    using task_create_or_get_pending_row [OF _ c] by (cases "db_ok (table w)") (auto simp: keeps_rows_def)
  have kk: "keeps_key (\<lambda>r. r\<lparr>celery_queue_override := queue, updated_at := py_now (clk w)\<rparr>)"
    by (simp add: keeps_key_def attempt_key_def)
  have d2: "keeps_rows (table w) (snd (task_record_dispatch (clk w) task queue d))"
    using keeps_rows_trans [OF d keeps_rows_update_by_id [OF kk]] by (simp add: task_record_dispatch_def)
  show ?thesis
    using assms c d d2
    by (auto simp: celery_execute_alone task_record_dispatch_def apply_async_alt split: if_splits)
qed

text \<open>After a submission there is a row for the unit of work, under either executor.\<close>

lemma celery_execute_row:
  assumes "db_ok (table w)" "celery_execute x item block args use_archive queue w = (r, w')"
  shows "find_key block (item_path item) (serialize_args args) (table w') \<noteq> None"
proof -
  obtain task created d where
    c: "task_create_or_get_pending (clk w) (cfg x) block (item_path item) (Some args) (table w) = ((task, created), d)"
    by (metis surj_pair)
  have k: "row (attempt_id task) d = Some task" "attempt_key task = (block, item_path item, serialize_args args)"
    and ok: "db_ok d"
    using task_create_or_get_pending_row [OF assms(1) c] assms(1) keeps_rows_db_ok by blast+
  then have found: "find_key block (item_path item) (serialize_args args) d \<noteq> None"
    using row_has_key by blast
  have kk: "keeps_key (\<lambda>r. r\<lparr>celery_queue_override := queue, updated_at := py_now (clk w)\<rparr>)"
    by (simp add: keeps_key_def attempt_key_def)
  have "find_key block (item_path item) (serialize_args args)
      (snd (task_record_dispatch (clk w) task queue d)) \<noteq> None"
    using keeps_rows_find [OF keeps_rows_update_by_id [OF kk] ok found] by (simp add: task_record_dispatch_def)
  with found show ?thesis
    using assms(2) c
    by (auto simp: celery_execute_alone task_record_dispatch_def apply_async_alt split: if_splits)
qed

lemma execute_row:
  assumes "db_ok (table w)" "execute x item block args use_archive queue head w = (r, w')"
  shows "find_key block (item_path item) (serialize_args args) (table w') \<noteq> None"
proof -
  obtain task created d where
    c: "create_or_reopen (clk w) (cfg x) block (item_path item) args (table w) = ((task, created), d)"
    by (metis surj_pair)
  obtain a where a: "row (attempt_id task) d = Some a" "attempt_key a = (block, item_path item, serialize_args args)"
    using create_or_reopen_row [OF assms(1) c] by blast
  have "attempt_step (cfg x) (may_retry x) (sweeping x) {} (table w) d"
    using attempt_step.create [of "cfg x" "may_retry x" "sweeping x" "{}" "table w" "clk w" block "item_path item" args] c
    by simp
  then have ok: "db_ok d" using attempt_step_db_ok assms(1) by blast
  have "keeps_rows d (table w')"
    using assms(2) c
  proof (cases rule: execute_cases)
    case (given_up policy)
    then show ?thesis using gave_up_evolves [OF given_up(2)] evolves_keeps_rows by fastforce
  next
    case (submitted policy w2)
    have "keeps_rows d (table w2)"
      using gave_up_evolves [OF submitted(3), of x "{}"] evolves_keeps_rows by fastforce
    moreover have "keeps_rows (table w2) (table w')"
      using submit_message_result(1) [OF submitted(4)] evolves_step [OF attempt_step.dispatch] evolves_keeps_rows by metis
    ultimately show ?thesis by (rule keeps_rows_trans)
  qed auto
  moreover have "find_key block (item_path item) (serialize_args args) d \<noteq> None"
    using a row_has_key by blast
  ultimately show ?thesis using keeps_rows_find ok by blast
qed

section \<open>What a submission records\<close>

definition recorded_keys :: "db \<Rightarrow> (int \<times> string \<times> string) set" where
  "recorded_keys d = attempt_key ` set (attempts d)"

lemma recorded_keys_mem: "(b, p, a) \<in> recorded_keys d \<longleftrightarrow> find_key b p a d \<noteq> None"
  unfolding recorded_keys_def has_row ..

lemma recorded_keys_update_by_id [simp]:
  "keeps_key f \<Longrightarrow> recorded_keys (snd (update_by_id i p f d)) = recorded_keys d"
  using arg_cong [OF map_key_update(2), of f set] by (simp add: recorded_keys_def update_by_id_def)

lemma recorded_keys_insert:
  "recorded_keys (snd (insert_attempt b p a t d)) = insert (b, p, a) (recorded_keys d)"
  by (auto simp: recorded_keys_def insert_attempt_def Let_def attempt_key_def new_attempt_def)

lemma recorded_keys_found: "find_key b p a d = Some r \<Longrightarrow> insert (b, p, a) (recorded_keys d) = recorded_keys d"
  using recorded_keys_mem by (metis insert_absorb option.distinct(1))

lemma task_create_or_get_pending_keys:
  assumes "db_ok d" "task_create_or_get_pending c s block path (Some args) d = ((task, created), d')"
  shows "recorded_keys d' = insert (block, path, serialize_args args) (recorded_keys d)"
proof (cases "find_key block path (serialize_args args) d")
  case None
  then show ?thesis
    using assms(2) recorded_keys_insert [of block path "serialize_args args" "py_now c" d]
    by (auto simp: task_create_or_get_pending_alone reopens_def get_or_create_def insert_attempt_def Let_def)
next
  case (Some r)
  let ?t = "r\<lparr>status := PENDING, updated_at := py_now c\<rparr>"
  have row: "row (attempt_id r) d = Some r"
    using Some find_key_eq_Some [OF assms(1)] row_eq_Some [OF assms(1)] by simp
  have "save (py_now c) ?t d = snd (update_by_id (attempt_id r) (\<lambda>_. True) (\<lambda>r. r\<lparr>status := PENDING, updated_at := py_now c\<rparr>) d)"
    using save_as_update [OF assms(1), of ?t r _ "py_now c"] row by simp
  moreover have "d' = d \<or> d' = save (py_now c) ?t d"
    using assms(2) Some by (auto simp: task_create_or_get_pending_alone reopens_def get_or_create_def Let_def split: if_splits)
  moreover have "keeps_key (\<lambda>r. r\<lparr>status := PENDING, updated_at := py_now c\<rparr>)" by simp
  ultimately have "recorded_keys d' = recorded_keys d" by (metis recorded_keys_update_by_id)
  then show ?thesis unfolding recorded_keys_found [OF Some] .
qed

lemma celery_execute_keys:
  assumes "db_ok (table w)"
  shows "recorded_keys (table (snd (celery_execute x item block args use_archive queue w))) =
    insert (block, item_path item, serialize_args args) (recorded_keys (table w))"
proof -
  obtain task created d where
    c: "task_create_or_get_pending (clk w) (cfg x) block (item_path item) (Some args) (table w) = ((task, created), d)"
    by (metis surj_pair)
  have kk: "keeps_key (\<lambda>r. r\<lparr>celery_queue_override := queue, updated_at := py_now (clk w)\<rparr>)"
    by (simp add: keeps_key_def attempt_key_def)
  then show ?thesis
    using task_create_or_get_pending_keys [OF assms c] c
    by (simp add: celery_execute_alone task_record_dispatch_def apply_async_alt)
qed

lemma create_or_reopen_keys:
  assumes "db_ok d"
  shows "recorded_keys (snd (create_or_reopen c s block path args d)) = insert (block, path, serialize_args args) (recorded_keys d)"
proof (cases "find_key block path (serialize_args args) d")
  case None
  then have "snd (create_or_reopen c s block path args d) = snd (insert_attempt block path (serialize_args args) (py_now c) d)"
    by (simp add: create_or_reopen_def reopen_attempt_def get_or_create_def insert_attempt_def Let_def)
  then show ?thesis by (simp add: recorded_keys_insert)
next
  case (Some r)
  moreover have "keeps_key (\<lambda>r. r\<lparr>status := PENDING, updated_at := py_now c\<rparr>)" by simp
  ultimately have "recorded_keys (snd (create_or_reopen c s block path args d)) = recorded_keys d"
    using create_or_reopen_cases [OF assms, of block path args c s] by (metis option.distinct(1) recorded_keys_update_by_id)
  then show ?thesis unfolding recorded_keys_found [OF Some] .
qed

lemma execute_keys:
  assumes "db_ok (table w)"
  shows "recorded_keys (table (snd (execute x item block args use_archive queue head w))) =
    insert (block, item_path item, serialize_args args) (recorded_keys (table w))"
proof -
  obtain task created d where
    c: "create_or_reopen (clk w) (cfg x) block (item_path item) args (table w) = ((task, created), d)"
    by (metis surj_pair)
  have d: "recorded_keys d = insert (block, item_path item, serialize_args args) (recorded_keys (table w))"
    using create_or_reopen_keys [OF assms, of "clk w" "cfg x" block "item_path item" args] c by simp
  have gave: "recorded_keys (table w2) = recorded_keys (table w1)" if "gave_up item task policy head w1 = (b, w2)" for policy w1 w2 b
    using that by (auto simp: gave_up_alone Let_def case_prod_beta set_give_up_deadline_def give_up_if_past_deadline_def
        split: if_splits option.splits sum.splits)
  obtain r w' where e: "execute x item block args use_archive queue head w = (r, w')" by fastforce
  from e c have "recorded_keys (table w') = recorded_keys d"
  proof (cases rule: execute_cases)
    case (given_up policy)
    then show ?thesis using gave by fastforce
  next
    case (submitted policy w2)
    then show ?thesis
      using gave [OF submitted(3)] submit_message_result(1) [OF submitted(4)] by (simp add: record_dispatch_def)
  qed simp_all
  then show ?thesis using d e by simp
qed

end
