(* ===== verification/Block_Processor.thy ===== *)
theory Block_Processor
  imports Celery_Executor
begin

text \<open>
  Submitting the tasks of a new block, recovering stuck \<open>@block_task\<close> attempts and removing phantom
  successes (\<open>_internal/services/block_processor.py\<close>).
\<close>

section \<open>New blocks\<close>

text \<open>One argument set of \<open>process_registry_item\<close>; every exception is logged and skips only it.\<close>

definition process_args :: "ctx \<Rightarrow> registry_item \<Rightarrow> int \<Rightarrow> jdict \<Rightarrow> world \<Rightarrow> world" where
  "process_args x item block args w =
     (case match_condition item block args of
        Inr True \<Rightarrow>
          if live_queue item \<noteq> None then snd (execute x item block args False None (Some block) w)
          else snd (celery_execute x item block args False None w)
      | _ \<Rightarrow> w)"

definition process_registry_item :: "ctx \<Rightarrow> registry_item \<Rightarrow> int \<Rightarrow> world \<Rightarrow> world" where
  "process_registry_item x item block w = fold (process_args x item block) (get_execution_args item) w"

definition process_block :: "ctx \<Rightarrow> int \<Rightarrow> registry_item list option \<Rightarrow> world \<Rightarrow> world" where
  "process_block x block registry_items w =
     (let items = (case registry_items of Some is \<Rightarrow> is | None \<Rightarrow> get_functions (registry x))
      in fold (\<lambda>item. process_registry_item x item block) items w)"

section \<open>Stuck attempts\<close>

text \<open>
  The claim of a stuck attempt is one transaction that holds the row lock from the read to the commit. The
  submission of the reset attempt comes after it, so others may act in between (\<open>Redispatching\<close>) and
  during the submission; \<open>reconcile_stuck_task\<close> is the run nobody interferes with.
\<close>

definition claim_stuck_task ::
  "ctx \<Rightarrow> (nat \<Rightarrow> bool) \<Rightarrow> instant \<Rightarrow> nat \<Rightarrow> world \<Rightarrow> (registry_item \<times> status \<times> task_attempt) option \<times> world" where
  "claim_stuck_task x locked stale_before i w =
     (case (if locked i then None else row i (table w)) of
        None \<Rightarrow> (None, w)
      | Some task \<Rightarrow>
          if \<not> is_stuck (cfg x) task stale_before then (None, w)
          else (case get_by_executable_path (executable_path task) (registry x) of
             None \<Rightarrow> (None, w)
           | Some item \<Rightarrow>
               (case reset_to_pending (clk w) task (table w) of
                  (task', d) \<Rightarrow> (Some (item, status task, task'), w\<lparr>table := d\<rparr>))))"

definition stuck_needs_archive :: "int option \<Rightarrow> task_attempt \<Rightarrow> bool" where
  "stuck_needs_archive head task =
     (case head of None \<Rightarrow> False | Some h \<Rightarrow> h - block_number task > ARCHIVE_BLOCK_THRESHOLD)"

definition reconcile_stuck_task_amid ::
  "gaps \<Rightarrow> ctx \<Rightarrow> (nat \<Rightarrow> bool) \<Rightarrow> instant \<Rightarrow> int option \<Rightarrow> nat \<Rightarrow> bool action" where
  "reconcile_stuck_task_amid g x locked stale_before head i w =
     (case claim_stuck_task x locked stale_before i w of
        (None, w1) \<Rightarrow> (Inr False, w1)
      | (Some (item, previous, task), w1) \<Rightarrow>
          let archive = stuck_needs_archive head task;
              w2 = (if archive then increment_archive_network_usage w1 else w1)
          in (case stored_args task of
                Inl e \<Rightarrow> (Inl e, w2)
              | Inr args \<Rightarrow>
                  (case celery_execute_amid g x item (block_number task) args archive
                      (celery_queue_override task) (g Redispatching w2) of
                     (Inl e, w3) \<Rightarrow> (Inl e, w3)
                   | (Inr _, w3) \<Rightarrow>
                       (Inr True, record_task_recovered (last_part (executable_path task)) previous w3))))"

definition reconcile_stuck_task ::
  "ctx \<Rightarrow> (nat \<Rightarrow> bool) \<Rightarrow> instant \<Rightarrow> int option \<Rightarrow> nat \<Rightarrow> bool action" where
  "reconcile_stuck_task = reconcile_stuck_task_amid alone"

definition reconcile_one ::
  "ctx \<Rightarrow> (nat \<Rightarrow> bool) \<Rightarrow> instant \<Rightarrow> int option \<Rightarrow> nat \<Rightarrow> nat \<times> world \<Rightarrow> nat \<times> world" where
  "reconcile_one x locked stale_before head i acc =
     (case acc of (n, w) \<Rightarrow>
       (case reconcile_stuck_task x locked stale_before head i w of
          (Inr True, w') \<Rightarrow> (Suc n, w') | (_, w') \<Rightarrow> (n, w')))"

definition reconcile_stuck_tasks ::
  "ctx \<Rightarrow> (nat \<Rightarrow> bool) \<Rightarrow> seconds \<Rightarrow> int \<Rightarrow> int option \<Rightarrow> world \<Rightarrow> nat \<times> world" where
  "reconcile_stuck_tasks x locked stale_after limit head w =
     (let stale_before = py_now (clk w) - stale_after
      in fold (reconcile_one x locked stale_before head)
        (get_stuck_task_attempt_ids (cfg x) stale_before limit (dumper_paths (registry x)) (table w)) (0, w))"

section \<open>Phantoms\<close>

definition cleanup_phantom_tasks :: "world \<Rightarrow> world" where
  "cleanup_phantom_tasks w =
     (if count_rows (recent_phantom (clk w)) (table w) > 0
      then w\<lparr>table := snd (delete_rows (recent_phantom (clk w)) (table w))\<rparr> else w)"

section \<open>Facts\<close>

text \<open>Submitting keeps rows and clocks, under either executor.\<close>

definition submits :: "(world \<Rightarrow> world) \<Rightarrow> bool" where
  "submits h \<longleftrightarrow> (\<forall>w. keeps_rows (table w) (table (h w)) \<and> clk (h w) = clk w)"

lemma submitsD: "submits h \<Longrightarrow> keeps_rows (table w) (table (h w)) \<and> clk (h w) = clk w"
  by (simp add: submits_def)

lemma submits_fold: "(\<And>i. submits (h i)) \<Longrightarrow> submits (fold h is)"
proof (induction "is")
  case (Cons i "is")
  then show ?case unfolding submits_def by simp (metis keeps_rows_trans)
qed (simp add: submits_def)

lemma execute_submits: "submits (\<lambda>w. snd (execute x item block args use_archive queue head w))"
  unfolding submits_def using execute_evolves evolves_keeps_rows by (metis prod.collapse)

lemma celery_execute_submits: "submits (\<lambda>w. snd (celery_execute x item block args use_archive queue w))"
  unfolding submits_def using celery_execute_keeps_rows by (metis prod.collapse)

lemma process_args_submits: "submits (process_args x item block args)"
  using submitsD [OF execute_submits] submitsD [OF celery_execute_submits]
  by (auto simp: submits_def process_args_def split: sum.splits bool.splits)

lemma process_registry_item_submits: "submits (process_registry_item x item block)"
  using submits_fold [OF process_args_submits] by (simp add: submits_def process_registry_item_def)

lemma process_args_row:
  assumes "db_ok (table w)" "match_condition item block args = Inr True"
  shows "find_key block (item_path item) (serialize_args args) (table (process_args x item block args w)) \<noteq> None"
proof (cases "live_queue item")
  case None
  obtain r w' where e: "celery_execute x item block args False None w = (r, w')" by fastforce
  then have "process_args x item block args w = w'" using None assms(2) by (simp add: process_args_def)
  then show ?thesis using celery_execute_row [OF assms(1) e] by metis
next
  case (Some q)
  obtain r w' where e: "execute x item block args False None (Some block) w = (r, w')" by fastforce
  then have "process_args x item block args w = w'" using Some assms(2) by (simp add: process_args_def)
  then show ?thesis using execute_row [OF assms(1) e] by metis
qed

text \<open>In a loop of submissions, a row one of them creates is there at the end.\<close>

lemma fold_row:
  assumes "\<And>i. submits (h i)" "db_ok (table w)" "i \<in> set is"
    and "\<And>w. db_ok (table w) \<Longrightarrow> find_key b p a (table (h i w)) \<noteq> None"
  shows "find_key b p a (table (fold h is w)) \<noteq> None"
  using assms(2,3)
proof (induction "is" arbitrary: w)
  case (Cons j "is")
  have ok: "db_ok (table (h j w))" using submitsD [OF assms(1)] keeps_rows_db_ok Cons.prems(1) by blast
  show ?case
  proof (cases "i \<in> set is")
    case True
    then show ?thesis using Cons.IH [OF ok] by simp
  next
    case False
    then have "find_key b p a (table (h j w)) \<noteq> None" using Cons.prems assms(4) by auto
    then show ?thesis
      using keeps_rows_find [OF _ ok] submitsD [OF submits_fold, of h "h j w" "is"] assms(1) by auto
  qed
qed simp

text \<open>The work a new block calls for.\<close>

definition called_for :: "registry_item list \<Rightarrow> int \<Rightarrow> string \<Rightarrow> jdict \<Rightarrow> bool" where
  "called_for items block path args \<longleftrightarrow>
     (\<exists>item \<in> set items. item_path item = path \<and> args \<in> set (get_execution_args item) \<and>
        match_condition item block args = Inr True)"

text \<open>
  No work of a block is dropped: after a new block was processed, every task and argument set whose
  condition holds has its attempt in the table, whatever other conditions or sends failed, and no
  earlier attempt is gone.
\<close>

theorem process_block_records_all_work:
  assumes "db_ok (table w)"
  shows "db_ok (table (process_block x block (Some items) w)) \<and>
    (\<forall>path args. called_for items block path args \<longrightarrow>
       find_key block path (serialize_args args) (table (process_block x block (Some items) w)) \<noteq> None) \<and>
    (\<forall>b path args. find_key b path args (table w) \<noteq> None \<longrightarrow>
       find_key b path args (table (process_block x block (Some items) w)) \<noteq> None)"
proof (intro conjI allI impI)
  let ?h = "\<lambda>item. process_registry_item x item block"
  have pb: "process_block x block (Some items) w = fold ?h items w" by (simp add: process_block_def)
  have sub: "submits (fold ?h items)" by (rule submits_fold) (rule process_registry_item_submits)
  then have keep: "keeps_rows (table w) (table (fold ?h items w))" using submitsD by blast
  show "db_ok (table (process_block x block (Some items) w))"
    unfolding pb using keeps_rows_db_ok [OF keep assms] .
  show "find_key b path args (table (process_block x block (Some items) w)) \<noteq> None"
    if "find_key b path args (table w) \<noteq> None" for b path args
    unfolding pb using keeps_rows_find [OF keep assms that] .
  fix path args assume "called_for items block path args"
  then obtain item where item: "item \<in> set items" "item_path item = path" "args \<in> set (get_execution_args item)"
      "match_condition item block args = Inr True" unfolding called_for_def by blast
  have "find_key block path (serialize_args args) (table (process_registry_item x item block w)) \<noteq> None"
    if "db_ok (table w)" for w
    unfolding process_registry_item_def
    by (rule fold_row [OF process_args_submits that item(3)]) (use process_args_row item(2,4) in blast)
  then show "find_key block path (serialize_args args) (table (process_block x block (Some items) w)) \<noteq> None"
    unfolding pb by (rule fold_row [OF process_registry_item_submits assms item(1)])
qed

theorem process_block_records_all_work_witness:
  "find_key 100 ''app.task'' (serialize_args [])
     (table (process_block sample_ctx 100 (Some [sample_item]) sample_world)) \<noteq> None"
proof -
  have "called_for [sample_item] 100 ''app.task'' []"
    by (simp add: called_for_def sample_item_def item_path_def get_execution_args_def match_condition_def)
  moreover have "db_ok (table sample_world)" by (simp add: sample_world_def)
  ultimately show ?thesis using process_block_records_all_work [of sample_world sample_ctx 100 "[sample_item]"] by blast
qed

text \<open>Nothing else is recorded: the attempts after a block are the earlier ones and the work it calls for.\<close>

lemma process_args_keys:
  assumes "db_ok (table w)"
  shows "recorded_keys (table (process_args x item block args w)) = recorded_keys (table w) \<union>
    (if match_condition item block args = Inr True then {(block, item_path item, serialize_args args)} else {})"
  using celery_execute_keys [OF assms] execute_keys [OF assms]
  by (auto simp: process_args_def split: sum.splits bool.splits)

lemma fold_keys:
  assumes "\<And>i. submits (h i)" "\<And>i w. db_ok (table w) \<Longrightarrow> recorded_keys (table (h i w)) = recorded_keys (table w) \<union> K i"
    and "db_ok (table w)"
  shows "recorded_keys (table (fold h is w)) = recorded_keys (table w) \<union> (\<Union>i \<in> set is. K i)"
  using assms(3)
proof (induction "is" arbitrary: w)
  case (Cons i "is")
  have "db_ok (table (h i w))" using submitsD [OF assms(1)] keeps_rows_db_ok Cons.prems by blast
  then show ?case using Cons.IH [of "h i w"] assms(2) [OF Cons.prems] by auto
qed simp

lemma process_block_keys:
  assumes "db_ok (table w)"
  shows "recorded_keys (table (process_block x block (Some items) w)) = recorded_keys (table w) \<union>
    {(block, path, serialize_args args) | path args. called_for items block path args}"
proof -
  let ?K = "\<lambda>item args. if match_condition item block args = Inr True then {(block, item_path item, serialize_args args)} else {}"
  have one: "recorded_keys (table (process_registry_item x item block w)) =
      recorded_keys (table w) \<union> (\<Union>args \<in> set (get_execution_args item). ?K item args)" if "db_ok (table w)" for item w
    unfolding process_registry_item_def
    by (rule fold_keys [OF process_args_submits process_args_keys that])
  have "recorded_keys (table (process_block x block (Some items) w)) =
      recorded_keys (table w) \<union> (\<Union>item \<in> set items. \<Union>args \<in> set (get_execution_args item). ?K item args)"
    unfolding process_block_def option.case Let_def
    by (rule fold_keys [OF process_registry_item_submits one assms])
  also have "(\<Union>item \<in> set items. \<Union>args \<in> set (get_execution_args item). ?K item args) =
      {(block, path, serialize_args args) | path args. called_for items block path args}"
    by (auto simp: called_for_def split: if_splits)
  finally show ?thesis .
qed

lemma cleanup_phantom_id:
  assumes "table_ok (table w)"
  shows "cleanup_phantom_tasks w = w"
proof -
  have "\<not> recent_phantom (clk w) r" if "r \<in> set (attempts (table w))" for r
  proof -
    have "row_ok r" using assms that by (simp add: table_ok_def rows_ok_def)
    then show ?thesis by (auto simp: recent_phantom_def row_ok_def)
  qed
  then show ?thesis by (simp add: cleanup_phantom_tasks_def count_rows_def)
qed

text \<open>What the clean-up of phantoms leaves: the table without the recent ones, so doing it again changes nothing.\<close>

lemma cleanup_phantom_table:
  "cleanup_phantom_tasks w =
    w\<lparr>table := (table w)\<lparr>attempts := [r \<leftarrow> attempts (table w). \<not> recent_phantom (clk w) r]\<rparr>\<rparr>"
proof (cases "count_rows (recent_phantom (clk w)) (table w) > 0")
  case False
  then have "[r \<leftarrow> attempts (table w). \<not> recent_phantom (clk w) r] = attempts (table w)"
    by (auto simp: count_rows_def filter_empty_conv intro!: filter_True)
  with False show ?thesis by (simp add: cleanup_phantom_tasks_def)
qed (simp add: cleanup_phantom_tasks_def delete_rows_def)

lemma cleanup_phantom_idem [simp]: "cleanup_phantom_tasks (cleanup_phantom_tasks w) = cleanup_phantom_tasks w"
  by (simp add: cleanup_phantom_table)

end
