(* ===== verification/Throttle.thy ===== *)
theory Throttle
  imports Block_Processor
begin

text \<open>
  Admission of backfill submissions against a queue's throttle (\<open>_internal/services/throttle.py\<close>).
  A waiting gate polls: \<open>polls\<close> lists what \<open>should_continue\<close> answers after each sleep and what the
  other processes did to the world meanwhile. When the list is used up the gate is still waiting,
  which is the result \<open>None\<close>.
\<close>

record gate =
  g_wait :: bool
  g_free :: "(string, int) dict"

type_synonym poll = "bool \<times> (world \<Rightarrow> world)"

definition new_gate :: "bool \<Rightarrow> gate" where
  "new_gate wait = \<lparr>g_wait = wait, g_free = []\<rparr>"

definition inflight_window :: "ctx \<Rightarrow> queue \<Rightarrow> seconds option res" where
  "inflight_window x q =
     (case message_ttl q of
        None \<Rightarrow> Inr None
      | Some ttl \<Rightarrow> (case recovery_margin_seconds (cfg x) of Inl e \<Rightarrow> Inl e | Inr m \<Rightarrow> Inr (Some (num ttl + m))))"

definition read_inflight :: "ctx \<Rightarrow> queue \<Rightarrow> nat action" where
  "read_inflight x q w =
     (case stale_task_settings (cfg x) of
        Inl e \<Rightarrow> (Inl e, w)
      | Inr (timeout, _, _) \<Rightarrow>
          (case inflight_window x q of
             Inl e \<Rightarrow> (Inl e, w)
           | Inr window \<Rightarrow>
               let n = count_inflight (clk w) (q_name q) window
                     (map_option (\<lambda>t. py_now (clk w) - t) timeout) (table w)
               in (Inr n, set_inflight_tasks (q_name q) n w)))"

text \<open>\<open>ThrottleGate._read_free\<close>.\<close>

definition read_free :: "ctx \<Rightarrow> queue \<Rightarrow> int action" where
  "read_free x q w =
     (case read_inflight x q w of
        (Inl e, w') \<Rightarrow> (Inl e, w')
      | (Inr n, w') \<Rightarrow> (Inr (max 0 ((case throttle q of None \<Rightarrow> 0 | Some t \<Rightarrow> t) - int n)), w'))"

definition set_free :: "string \<Rightarrow> int \<Rightarrow> gate \<Rightarrow> gate" where
  "set_free name n g = g\<lparr>g_free := AList.update name n (g_free g)\<rparr>"

text \<open>The loop of \<open>admit\<close>; the last component is what is left of the polls.\<close>

fun wait_for_room ::
  "ctx \<Rightarrow> queue \<Rightarrow> poll list \<Rightarrow> gate \<Rightarrow> world \<Rightarrow> bool res option \<times> gate \<times> world \<times> poll list" where
  "wait_for_room x q [] g w = (None, g, w, [])"
| "wait_for_room x q ((continue, others) # polls) g w =
     (case throttle_poll_seconds (cfg x) of
        Inl e \<Rightarrow> (Some (Inl e), g, w, polls)
      | Inr _ \<Rightarrow>
          let w1 = others w in
          if \<not> continue then (Some (Inr False), g, w1, polls)
          else (case read_free x q w1 of
            (Inl e, w2) \<Rightarrow> (Some (Inl e), g, w2, polls)
          | (Inr n, w2) \<Rightarrow>
              if n > 0 then (Some (Inr True), set_free (q_name q) n g, w2, polls)
              else wait_for_room x q polls (set_free (q_name q) n g) w2))"

definition admit ::
  "ctx \<Rightarrow> queue_target option \<Rightarrow> poll list \<Rightarrow> gate \<Rightarrow> world \<Rightarrow> bool res option \<times> gate \<times> world \<times> poll list" where
  "admit x target polls g w =
     (case target of
        Some (Policy q) \<Rightarrow>
          (case throttle q of
             None \<Rightarrow> (Some (Inr True), g, w, polls)
           | Some _ \<Rightarrow>
               let known = map_of (g_free g) (q_name q) in
               if (case known of None \<Rightarrow> 0 | Some n \<Rightarrow> n) > 0 then (Some (Inr True), g, w, polls)
               else if known \<noteq> None \<and> \<not> g_wait g
                 then (Some (Inr False), g, record_throttled (q_name q) ''lookback'' w, polls)
               else (case read_free x q w of
                 (Inl e, w1) \<Rightarrow> (Some (Inl e), g, w1, polls)
               | (Inr n, w1) \<Rightarrow>
                   let g1 = set_free (q_name q) n g in
                   if n > 0 then (Some (Inr True), g1, w1, polls)
                   else if \<not> g_wait g1
                     then (Some (Inr False), g1, record_throttled (q_name q) ''lookback'' w1, polls)
                   else wait_for_room x q polls g1 (record_throttled (q_name q) ''backfill'' w1)))
      | _ \<Rightarrow> (Some (Inr True), g, w, polls))"

definition spent :: "queue_target option \<Rightarrow> gate \<Rightarrow> gate" where
  "spent target g =
     (case target of
        Some (Policy q) \<Rightarrow>
          (case map_of (g_free g) (q_name q) of None \<Rightarrow> g | Some n \<Rightarrow> set_free (q_name q) (n - 1) g)
      | _ \<Rightarrow> g)"

section \<open>Facts\<close>

lemma read_free_frame:
  "read_free x q w = (r, w') \<Longrightarrow> table w' = table w \<and> clk w' = clk w \<and> sent w' = sent w"
  by (auto simp: read_free_def read_inflight_def Let_def split: sum.splits prod.splits)

text \<open>How many more messages a gate lets through before it reads the table again.\<close>

definition room :: "queue \<Rightarrow> gate \<Rightarrow> int option" where
  "room q g = map_of (g_free g) (q_name q)"

lemma room_set_free [simp]: "room q (set_free (q_name q) n g) = Some n"
  by (simp add: room_def set_free_def update_conv')

lemma wait_set_free [simp]: "g_wait (set_free name n g) = g_wait g"
  by (simp add: set_free_def)

text \<open>
  A gate that does not wait. Before its first read the room is what the table has free; after it, the
  room only falls.
\<close>

definition budget :: "ctx \<Rightarrow> queue \<Rightarrow> gate \<Rightarrow> world \<Rightarrow> int" where
  "budget x q g w = (case room q g of
     Some n \<Rightarrow> max 0 n | None \<Rightarrow> (case fst (read_free x q w) of Inr n \<Rightarrow> n | Inl _ \<Rightarrow> 0))"

lemma fst_read_free_cong:
  "table w' = table w \<Longrightarrow> clk w' = clk w \<Longrightarrow> fst (read_free x q w') = fst (read_free x q w)"
  by (simp add: read_free_def read_inflight_def Let_def split: sum.splits prod.splits)

lemma read_free_nonneg: "fst (read_free x q w) = Inr n \<Longrightarrow> 0 \<le> n"
  by (auto simp: read_free_def split: sum.splits prod.splits)

lemma budget_nonneg: "0 \<le> budget x q g w"
  using read_free_nonneg by (auto simp: budget_def split: option.splits sum.splits)

lemma admit_budget:
  assumes "throttle q \<noteq> None" "\<not> g_wait g" "admit x (Some (Policy q)) polls g w = (res, g', w', polls')"
  shows "\<not> g_wait g' \<and> table w' = table w \<and> clk w' = clk w \<and> sent w' = sent w \<and>
    (res = Some (Inr True) \<longrightarrow> (\<exists>n. room q g' = Some n \<and> 0 < n \<and> n = budget x q g w)) \<and>
    (res \<noteq> Some (Inr True) \<longrightarrow> room q g' = None \<and> g' = g \<or> (\<exists>n. room q g' = Some n \<and> n \<le> budget x q g w)) \<and>
    res \<noteq> None"
proof -
  obtain t where t: "throttle q = Some t" using assms(1) by blast
  obtain r w1 where rf: "read_free x q w = (r, w1)" by fastforce
  note frame = read_free_frame [OF rf]
  show ?thesis
  proof (cases "map_of (g_free g) (q_name q)")
    case None
    then show ?thesis
      using assms(2,3) t rf frame
      by (cases r) (auto simp: admit_def budget_def Let_def split: if_splits, auto simp: room_def)
  next
    case (Some n)
    then show ?thesis
      using assms(2,3) t rf frame
      by (auto simp: admit_def budget_def room_def Let_def split: if_splits)
  qed
qed

lemma read_free_Inr:
  assumes "read_free x q w = (Inr n, w')" "throttle q = Some t"
  shows "\<exists>k. fst (read_inflight x q w) = Inr k \<and> n = max 0 (t - int k)"
  using assms by (auto simp: read_free_def split: sum.splits prod.splits)

lemma read_inflight_ok:
  assumes "recovery_ok (cfg x)"
  shows "\<exists>n w'. read_inflight x q w = (Inr n, w')"
proof -
  from assms obtain timeout interval batch margin where
    "stale_task_settings (cfg x) = Inr (timeout, interval, batch)" "recovery_margin_seconds (cfg x) = Inr margin"
    by (rule recovery_okE)
  then show ?thesis
    by (auto simp: read_inflight_def inflight_window_def Let_def split: option.splits)
qed

text \<open>
  A waiting backfill goes on only with room: when the gate of \<open>backfill_blocks_v1\<close> admits a
  submission after waiting, the last count of the queue's attempts in flight was below the throttle
  and the difference is its room, and when it refuses, the backfill was told to stop.
\<close>

theorem waiting_gate_admits_only_with_room:
  assumes "wait_for_room x q polls g w = (Some (Inr b), g', w', rest)" and "throttle q = Some t"
  shows "if b then \<exists>n wr. fst (read_inflight x q wr) = Inr n \<and> int n < t \<and> table wr = table w' \<and>
      clk wr = clk w' \<and> map_of (g_free g') (q_name q) = Some (t - int n)
    else \<exists>others. (False, others) \<in> set polls"
  using assms
proof (induction x q polls g w rule: wait_for_room.induct)
  case (1 x q g w)
  then show ?case by simp
next
  case (2 x q continue others polls g w)
  obtain s where poll: "throttle_poll_seconds (cfg x) = Inr s" using 2(2) by (auto split: sum.splits)
  show ?case
  proof (cases continue)
    case False
    then show ?thesis using 2(2) poll by (auto simp: Let_def)
  next
    case True
    obtain r w2 where rf: "read_free x q (others w) = (r, w2)" by fastforce
    then obtain n where n: "r = Inr n" using 2(2) poll True by (auto simp: Let_def split: sum.splits)
    show ?thesis
    proof (cases "n > 0")
      case pos: True
      then have res: "b" "g' = set_free (q_name q) n g" "w' = w2"
        using 2(2) poll True rf n by (auto simp: Let_def)
      obtain k where k: "fst (read_inflight x q (others w)) = Inr k" "n = max 0 (t - int k)"
        using read_free_Inr 2(3) rf n by blast
      then show ?thesis
        using pos res read_free_frame [OF rf] by (auto simp: set_free_def update_conv' max_def split: if_splits)
    next
      case False
      then have "wait_for_room x q polls (set_free (q_name q) n g) w2 = (Some (Inr b), g', w', rest)"
        using 2(2) poll True rf n by (simp add: Let_def)
      from 2(1) [OF poll refl _ rf [symmetric] n False this 2(3)] show ?thesis
        using True by (auto split: if_splits)
    qed
  qed
qed

definition sample_waiting_queue :: queue where
  "sample_waiting_queue = sample_queue\<lparr>throttle := Some 1\<rparr>"

text \<open>A queue with one attempt in flight, which is done at the second poll.\<close>

definition sample_busy :: world where
  "sample_busy = sample_world\<lparr>table := \<lparr>attempts = [sample_dispatched], next_id = 8\<rparr>\<rparr>"

definition sample_polls :: "poll list" where
  "sample_polls = [(True, \<lambda>w. w), (True, \<lambda>w. w\<lparr>table := empty_db\<rparr>)]"

lemma sample_read:
  "read_inflight sample_ctx q (w\<lparr>table := empty_db\<rparr>) = (Inr 0, set_inflight_tasks (q_name q) 0 (w\<lparr>table := empty_db\<rparr>))"
  by (simp add: read_inflight_def inflight_window_def sample_ctx_def stale_task_settings_def
      recovery_margin_seconds_def default_settings_def Let_def count_inflight_def count_rows_def empty_db_def
      split: option.splits)

lemma sample_polls_admit:
  "\<exists>g' w' rest. wait_for_room sample_ctx sample_waiting_queue sample_polls (new_gate True) sample_busy =
     (Some (Inr True), g', w', rest)"
proof -
  have first: "\<exists>n w1. read_inflight sample_ctx sample_waiting_queue sample_busy = (Inr n, w1)"
    by (rule read_inflight_ok)
      (simp add: recovery_ok_def check_recovery_settings_def stale_task_settings_def
        recovery_margin_seconds_def sample_ctx_def default_settings_def)
  then obtain n w1 where "read_inflight sample_ctx sample_waiting_queue sample_busy = (Inr n, w1)" by blast
  then show ?thesis
    by (simp add: sample_polls_def read_free_def sample_read throttle_poll_seconds_def sample_waiting_queue_def
        sample_ctx_def default_settings_def Let_def)
      (simp add: sample_read [unfolded sample_ctx_def default_settings_def sample_waiting_queue_def])
qed

theorem waiting_gate_admits_only_with_room_witness:
  "\<exists>g' w' rest n wr. wait_for_room sample_ctx sample_waiting_queue sample_polls (new_gate True) sample_busy =
     (Some (Inr True), g', w', rest) \<and> fst (read_inflight sample_ctx sample_waiting_queue wr) = Inr n \<and> int n < 1"
proof -
  obtain g' w' rest where w: "wait_for_room sample_ctx sample_waiting_queue sample_polls (new_gate True) sample_busy =
     (Some (Inr True), g', w', rest)" using sample_polls_admit by blast
  have "throttle sample_waiting_queue = Some 1" by (simp add: sample_waiting_queue_def)
  from waiting_gate_admits_only_with_room [OF w this] w show ?thesis by auto
qed

text \<open>
  C27. A waiting backfill does not wait forever: with valid settings and no stop request, the gate
  admits the submission at the first poll that finds the count below the throttle.
\<close>

theorem waiting_gate_admits_once_there_is_room:
  assumes "recovery_ok (cfg x)" and "throttle_poll_seconds (cfg x) = Inr s" and "throttle q = Some t"
    and "\<forall>(continue, others) \<in> set polls. continue"
    and "\<forall>w n. fst (read_inflight x q (frees w)) = Inr n \<longrightarrow> int n < t"
  shows "\<exists>g' w' rest. wait_for_room x q (polls @ [(True, frees)]) g w = (Some (Inr True), g', w', rest)"
  using assms(4)
proof (induction polls arbitrary: g w)
  case Nil
  obtain n w1 where n: "read_inflight x q (frees w) = (Inr n, w1)" using read_inflight_ok assms(1) by blast
  then have "int n < t" using assms(5) by (metis fst_conv)
  then show ?case using n assms(2,3) by (simp add: read_free_def)
next
  case (Cons p polls)
  obtain others where p: "p = (True, others)" using Cons.prems by (cases p) auto
  obtain n w1 where n: "read_inflight x q (others w) = (Inr n, w1)" using read_inflight_ok assms(1) by blast
  then have "read_free x q (others w) = (Inr (max 0 (t - int n)), w1)" using assms(3) by (simp add: read_free_def)
  then show ?case using p assms(2) Cons by (auto simp: Let_def)
qed

theorem waiting_gate_admits_once_there_is_room_witness:
  "\<exists>g' w' rest. wait_for_room sample_ctx sample_waiting_queue ([(True, \<lambda>w. w)] @ [(True, \<lambda>w. w\<lparr>table := empty_db\<rparr>)])
     (new_gate True) sample_busy = (Some (Inr True), g', w', rest)"
  by (rule waiting_gate_admits_once_there_is_room [where t = 1 and s = 1])
    (simp_all add: sample_read sample_waiting_queue_def recovery_ok_def check_recovery_settings_def
      stale_task_settings_def recovery_margin_seconds_def throttle_poll_seconds_def sample_ctx_def default_settings_def,
     simp add: sample_read [unfolded sample_ctx_def default_settings_def])

end
