(* ===== verification/Backfillers.thy ===== *)
theory Backfillers
  imports Throttle
begin

text \<open>
  Backfill and lookback submissions: \<open>_internal/services/queue_backfiller.py\<close> for \<open>BlockDumper\<close>
  tasks, \<open>_internal/services/window_backfiller.py\<close> for \<open>@block_task\<close> tasks and the dispatch between
  them.
\<close>

section \<open>Loops that stop at an exception\<close>

fun submit_range :: "('b \<Rightarrow> 's \<Rightarrow> bool res \<times> 's) \<Rightarrow> 'b list \<Rightarrow> nat \<Rightarrow> 's \<Rightarrow> nat res \<times> 's" where
  "submit_range f [] n s = (Inr n, s)"
| "submit_range f (b # bs) n s =
     (case f b s of
        (Inl e, s') \<Rightarrow> (Inl e, s')
      | (Inr True, s') \<Rightarrow> submit_range f bs (Suc n) s'
      | (Inr False, s') \<Rightarrow> submit_range f bs n s')"

fun each_args :: "(jdict \<Rightarrow> nat \<Rightarrow> 's \<Rightarrow> nat res \<times> 's) \<Rightarrow> jdict list \<Rightarrow> nat \<Rightarrow> 's \<Rightarrow> nat res \<times> 's" where
  "each_args f [] n s = (Inr n, s)"
| "each_args f (a # as) n s =
     (case f a n s of (Inl e, s') \<Rightarrow> (Inl e, s') | (Inr n', s') \<Rightarrow> each_args f as n' s')"

text \<open>The blocks of a window that are done or under way.\<close>

definition skip_blocks :: "registry_item \<Rightarrow> jdict \<Rightarrow> int \<Rightarrow> int \<Rightarrow> db \<Rightarrow> int set" where
  "skip_blocks item args from_block to_block d =
     executed_block_numbers (item_path item) (serialize_args args) from_block (to_block + 1) d \<union>
     inflight_block_numbers (item_path item) (serialize_args args) from_block (to_block + 1) d"

section \<open>QueueBackfiller\<close>

definition backfill_target :: "registry_item \<Rightarrow> queue_target option" where
  "backfill_target item =
     (case backfill_queue item of Some t \<Rightarrow> Some t | None \<Rightarrow> map_option Policy (live_queue item))"

text \<open>The queue \<open>execute\<close> is told; the backfill queue of a \<open>BlockDumper\<close> task is a \<open>Queue\<close>.\<close>

definition execute_queue :: "registry_item \<Rightarrow> queue option" where
  "execute_queue item = (case backfill_queue item of Some (Policy q) \<Rightarrow> Some q | _ \<Rightarrow> None)"

text \<open>
  \<open>QueueBackfiller.submit_block\<close> with an optional gate. \<open>head\<close> is \<open>head_block\<close> as a callable: it is
  asked after a possible wait and may change the caller's state \<open>h\<close>. The result \<open>None\<close> is a gate
  still waiting.
\<close>

definition queue_submit_block ::
  "ctx \<Rightarrow> registry_item \<Rightarrow> jdict \<Rightarrow> int set \<Rightarrow> ('h \<Rightarrow> int \<times> 'h) \<Rightarrow> int \<Rightarrow> poll list \<Rightarrow> gate option \<Rightarrow> 'h \<Rightarrow> world \<Rightarrow>
   bool res option \<times> gate option \<times> 'h \<times> world \<times> poll list" where
  "queue_submit_block x item args executed head block polls g h w =
     (if block \<in> executed then (Some (Inr False), g, h, w, polls)
      else (case match_condition item block args of
        Inl e \<Rightarrow> (Some (Inl e), g, h, w, polls)
      | Inr False \<Rightarrow> (Some (Inr False), g, h, w, polls)
      | Inr True \<Rightarrow>
          (case (case g of None \<Rightarrow> (Some (Inr True), None, w, polls)
               | Some gt \<Rightarrow> (case admit x (backfill_target item) polls gt w of
                   (r, gt', w', ps) \<Rightarrow> (r, Some gt', w', ps))) of
             (Some (Inr True), g1, w1, ps) \<Rightarrow>
               (case head h of (n, h1) \<Rightarrow>
                  (case execute x item block args (n - block > ARCHIVE_BLOCK_THRESHOLD) (execute_queue item) (Some n) w1 of
                     (Inr True, w2) \<Rightarrow> (Some (Inr True), map_option (spent (backfill_target item)) g1, h1, w2, ps)
                   | (r, w2) \<Rightarrow> (Some r, g1, h1, w2, ps)))
           | (r, g1, w1, ps) \<Rightarrow> (r, g1, h, w1, ps))))"

text \<open>A submission through a gate that does not wait.\<close>

definition lookback_submit ::
  "ctx \<Rightarrow> registry_item \<Rightarrow> jdict \<Rightarrow> int set \<Rightarrow> int \<Rightarrow> int \<Rightarrow> gate \<times> world \<Rightarrow> bool res \<times> gate \<times> world" where
  "lookback_submit x item args executed head block s =
     (case queue_submit_block x item args executed (\<lambda>h. (head, h)) block [] (Some (fst s)) () (snd s) of
        (r, g, _, w, _) \<Rightarrow>
          (case r of Some b \<Rightarrow> b | None \<Rightarrow> Inr False, case g of Some gt \<Rightarrow> gt | None \<Rightarrow> fst s, w))"

definition queue_process_item_range :: "ctx \<Rightarrow> registry_item \<Rightarrow> int \<Rightarrow> int \<Rightarrow> int \<Rightarrow> nat action" where
  "queue_process_item_range x item from_block to_block head w =
     (case each_args (\<lambda>args n s. submit_range
            (lookback_submit x item args (skip_blocks item args from_block to_block (table (snd s))) head)
            [from_block..to_block] n s)
          (get_execution_args item) 0 (new_gate False, w) of
        (r, s) \<Rightarrow> (r, snd s))"

section \<open>WindowBackfiller\<close>

text \<open>\<open>WindowBackfiller.submit_block\<close> returns True whether or not the executor sent a message.\<close>

definition window_submit_block ::
  "ctx \<Rightarrow> registry_item \<Rightarrow> jdict \<Rightarrow> int set \<Rightarrow> int \<Rightarrow> int \<Rightarrow> bool action" where
  "window_submit_block x item args executed head block w =
     (if block \<in> executed then (Inr False, w)
      else (case match_condition item block args of
        Inl e \<Rightarrow> (Inl e, w)
      | Inr False \<Rightarrow> (Inr False, w)
      | Inr True \<Rightarrow>
          let archive = head - block > ARCHIVE_BLOCK_THRESHOLD;
              w1 = (if archive then increment_archive_network_usage w else w);
              queue = (case backfill_queue item of Some (Name n) \<Rightarrow> Some n | _ \<Rightarrow> None)
          in (case celery_execute x item block args archive queue w1 of
                (Inl e, w2) \<Rightarrow> (Inl e, w2) | (Inr _, w2) \<Rightarrow> (Inr True, w2))))"

definition process_item_range :: "ctx \<Rightarrow> registry_item \<Rightarrow> int \<Rightarrow> int \<Rightarrow> int \<Rightarrow> nat action" where
  "process_item_range x item from_block to_block head w =
     (if live_queue item \<noteq> None then queue_process_item_range x item from_block to_block head w
      else each_args (\<lambda>args n w. submit_range
            (window_submit_block x item args (skip_blocks item args from_block to_block (table w)) head)
            [from_block..to_block] n w)
          (get_execution_args item) 0 w)"

section \<open>Invariants of the loops\<close>

text \<open>A relation between states that every submission keeps, with its counter.\<close>

locale submit_loop =
  fixes inv :: "'s \<Rightarrow> 's \<Rightarrow> bool" and counts :: "'s \<Rightarrow> 's \<Rightarrow> nat \<Rightarrow> bool"
  assumes refl: "inv s s" "counts s s 0"
    and trans: "inv s t \<Longrightarrow> inv t u \<Longrightarrow> inv s u"
    and add: "counts s t m \<Longrightarrow> counts t u n \<Longrightarrow> counts s u (m + n)"
begin

lemma submit_range_inv:
  assumes "submit_range f bs n s = (r, s')"
    and "\<And>b t r t'. f b t = (r, t') \<Longrightarrow> inv s t \<Longrightarrow> inv t t' \<and> (\<forall>v. r = Inr v \<longrightarrow> counts t t' (of_bool v))"
  shows "inv s s' \<and> (\<forall>m. r = Inr m \<longrightarrow> n \<le> m \<and> counts s s' (m - n))"
proof -
  have "inv s s' \<and> (\<forall>m. r = Inr m \<longrightarrow> n \<le> m \<and> counts t s' (m - n))"
    if "submit_range f bs n t = (r, s')" "inv s t" for n t
    using that
  proof (induction bs arbitrary: n t)
    case Nil
    then show ?case by (auto simp: refl)
  next
    case (Cons b bs)
    obtain v t' where f: "f b t = (v, t')" by fastforce
    note one = assms(2) [OF f Cons.prems(2)]
    have st: "inv s t'" using one Cons.prems(2) trans by blast
    show ?case
    proof (cases v)
      case (Inl e)
      then show ?thesis using Cons.prems(1) f st by auto
    next
      case (Inr a)
      then have "submit_range f bs (n + of_bool a) t' = (r, s')" using Cons.prems(1) f by (cases a) auto
      from Cons.IH [OF this st] show ?thesis using one Inr add [of t t' "of_bool a" s'] by fastforce
    qed
  qed
  from this [OF assms(1) refl(1)] show ?thesis .
qed

lemma each_args_inv:
  assumes "each_args f as n s = (r, s')"
    and "\<And>a n t r t'. f a n t = (r, t') \<Longrightarrow> inv s t \<Longrightarrow>
      inv t t' \<and> (\<forall>m. r = Inr m \<longrightarrow> n \<le> m \<and> counts t t' (m - n))"
  shows "inv s s' \<and> (\<forall>m. r = Inr m \<longrightarrow> n \<le> m \<and> counts s s' (m - n))"
proof -
  have "inv s s' \<and> (\<forall>m. r = Inr m \<longrightarrow> n \<le> m \<and> counts t s' (m - n))"
    if "each_args f as n t = (r, s')" "inv s t" for n t
    using that
  proof (induction as arbitrary: n t)
    case Nil
    then show ?case by (auto simp: refl)
  next
    case (Cons a as)
    obtain v t' where f: "f a n t = (v, t')" by fastforce
    note one = assms(2) [OF f Cons.prems(2)]
    have st: "inv s t'" using one Cons.prems(2) trans by blast
    show ?case
    proof (cases v)
      case (Inl e)
      then show ?thesis using Cons.prems(1) f st by auto
    next
      case (Inr k)
      then have rest: "each_args f as k t' = (r, s')" using Cons.prems(1) f by simp
      have "n \<le> m \<and> counts t s' (m - n)" if "r = Inr m" for m
        using Cons.IH [OF rest st] one Inr that add [of t t' "k - n" s' "m - k"] by fastforce
      then show ?thesis using Cons.IH [OF rest st] by blast
    qed
  qed
  from this [OF assms(1) refl(1)] show ?thesis .
qed

end

text \<open>
  What lookback submissions through a gate keep: the queue's budget plus the messages sent never grows,
  and the counter is the number of messages sent.
\<close>

definition within_budget :: "ctx \<Rightarrow> queue \<Rightarrow> gate \<times> world \<Rightarrow> gate \<times> world \<Rightarrow> bool" where
  "within_budget x q s t \<longleftrightarrow> \<not> g_wait (fst s) \<longrightarrow> \<not> g_wait (fst t) \<and>
     int (length (sent (snd t))) + budget x q (fst t) (snd t) \<le> int (length (sent (snd s))) + budget x q (fst s) (snd s)"

definition counts_sent :: "gate \<times> world \<Rightarrow> gate \<times> world \<Rightarrow> nat \<Rightarrow> bool" where
  "counts_sent s t n \<longleftrightarrow> length (sent (snd t)) = length (sent (snd s)) + n"

interpretation lookback: submit_loop "within_budget x q" counts_sent
  by unfold_locales (auto simp: within_budget_def counts_sent_def)

section \<open>Lookback submissions and the throttle\<close>

lemma execute_length:
  assumes "execute x item block args use_archive queue head w = (r, w')"
  shows "length (sent w') = length (sent w) + of_bool (r = Inr True)"
proof -
  obtain task created d where
    c: "create_or_reopen (clk w) (cfg x) block (item_path item) args (table w) = ((task, created), d)"
    by (metis surj_pair)
  from assms c show ?thesis
  proof (cases rule: execute_cases)
    case (given_up policy)
    then show ?thesis using gave_up_evolves [OF given_up(2)] by simp
  next
    case (submitted policy w2)
    then show ?thesis using submit_message_result(3,4) [OF submitted(4)] gave_up_evolves [OF submitted(3)] by auto
  qed auto
qed

lemma queue_submit_block_cases [consumes 1, case_names closed refused admitted]:
  assumes "queue_submit_block x item args executed head block polls (Some g) h w = (r, g', h', w', rest)"
  obtains "block \<in> executed \<or> match_condition item block args \<noteq> Inr True"
      "r \<noteq> None" "r \<noteq> Some (Inr True)" "g' = Some g" "h' = h" "w' = w" "rest = polls"
  | gt where "block \<notin> executed" "match_condition item block args = Inr True"
      "admit x (backfill_target item) polls g w = (r, gt, w', rest)" "r \<noteq> Some (Inr True)" "g' = Some gt" "h' = h"
  | gt w1 n e where "block \<notin> executed" "match_condition item block args = Inr True"
      "admit x (backfill_target item) polls g w = (Some (Inr True), gt, w1, rest)" "head h = (n, h')"
      "execute x item block args (n - block > ARCHIVE_BLOCK_THRESHOLD) (execute_queue item) (Some n) w1 = (e, w')"
      "r = Some e" "g' = Some (if e = Inr True then spent (backfill_target item) gt else gt)"
proof -
  obtain a gt w1 ps where ad: "admit x (backfill_target item) polls g w = (a, gt, w1, ps)" by (metis surj_pair)
  obtain n h1 where hd: "head h = (n, h1)" by fastforce
  obtain e w2 where ex: "execute x item block args (n - block > ARCHIVE_BLOCK_THRESHOLD) (execute_queue item) (Some n) w1 = (e, w2)"
    by fastforce
  show thesis
  proof (cases "block \<in> executed \<or> match_condition item block args \<noteq> Inr True")
    case True
    then show ?thesis
      using assms that(1) by (auto simp: queue_submit_block_def split: if_splits sum.splits bool.splits)
  next
    case False
    then show ?thesis
      using assms ad hd ex that(2,3)
      by (cases "a = Some (Inr True)")
        (auto simp: queue_submit_block_def split: option.splits sum.splits bool.splits)
  qed
qed

lemma room_spent: "room q g = Some n \<Longrightarrow> room q (spent (Some (Policy q)) g) = Some (n - 1)"
  by (simp add: spent_def room_def) (simp add: set_free_def update_conv')

lemma wait_spent [simp]: "g_wait (spent t g) = g_wait g"
  by (simp add: spent_def split: option.splits queue_target.splits)

lemma lookback_submit_step:
  assumes "backfill_target item = Some (Policy q)" "throttle q \<noteq> None" "\<not> g_wait (fst s)"
    and "lookback_submit x item args executed head block s = (r, s')"
  shows "within_budget x q s s' \<and> (\<forall>v. r = Inr v \<longrightarrow> counts_sent s s' (of_bool v))"
proof -
  obtain g w where s: "s = (g, w)" by fastforce
  obtain a g1 w1 ps where ad: "admit x (Some (Policy q)) [] g w = (a, g1, w1, ps)" by (metis surj_pair)
  note adm = admit_budget [OF assms(2) _ ad] 
  have nw: "\<not> g_wait g" using assms(3) s by simp
  show ?thesis
  proof (cases "block \<notin> executed \<and> match_condition item block args = Inr True")
    case False
    then show ?thesis
      using assms(4) by (auto simp: lookback_submit_def queue_submit_block_def s within_budget_def counts_sent_def
          split: sum.splits bool.splits if_splits)
  next
    case open_: True
    show ?thesis
    proof (cases "a = Some (Inr True)")
      case False
      then have "fst s' = g1" "snd s' = w1" "r \<noteq> Inr True"
        using assms(1,4) open_ ad adm [OF nw]
        by (auto simp: lookback_submit_def queue_submit_block_def s split: option.splits sum.splits bool.splits)
      moreover have "budget x q g1 w1 \<le> budget x q g w"
        using adm [OF nw] False budget_nonneg [of x q g w] fst_read_free_cong [of w1 w x q]
        by (auto simp: budget_def)
      ultimately show ?thesis using adm [OF nw] by (auto simp: within_budget_def counts_sent_def s)
    next
      case True
      then obtain n where n: "room q g1 = Some n" "0 < n" "n = budget x q g w" using adm [OF nw] by blast
      obtain e w2 where ex: "execute x item block args (head - block > ARCHIVE_BLOCK_THRESHOLD)
          (execute_queue item) (Some head) w1 = (e, w2)" by fastforce
      have st: "s' = (if e = Inr True then (spent (Some (Policy q)) g1, w2) else (g1, w2))" "r = e"
        using assms(1,4) open_ ad True ex
        by (auto simp: lookback_submit_def queue_submit_block_def s split: option.splits sum.splits bool.splits)
      show ?thesis
        using st n execute_length [OF ex] adm [OF nw] room_spent [OF n(1)]
        by (cases "e = Inr True") (auto simp: within_budget_def counts_sent_def s budget_def)
    qed
  qed
qed

text \<open>
  C28. Lookback submissions respect the throttle: one pass over a window sends at most as many messages
  as the throttle of the target queue had room for when the pass started, and exactly as many as it
  reports. Blocks beyond that are left for a later pass.
\<close>

theorem lookback_respects_throttle:
  assumes "live_queue item \<noteq> None" and "backfill_target item = Some (Policy q)" and "throttle q = Some t"
    and "fst (read_inflight x q w) = Inr inflight"
    and "process_item_range x item from_block to_block head w = (r, w')"
  shows "int (length (sent w') - length (sent w)) \<le> max 0 (t - int inflight) \<and>
    (\<forall>n. r = Inr n \<longrightarrow> length (sent w') = length (sent w) + n)"
proof -
  let ?f = "\<lambda>args n s. submit_range (lookback_submit x item args
    (skip_blocks item args from_block to_block (table (snd s))) head) [from_block..to_block] n s"
  obtain s' where run: "each_args ?f (get_execution_args item) 0 (new_gate False, w) = (r, s')" and w': "w' = snd s'"
    using assms(1,5) by (auto simp: process_item_range_def queue_process_item_range_def split: prod.splits)
  let ?s = "(new_gate False, w)"
  have nw: "\<not> g_wait (fst u)" if "within_budget x q ?s u" for u
    using that by (simp add: within_budget_def new_gate_def)
  have one: "within_budget x q u u' \<and> (\<forall>v. b = Inr v \<longrightarrow> counts_sent u u' (of_bool v))"
    if "lookback_submit x item args ex head bl u = (b, u')" "within_budget x q ?s u" for args ex bl u b u'
    using lookback_submit_step [OF assms(2) _ nw [OF that(2)] that(1)] assms(3) by simp
  have "within_budget x q u u' \<and> (\<forall>m. b = Inr m \<longrightarrow> n \<le> m \<and> counts_sent u u' (m - n))"
    if f: "?f a n u = (b, u')" and su: "within_budget x q ?s u" for a n u b u'
    using lookback.submit_range_inv [OF f, of x q] one lookback.trans [OF su] by blast
  from lookback.each_args_inv [OF run this]
  have fin: "within_budget x q ?s s'" "\<And>m. r = Inr m \<Longrightarrow> counts_sent ?s s' m" by auto
  have "budget x q (new_gate False) w = max 0 (t - int inflight)"
    using assms(3,4) by (auto simp: budget_def room_def new_gate_def read_free_def split: prod.splits sum.splits)
  then have "int (length (sent w')) \<le> int (length (sent w)) + max 0 (t - int inflight)"
    using fin(1) budget_nonneg [of x q "fst s'" "snd s'"] w' by (auto simp: within_budget_def new_gate_def)
  then show ?thesis using fin(2) w' by (auto simp: counts_sent_def)
qed

theorem lookback_respects_throttle_witness:
  "length (sent (snd (process_item_range sample_ctx sample_item 90 99 100 sample_world))) \<le> 5"
proof -
  obtain r w' where p: "process_item_range sample_ctx sample_item 90 99 100 sample_world = (r, w')" by fastforce
  have "sample_world = sample_world\<lparr>table := empty_db\<rparr>" by (simp add: sample_world_def)
  then have "fst (read_inflight sample_ctx sample_queue sample_world) = Inr 0" by (metis sample_read fst_conv)
  moreover have "live_queue sample_item \<noteq> None" "backfill_target sample_item = Some (Policy sample_queue)"
    "throttle sample_queue = Some 5"
    by (simp_all add: sample_item_def backfill_target_def sample_queue_def)
  ultimately show ?thesis
    using lookback_respects_throttle [OF _ _ _ _ p, of sample_queue 5 0] p by (simp add: sample_world_def)
qed

section \<open>What the window backfiller reports\<close>

lemma window_submit_block_cases [consumes 1, case_names closed submitted]:
  assumes "window_submit_block x item args ex head block w = (r, w')"
  obtains "block \<in> ex \<or> match_condition item block args \<noteq> Inr True" "w' = w" "r \<noteq> Inr True"
      "block \<in> ex \<or> (\<exists>v. match_condition item block args = Inr v) \<Longrightarrow> r = Inr False"
  | archive queue e w1 where "block \<notin> ex" "match_condition item block args = Inr True"
      "w1 = (if archive then increment_archive_network_usage w else w)"
      "celery_execute x item block args archive queue w1 = (e, w')"
      "r = (case e of Inl err \<Rightarrow> Inl err | Inr _ \<Rightarrow> Inr True)"
proof (cases "block \<in> ex \<or> match_condition item block args \<noteq> Inr True")
  case True
  then show ?thesis
  proof (cases "match_condition item block args")
    case (Inl e)
    then show ?thesis
      by (intro that(1)) (use assms Inl in \<open>auto simp: window_submit_block_def split: if_splits\<close>)
  next
    case (Inr v)
    show ?thesis
      by (rule that(1)) (use assms Inr True in \<open>auto simp: window_submit_block_def split: if_splits bool.splits\<close>)
  qed
next
  case False
  let ?archive = "head - block > ARCHIVE_BLOCK_THRESHOLD"
  let ?queue = "case backfill_queue item of Some (Name n) \<Rightarrow> Some n | _ \<Rightarrow> None"
  let ?w1 = "if ?archive then increment_archive_network_usage w else w"
  obtain e w2 where e: "celery_execute x item block args ?archive ?queue ?w1 = (e, w2)" by fastforce
  then have "w' = w2" "r = (case e of Inl err \<Rightarrow> Inl err | Inr _ \<Rightarrow> Inr True)"
    using assms False by (auto simp: window_submit_block_def Let_def split: sum.splits)
  then show ?thesis using that(2) [OF _ _ refl] e False by blast
qed

text \<open>
  For \<open>@block_task\<close> tasks the count of submitted blocks includes blocks nothing was sent for: when
  the attempt of a block failed and its retry is not due yet (or it has no tries left), \<open>submit_block\<close>
  returns True although the executor sent no message.
\<close>

theorem window_backfiller_counts_unsent:
  assumes "block \<notin> executed" and "match_condition item block args = Inr True"
    and "find_key block (item_path item) (serialize_args args) (table w) = Some a" and "status a = FAILED"
    and "int (attempt_count a) \<ge> get_max_attempt_limit (cfg x) \<or> (\<exists>t. next_retry_at a = Some t \<and> py_now (clk w) < t)"
  shows "\<exists>w'. window_submit_block x item args executed head block w = (Inr True, w') \<and> sent w' = sent w \<and>
    table w' = table w"
proof -
  have "\<not> reopens (clk w) (cfg x) a False"
    using assms(4,5) by (auto simp: reopens_def task_can_retry_def)
  then have "task_create_or_get_pending (clk w) (cfg x) block (item_path item) (Some args) (table w) = ((a, False), table w)"
    using assms(3) by (simp add: task_create_or_get_pending_alone get_or_create_def)
  then show ?thesis
    using assms(1,2,4) by (simp add: window_submit_block_def celery_execute_alone Let_def)
qed

definition sample_block_task :: registry_item where
  "sample_block_task = sample_item\<lparr>live_queue := None\<rparr>"

theorem window_backfiller_counts_unsent_witness:
  "\<exists>w'. window_submit_block sample_ctx sample_block_task [] {} 200 100
     (sample_world\<lparr>table := \<lparr>attempts = [sample_failed], next_id = 1\<rparr>\<rparr>) = (Inr True, w') \<and> sent w' = []"
proof -
  let ?w = "sample_world\<lparr>table := \<lparr>attempts = [sample_failed], next_id = 1\<rparr>\<rparr>"
  have "match_condition sample_block_task 100 [] = Inr True"
    by (simp add: match_condition_def sample_block_task_def sample_item_def)
  moreover have "find_key 100 (item_path sample_block_task) (serialize_args []) (table ?w) = Some sample_failed"
    by (simp add: find_key_def item_path_def sample_block_task_def sample_item_def attempt_key_def
        serialize_args_def dumps_def sample_failed_def new_attempt_def)
  moreover have "status sample_failed = FAILED" "next_retry_at sample_failed = Some 1005"
    by (simp_all add: sample_failed_def)
  ultimately show ?thesis
    using window_backfiller_counts_unsent [of 100 "{}" sample_block_task "[]" ?w sample_failed sample_ctx 200]
    by (auto simp: sample_world_def sample_clock_def)
qed

end
