(* ===== verification/Backfill_Scheduler.thy ===== *)
theory Backfill_Scheduler
  imports Backfillers
begin

text \<open>
  The historical backfill (\<open>_internal/services/backfill_scheduler.py\<close>): its chain-head caches, the dry
  run, the prefetch of executed blocks and the run itself.

  The chain and the monotonic clock are outside this repository: \<open>chain k\<close> is the time at the \<open>k\<close>-th
  look and what reading the head block would give then. \<open>others\<close> lists what other processes do to the
  world at each poll of a waiting throttle gate; when it is used up, the wait is interrupted
  (\<open>KeyboardInterrupt\<close>), which ends the run.
\<close>

definition ARCHIVE_NETWORK :: string where
  "ARCHIVE_NETWORK = ''archive''"

definition HEAD_REFRESH_SECONDS :: rat where
  "HEAD_REFRESH_SECONDS = 60"

record dry_run_stats =
  total_blocks :: int
  already_processed :: int
  blocks_needing_tasks :: int
  estimated_tasks :: int

record backfill =
  bf_network :: string
  bf_from :: int
  bf_to :: int
  bf_rate_limit :: rat
  bf_dry_run :: bool
  is_running :: bool
  throttle_gate :: gate
  current_head_cache :: "int option"
  dumper_head_cache :: "int option"
  dumper_head_read_at :: "instant option"
  looks :: nat

type_synonym chain = "nat \<Rightarrow> instant \<times> int res"

type_synonym bf_state = "backfill \<times> world \<times> (world \<Rightarrow> world) list"

definition new_backfill :: "string \<Rightarrow> rat \<Rightarrow> int \<Rightarrow> int \<Rightarrow> bool \<Rightarrow> backfill" where
  "new_backfill network rate_limit from_block to_block dry =
     \<lparr>bf_network = network, bf_from = from_block, bf_to = to_block, bf_rate_limit = rate_limit, bf_dry_run = dry, is_running = False,
      throttle_gate = new_gate True, current_head_cache = None, dumper_head_cache = None,
      dumper_head_read_at = None, looks = 0\<rparr>"

section \<open>The chain head\<close>

definition get_network_type_for_block :: "chain \<Rightarrow> int \<Rightarrow> backfill \<Rightarrow> string res \<times> backfill" where
  "get_network_type_for_block chain block b =
     (let b' = (case current_head_cache b of Some _ \<Rightarrow> Inr b
          | None \<Rightarrow> (case snd (chain (looks b)) of Inl e \<Rightarrow> Inl e
              | Inr h \<Rightarrow> Inr (b\<lparr>current_head_cache := Some h, looks := Suc (looks b)\<rparr>)))
      in (case b' of
            Inl e \<Rightarrow> (Inl e, b\<lparr>looks := Suc (looks b)\<rparr>)
          | Inr b1 \<Rightarrow>
              (Inr (if the (current_head_cache b1) - block > ARCHIVE_BLOCK_THRESHOLD then ARCHIVE_NETWORK
                    else bf_network b1), b1)))"

definition latest_dumper_head :: "chain \<Rightarrow> int \<Rightarrow> backfill \<Rightarrow> int \<times> backfill" where
  "latest_dumper_head chain block b =
     (let (now, reading) = chain (looks b);
          b1 = b\<lparr>looks := Suc (looks b)\<rparr>;
          b2 = (if (case dumper_head_read_at b of None \<Rightarrow> True | Some t \<Rightarrow> now - t \<ge> HEAD_REFRESH_SECONDS)
                then (case reading of
                  Inr h \<Rightarrow> b1\<lparr>dumper_head_read_at := Some now, dumper_head_cache := Some h\<rparr>
                | Inl _ \<Rightarrow> b1\<lparr>dumper_head_read_at := Some now\<rparr>)
                else b1)
      in (case dumper_head_cache b2 of Some h \<Rightarrow> h | None \<Rightarrow> block, b2))"

section \<open>The executed blocks\<close>

definition prefetch_executed_blocks :: "ctx \<Rightarrow> int \<Rightarrow> int \<Rightarrow> db \<Rightarrow> (string \<times> string, int set) dict" where
  "prefetch_executed_blocks x from_block to_block d =
     fold (\<lambda>item. fold (\<lambda>args cache.
         AList.update (item_path item, serialize_args args)
           (executed_block_numbers (item_path item) (serialize_args args) from_block (to_block + 1) d) cache)
       (get_execution_args item)) (get_functions (registry x)) []"

section \<open>Dry run\<close>

definition dry_run_block ::
  "bool \<Rightarrow> registry_item \<Rightarrow> jdict \<Rightarrow> int set \<Rightarrow> int \<Rightarrow> int \<times> int set \<Rightarrow> int \<times> int set" where
  "dry_run_block running item args executed block acc =
     (if \<not> running \<or> block \<in> executed then acc
      else (case match_condition item block args of
        Inr True \<Rightarrow> (fst acc + 1, insert block (snd acc))
      | _ \<Rightarrow> acc))"

definition run_dry_run :: "ctx \<Rightarrow> backfill \<Rightarrow> db \<Rightarrow> dry_run_stats" where
  "run_dry_run x b d =
     (let cache = prefetch_executed_blocks x (bf_from b) (bf_to b) d;
          (tasks, blocks) = fold (\<lambda>item. fold (\<lambda>args. fold
              (dry_run_block (is_running b) item args (the (map_of cache (item_path item, serialize_args args))))
              [bf_from b..bf_to b]) (get_execution_args item)) (get_functions (registry x)) (0, {});
          total = bf_to b - bf_from b + 1
      in \<lparr>total_blocks = total, already_processed = total - int (card blocks),
          blocks_needing_tasks = int (card blocks), estimated_tasks = tasks\<rparr>)"

section \<open>The run\<close>

text \<open>A loop whose body can end it: by \<open>break\<close>, or by an interrupt that passes through.\<close>

fun until_stopped :: "('a \<Rightarrow> 's \<Rightarrow> bool \<times> 's) \<Rightarrow> 'a list \<Rightarrow> 's \<Rightarrow> bool \<times> 's" where
  "until_stopped f [] s = (False, s)"
| "until_stopped f (a # as) s =
     (case f a s of (True, s') \<Rightarrow> (True, s') | (False, s') \<Rightarrow> until_stopped f as s')"

text \<open>
  One argument set of \<open>_process_registry_item_for_backfill\<close>. Its \<open>except Exception\<close> logs whatever
  the submission raised; the gate's \<open>should_continue\<close> is \<open>is_running\<close>.
\<close>

definition backfill_args ::
  "ctx \<Rightarrow> chain \<Rightarrow> (string \<times> string, int set) dict \<Rightarrow> int \<Rightarrow> registry_item \<Rightarrow> jdict \<Rightarrow> bf_state \<Rightarrow> bool \<times> bf_state" where
  "backfill_args x chain cache block item args s =
     (case s of (b, w, others) \<Rightarrow>
        let executed = (case map_of cache (item_path item, serialize_args args) of Some e \<Rightarrow> e | None \<Rightarrow> {});
            head = (case current_head_cache b of Some h \<Rightarrow> h | None \<Rightarrow> block)
        in if live_queue item \<noteq> None
           then (case queue_submit_block x item args executed (latest_dumper_head chain block) block
                   (map (Pair (is_running b)) others) (Some (throttle_gate b)) b w of
                   (r, g, b', w', polls) \<Rightarrow>
                     (r = None, case g of Some gt \<Rightarrow> b'\<lparr>throttle_gate := gt\<rparr> | None \<Rightarrow> b', w', map snd polls))
           else (False, b, snd (window_submit_block x item args executed head block w), others))"

definition process_registry_item_for_backfill ::
  "ctx \<Rightarrow> chain \<Rightarrow> (string \<times> string, int set) dict \<Rightarrow> int \<Rightarrow> registry_item \<Rightarrow> bf_state \<Rightarrow> bool \<times> bf_state" where
  "process_registry_item_for_backfill x chain cache block item =
     until_stopped (backfill_args x chain cache block item) (get_execution_args item)"

definition process_block_for_backfill ::
  "ctx \<Rightarrow> chain \<Rightarrow> (string \<times> string, int set) dict \<Rightarrow> int \<Rightarrow> bf_state \<Rightarrow> bool \<times> bf_state" where
  "process_block_for_backfill x chain cache block =
     until_stopped (process_registry_item_for_backfill x chain cache block) (get_functions (registry x))"

text \<open>The metrics of one backfilled block; a head of 0 is falsy and reports no lag.\<close>

definition backfill_metrics :: "backfill \<Rightarrow> int \<Rightarrow> world \<Rightarrow> world" where
  "backfill_metrics b block w =
     (let source = bs_name LATEST_BLOCK_SOURCE;
          w1 = increment_blocks_processed ''backfill'' source
            (set_backfill_progress (bf_from b) (bf_to b) block (set_current_block ''backfill'' block source w))
      in (case current_head_cache b of
            Some h \<Rightarrow> if h \<noteq> 0 then set_block_lag ''backfill'' (h - block) source w1 else w1
          | None \<Rightarrow> w1))"

text \<open>
  One round of the loop. Ctrl+C ends it inside the block, where it waits for room, or in the pause after it; the
  timer observes the block either way.
\<close>

definition backfill_block ::
  "ctx \<Rightarrow> chain \<Rightarrow> (string \<times> string, int set) dict \<Rightarrow> int \<Rightarrow> bf_state \<Rightarrow> bool \<times> bf_state" where
  "backfill_block x chain cache block s =
     (if \<not> is_running (fst s) then (True, s)
      else
        let timer = timer_enter (fst (snd s)) (BlockProcessingTimer ''backfill'' (bs_name LATEST_BLOCK_SOURCE))
        in (case process_block_for_backfill x chain cache block s of
              (stopped, (b, w, others)) \<Rightarrow>
                let w1 = timer_exit (measured x ''backfill'' block) timer w
                in if stopped then (True, (b, w1, others))
                   else (block < bf_to b \<and> bf_rate_limit b > 0 \<and> interrupted_after x block,
                     (b, backfill_metrics b block w1, others))))"

definition backfill_stop :: "backfill \<Rightarrow> backfill" where [simp]:
  "backfill_stop b = b\<lparr>is_running := False\<rparr>"

definition run_backfill :: "ctx \<Rightarrow> chain \<Rightarrow> bf_state \<Rightarrow> bf_state" where
  "run_backfill x chain s =
     (case s of (b, w, others) \<Rightarrow>
        let w1 = set_backfill_progress (bf_from b) (bf_to b) (bf_from b) w;
            cache = prefetch_executed_blocks x (bf_from b) (bf_to b) (table w1)
        in (case until_stopped (backfill_block x chain cache) [bf_from b..bf_to b] (b, w1, others) of
              (stopped, (b', w', others')) \<Rightarrow> (if stopped then backfill_stop b' else b', w', others')))"

definition backfill_start :: "ctx \<Rightarrow> chain \<Rightarrow> bf_state \<Rightarrow> dry_run_stats option res \<times> bf_state" where
  "backfill_start x chain s =
     (case s of (b, w, others) \<Rightarrow>
        let b1 = b\<lparr>is_running := True, looks := Suc (looks b)\<rparr> in
        (case chain (looks b) of
           (now, Inl e) \<Rightarrow> (Inl e, b1, w, others)
         | (now, Inr h) \<Rightarrow>
             let b2 = b1\<lparr>current_head_cache := Some h, dumper_head_cache := Some h, dumper_head_read_at := Some now\<rparr>
             in if bf_dry_run b then (Inr (Some (run_dry_run x b2 (table w))), b2, w, others)
                else (Inr None, run_backfill x chain (b2, w, others))))"

section \<open>The loops\<close>

lemma until_stopped_bound:
  fixes m :: "'s \<Rightarrow> nat"
  assumes "\<And>a s. a \<in> set as \<Longrightarrow> I s \<Longrightarrow> I (snd (f a s)) \<and> m (snd (f a s)) \<le> m s + c a" and "I s"
  shows "I (snd (until_stopped f as s)) \<and> m (snd (until_stopped f as s)) \<le> m s + sum_list (map c as)"
  using assms
proof (induction as arbitrary: s)
  case (Cons a as)
  obtain v s' where f: "f a s = (v, s')" by fastforce
  then have one: "I s'" "m s' \<le> m s + c a" using Cons.prems(1) [of a s] Cons.prems(2) by auto
  have "I (snd (until_stopped f as s')) \<and> m (snd (until_stopped f as s')) \<le> m s' + sum_list (map c as)"
    by (rule Cons.IH) (use Cons.prems(1) one(1) in auto)
  with one f show ?case by (cases v) auto
qed simp

lemma until_stopped_inv:
  assumes "\<And>a s. a \<in> set as \<Longrightarrow> I s \<Longrightarrow> I (snd (f a s))" and "I s"
  shows "I (snd (until_stopped f as s))"
  using until_stopped_bound [of as I f "\<lambda>_. 0" "\<lambda>_. 0" s] assms by simp

text \<open>In a loop that was not stopped, what one round reached and no round undoes is there at the end.\<close>

lemma until_stopped_reaches:
  assumes "\<And>a s. a \<in> set as \<Longrightarrow> I s \<Longrightarrow> I (snd (f a s))" and "I s"
    and "\<And>a s. a \<in> set as \<Longrightarrow> I s \<Longrightarrow> Q s \<Longrightarrow> Q (snd (f a s))"
    and "a \<in> set as" and "\<And>s. I s \<Longrightarrow> \<not> fst (f a s) \<Longrightarrow> Q (snd (f a s))"
    and "\<not> fst (until_stopped f as s)"
  shows "Q (snd (until_stopped f as s))"
  using assms
proof (induction as arbitrary: s)
  case (Cons b bs)
  obtain v s' where f: "f b s = (v, s')" by fastforce
  with Cons.prems(6) have v: "\<not> v" "\<not> fst (until_stopped f bs s')" by (auto split: bool.splits)
  have I: "I s'" using Cons.prems(1) [of b s] Cons.prems(2) f by simp
  show ?case
  proof (cases "a \<in> set bs")
    case True
    have "Q (snd (until_stopped f bs s'))" by (rule Cons.IH) (use Cons.prems I True v in auto)
    then show ?thesis using f v by simp
  next
    case False
    then have q: "Q s'" using Cons.prems(2,4) Cons.prems(5) [of s] f v by simp
    have "I (snd (until_stopped f bs s')) \<and> Q (snd (until_stopped f bs s'))"
      by (rule until_stopped_inv [where I = "\<lambda>s. I s \<and> Q s"]) (use Cons.prems(1,3) I q in auto)
    then show ?thesis using f v by simp
  qed
qed simp

section \<open>The units of work\<close>

definition work_units :: "ctx \<Rightarrow> (registry_item \<times> jdict) list" where
  "work_units x = concat (map (\<lambda>item. map (Pair item) (get_execution_args item)) (get_functions (registry x)))"

definition unit_key :: "registry_item \<times> jdict \<Rightarrow> string \<times> string" where
  "unit_key u = (item_path (fst u), serialize_args (snd u))"

text \<open>A block of the range a unit of work still has to run for.\<close>

definition wanted :: "int \<Rightarrow> int \<Rightarrow> db \<Rightarrow> int \<Rightarrow> registry_item \<times> jdict \<Rightarrow> bool" where
  "wanted from_block to_block d block u \<longleftrightarrow>
     block \<notin> executed_block_numbers (item_path (fst u)) (serialize_args (snd u)) from_block (to_block + 1) d \<and>
     match_condition (fst u) block (snd u) = Inr True"

lemma fold_units:
  "fold (\<lambda>item. fold (g item) (get_execution_args item)) (get_functions (registry x)) =
   fold (\<lambda>u. g (fst u) (snd u)) (work_units x)"
proof -
  have "fold (\<lambda>item. fold (g item) (get_execution_args item)) items =
      fold (\<lambda>u. g (fst u) (snd u)) (concat (map (\<lambda>item. map (Pair item) (get_execution_args item)) items))" for items
    by (induction items) (auto simp: fold_map comp_def)
  then show ?thesis by (simp add: work_units_def)
qed

lemma sum_units:
  "sum_list (map f (work_units x)) =
   (\<Sum>item\<leftarrow>get_functions (registry x). \<Sum>args\<leftarrow>get_execution_args item. f (item, args))"
proof -
  have "sum_list (map f (concat (map (\<lambda>item. map (Pair item) (get_execution_args item)) items))) =
      (\<Sum>item\<leftarrow>items. \<Sum>args\<leftarrow>get_execution_args item. f (item, args))" for items
    by (induction items) (simp_all add: comp_def)
  then show ?thesis by (simp add: work_units_def)
qed

lemma sum_list_swap:
  fixes f :: "'a \<Rightarrow> 'b \<Rightarrow> 'c :: comm_monoid_add"
  shows "(\<Sum>a\<leftarrow>as. \<Sum>b\<leftarrow>bs. f a b) = (\<Sum>b\<leftarrow>bs. \<Sum>a\<leftarrow>as. f a b)"
  by (induction as) (simp_all add: sum_list_addf)

lemma map_of_fold_update:
  "map_of (fold (\<lambda>u. AList.update (k u) (v (k u))) us c) key = (if key \<in> k ` set us then Some (v key) else map_of c key)"
  by (induction us arbitrary: c) (auto simp: update_conv')

lemma map_of_prefetch:
  assumes "(item, args) \<in> set (work_units x)"
  shows "map_of (prefetch_executed_blocks x from_block to_block d) (item_path item, serialize_args args) =
    Some (executed_block_numbers (item_path item) (serialize_args args) from_block (to_block + 1) d)"
proof -
  let ?v = "\<lambda>k. executed_block_numbers (fst k) (snd k) from_block (to_block + 1) d"
  have p: "prefetch_executed_blocks x from_block to_block d =
      fold (\<lambda>u. AList.update (unit_key u) (?v (unit_key u))) (work_units x) []"
    unfolding prefetch_executed_blocks_def fold_units by (simp add: unit_key_def)
  have "unit_key (item, args) \<in> unit_key ` set (work_units x)" using assms by (rule imageI)
  then show ?thesis
    unfolding p using map_of_fold_update [of unit_key ?v "work_units x" "[]" "unit_key (item, args)"]
    by (simp add: unit_key_def)
qed

section \<open>Dry run\<close>

lemma fold_dry_run_block:
  "fold (dry_run_block True item args ex) bs acc =
   (fst acc + (\<Sum>b\<leftarrow>bs. of_bool (b \<notin> ex \<and> match_condition item b args = Inr True)),
    snd acc \<union> {b \<in> set bs. b \<notin> ex \<and> match_condition item b args = Inr True})"
proof (induction bs arbitrary: acc)
  case (Cons b bs)
  then show ?case
    by (cases acc) (auto simp: dry_run_block_def split: sum.splits bool.splits)
qed simp

lemma fold_dry_run:
  "fold (\<lambda>u. fold (dry_run_block True (fst u) (snd u) (ex u)) bs) us acc =
   (fst acc + (\<Sum>u\<leftarrow>us. \<Sum>b\<leftarrow>bs. of_bool (b \<notin> ex u \<and> match_condition (fst u) b (snd u) = Inr True)),
    snd acc \<union> {b \<in> set bs. \<exists>u \<in> set us. b \<notin> ex u \<and> match_condition (fst u) b (snd u) = Inr True})"
proof (induction us arbitrary: acc)
  case (Cons u us)
  show ?case
    using Cons.IH [of "fold (dry_run_block True (fst u) (snd u) (ex u)) bs acc"]
    by (auto simp: fold_dry_run_block [of "fst u" "snd u" "ex u" bs acc])
qed simp

lemma run_dry_run_stats:
  assumes "is_running b"
  shows "estimated_tasks (run_dry_run x b d) =
      (\<Sum>u\<leftarrow>work_units x. \<Sum>block\<leftarrow>[bf_from b..bf_to b]. of_bool (wanted (bf_from b) (bf_to b) d block u))"
    and "blocks_needing_tasks (run_dry_run x b d) =
      int (card {block \<in> {bf_from b..bf_to b}. \<exists>u \<in> set (work_units x). wanted (bf_from b) (bf_to b) d block u})"
proof -
  let ?cache = "prefetch_executed_blocks x (bf_from b) (bf_to b) d"
  let ?ex = "\<lambda>u. the (map_of ?cache (item_path (fst u), serialize_args (snd u)))"
  have ex: "block \<notin> ?ex u \<and> match_condition (fst u) block (snd u) = Inr True \<longleftrightarrow> wanted (bf_from b) (bf_to b) d block u"
    if "u \<in> set (work_units x)" for u block
    using map_of_prefetch [of "fst u" "snd u" x] that by (simp add: wanted_def)
  have f: "fold (\<lambda>item. fold (\<lambda>args. fold (dry_run_block (is_running b) item args (?ex (item, args)))
        [bf_from b..bf_to b]) (get_execution_args item)) (get_functions (registry x)) (0, {}) =
      fold (\<lambda>u. fold (dry_run_block True (fst u) (snd u) (?ex u)) [bf_from b..bf_to b]) (work_units x) (0, {})"
    unfolding fold_units [of "\<lambda>item args. fold (dry_run_block (is_running b) item args (?ex (item, args))) [bf_from b..bf_to b]"]
    using assms by simp
  have sum: "(\<Sum>u\<leftarrow>work_units x. \<Sum>block\<leftarrow>[bf_from b..bf_to b].
        of_bool (block \<notin> ?ex u \<and> match_condition (fst u) block (snd u) = Inr True) :: int) =
      (\<Sum>u\<leftarrow>work_units x. \<Sum>block\<leftarrow>[bf_from b..bf_to b]. of_bool (wanted (bf_from b) (bf_to b) d block u))"
    by (intro arg_cong [where f = sum_list] map_cong refl) (simp only: ex)
  note eqs = f [simplified] fold_dry_run
  show "estimated_tasks (run_dry_run x b d) =
      (\<Sum>u\<leftarrow>work_units x. \<Sum>block\<leftarrow>[bf_from b..bf_to b]. of_bool (wanted (bf_from b) (bf_to b) d block u))"
    unfolding run_dry_run_def Let_def using sum by (simp add: eqs)
  have "{block \<in> set [bf_from b..bf_to b]. \<exists>u \<in> set (work_units x). block \<notin> ?ex u \<and>
        match_condition (fst u) block (snd u) = Inr True} =
      {block \<in> {bf_from b..bf_to b}. \<exists>u \<in> set (work_units x). wanted (bf_from b) (bf_to b) d block u}"
    using ex by fastforce
  then show "blocks_needing_tasks (run_dry_run x b d) =
      int (card {block \<in> {bf_from b..bf_to b}. \<exists>u \<in> set (work_units x). wanted (bf_from b) (bf_to b) d block u})"
    unfolding run_dry_run_def Let_def by (simp add: eqs)
qed

section \<open>Messages of a run\<close>

text \<open>What waiting at a gate keeps, when the other processes keep it.\<close>

locale admission =
  fixes keeps :: "world \<Rightarrow> world \<Rightarrow> bool"
  assumes frame: "table w' = table w \<Longrightarrow> sent w' = sent w \<Longrightarrow> keeps w w'"
    and trans: "keeps w w' \<Longrightarrow> keeps w' w'' \<Longrightarrow> keeps w w''"
begin

lemma wait_for_room_keeps:
  assumes "wait_for_room x q polls g w = (r, g', w', rest)" "\<forall>p \<in> set polls. \<forall>w. keeps w (snd p w)"
  shows "keeps w w' \<and> set rest \<subseteq> set polls"
  using assms
proof (induction x q polls g w rule: wait_for_room.induct)
  case (1 x q g w)
  then show ?case using frame by simp
next
  case (2 x q continue others polls g w)
  have o: "keeps w (others w)" using 2(3) by simp
  obtain v w2 where rf: "read_free x q (others w) = (v, w2)" by fastforce
  have w2: "keeps w w2" using trans [OF o frame] read_free_frame [OF rf] by simp
  have ww: "keeps w w" by (rule frame) simp_all
  show ?case
  proof (cases "throttle_poll_seconds (cfg x)")
    case (Inl e)
    then show ?thesis using 2(2) ww by auto
  next
    case (Inr s)
    show ?thesis
    proof (cases "continue \<and> (\<exists>n. v = Inr n \<and> \<not> n > 0)")
      case True
      then obtain n where n: "continue" "v = Inr n" "\<not> n > 0" by blast
      then have "wait_for_room x q polls (set_free (q_name q) n g) w2 = (r, g', w', rest)"
        using 2(2) Inr rf by (simp add: Let_def)
      from 2(1) [OF Inr refl _ rf [symmetric] n(2,3) this] n(1) 2(3)
      have "keeps w2 w'" "set rest \<subseteq> set polls" by auto
      then show ?thesis using trans [OF w2] by auto
    next
      case False
      then show ?thesis using 2(2) Inr rf o w2 by (auto simp: Let_def split: if_splits sum.splits)
    qed
  qed
qed

lemma admit_keeps:
  assumes "admit x target polls g w = (r, g', w', rest)" "\<forall>p \<in> set polls. \<forall>w. keeps w (snd p w)"
  shows "keeps w w' \<and> set rest \<subseteq> set polls"
proof -
  have ww: "keeps w w" by (rule frame) simp_all
  show ?thesis
  proof (cases "\<exists>q t. target = Some (Policy q) \<and> throttle q = Some t")
    case False
    then show ?thesis
      using assms(1) ww by (auto simp: admit_def split: option.splits queue_target.splits)
  next
    case True
    then obtain q t where q: "target = Some (Policy q)" "throttle q = Some t" by blast
    obtain v w1 where rf: "read_free x q w = (v, w1)" by fastforce
    have w1: "keeps w w1" using frame read_free_frame [OF rf] by simp
    have m: "keeps w (emit m w)" "keeps w (emit m w1)" for m
      using frame read_free_frame [OF rf] by simp_all
    show ?thesis
    proof (cases "\<exists>n. wait_for_room x q polls (set_free (q_name q) n g) (record_throttled (q_name q) ''backfill'' w1) = (r, g', w', rest)")
      case True
      then obtain n where "wait_for_room x q polls (set_free (q_name q) n g) (record_throttled (q_name q) ''backfill'' w1) = (r, g', w', rest)"
        by blast
      then show ?thesis using wait_for_room_keeps [OF _ assms(2)] trans [OF m(2)] by (metis record_throttled_def)
    next
      case False
      then show ?thesis
        using assms(1) q rf ww w1 m by (auto simp: admit_def Let_def split: if_splits sum.splits option.splits)
    qed
  qed
qed

end

interpretation silence: admission "\<lambda>w w'. sent w' = sent w"
  by unfold_locales auto

interpretation row_keeping: admission "\<lambda>w w'. keeps_rows (table w) (table w')"
  by unfold_locales (auto intro: keeps_rows_trans)

lemma celery_execute_length:
  "celery_execute x item block args use_archive queue w = (r, w') \<Longrightarrow> length (sent w') \<le> Suc (length (sent w))"
  by (auto simp: celery_execute_alone apply_async_def Let_def split: if_splits prod.splits sum.splits)

definition quiet :: "bf_state \<Rightarrow> bool" where
  "quiet s \<longleftrightarrow> (\<forall>f \<in> set (snd (snd s)). \<forall>w. sent (f w) = sent w)"

abbreviation messages :: "bf_state \<Rightarrow> nat" where
  "messages s \<equiv> length (sent (fst (snd s)))"

lemma backfill_args_messages:
  assumes "(item, args) \<in> set (work_units x)" "quiet s"
    and s': "backfill_args x chain (prefetch_executed_blocks x from_block to_block d) block item args s = (v, s')"
  shows "quiet s' \<and> messages s' \<le> messages s + of_bool (wanted from_block to_block d block (item, args))"
proof -
  obtain b w others where s: "s = (b, w, others)" using prod_cases3 by blast
  let ?ex = "executed_block_numbers (item_path item) (serialize_args args) from_block (to_block + 1) d"
  note cache = map_of_prefetch [OF assms(1), of from_block to_block d]
  show ?thesis
  proof (cases "live_queue item = None")
    case True
    then obtain head where w': "s' = (b, snd (window_submit_block x item args ?ex head block w), others)"
      using s' by (auto simp: s backfill_args_def cache Let_def)
    have "length (sent (snd (window_submit_block x item args ?ex head block w))) \<le>
        length (sent w) + of_bool (wanted from_block to_block d block (item, args))"
      using celery_execute_length
      by (auto simp: window_submit_block_def wanted_def Let_def split: sum.splits bool.splits prod.splits)
        (metis emit_sel(3))+
    then show ?thesis using w' assms(2) by (simp add: quiet_def s)
  next
    case False
    obtain r g' b' w' rest where q: "queue_submit_block x item args ?ex (latest_dumper_head chain block) block
        (map (Pair (is_running b)) others) (Some (throttle_gate b)) b w = (r, g', b', w', rest)" by (metis surj_pair)
    then have s'': "fst (snd s') = w'" "snd (snd s') = map snd rest"
      using s' False by (auto simp: s backfill_args_def cache Let_def)
    have polls: "\<forall>p \<in> set (map (Pair (is_running b)) others). \<forall>w. sent (snd p w) = sent w"
      using assms(2) by (simp add: s quiet_def)
    have "set rest \<subseteq> set (map (Pair (is_running b)) others) \<and>
        length (sent w') \<le> length (sent w) + of_bool (wanted from_block to_block d block (item, args))"
      using q
    proof (cases rule: queue_submit_block_cases)
      case (refused gt)
      then show ?thesis using silence.admit_keeps [OF refused(3) polls] by simp
    next
      case (admitted gt w1 n e)
      then show ?thesis
        using silence.admit_keeps [OF admitted(3) polls] execute_length [OF admitted(5)] by (simp add: wanted_def)
    qed simp
    then show ?thesis using s'' assms(2) by (auto simp: quiet_def s)
  qed
qed

lemma set_work_units:
  "(item, args) \<in> set (work_units x) \<longleftrightarrow> item \<in> set (get_functions (registry x)) \<and> args \<in> set (get_execution_args item)"
  by (auto simp: work_units_def)

lemma backfill_metrics_sel [simp]:
  "table (backfill_metrics b block w) = table w" "sent (backfill_metrics b block w) = sent w"
  by (simp_all add: backfill_metrics_def Let_def split: option.splits)

lemma process_block_messages:
  assumes "quiet s" and cache_def: "cache = prefetch_executed_blocks x from_block to_block d"
  shows "quiet (snd (process_block_for_backfill x chain cache block s)) \<and>
    messages (snd (process_block_for_backfill x chain cache block s)) \<le>
      messages s + (\<Sum>u\<leftarrow>work_units x. of_bool (wanted from_block to_block d block u))"
proof -
  have item: "quiet (snd (process_registry_item_for_backfill x chain cache block item t)) \<and>
      messages (snd (process_registry_item_for_backfill x chain cache block item t)) \<le>
      messages t + (\<Sum>args\<leftarrow>get_execution_args item. of_bool (wanted from_block to_block d block (item, args)))"
    if "item \<in> set (get_functions (registry x))" "quiet t" for item t
    unfolding process_registry_item_for_backfill_def
  proof (rule until_stopped_bound [where I = quiet and m = messages and s = t, OF _ that(2)])
    fix args u assume u: "args \<in> set (get_execution_args item)" "quiet u"
    obtain v u' where "backfill_args x chain cache block item args u = (v, u')" by (metis surj_pair)
    then show "quiet (snd (backfill_args x chain cache block item args u)) \<and>
        messages (snd (backfill_args x chain cache block item args u)) \<le>
        messages u + of_bool (wanted from_block to_block d block (item, args))"
      using backfill_args_messages [of item args x u] u that(1) by (simp add: set_work_units cache_def)
  qed
  show ?thesis
    unfolding process_block_for_backfill_def sum_units
    by (rule until_stopped_bound [where I = quiet and m = messages and s = s, OF item assms(1)])
qed

lemma run_backfill_messages:
  assumes "quiet s"
  shows "messages (run_backfill x chain s) \<le>
    messages s + (\<Sum>u\<leftarrow>work_units x. \<Sum>block\<leftarrow>[bf_from (fst s)..bf_to (fst s)].
      of_bool (wanted (bf_from (fst s)) (bf_to (fst s)) (table (fst (snd s))) block u))"
proof -
  obtain b w others where s: "s = (b, w, others)" using prod_cases3 by blast
  let ?w1 = "set_backfill_progress (bf_from b) (bf_to b) (bf_from b) w"
  let ?cache = "prefetch_executed_blocks x (bf_from b) (bf_to b) (table w)"
  have one: "quiet (snd (backfill_block x chain ?cache block t)) \<and> messages (snd (backfill_block x chain ?cache block t)) \<le>
      messages t + (\<Sum>u\<leftarrow>work_units x. of_bool (wanted (bf_from b) (bf_to b) (table w) block u))" if "quiet t" for block t
    using process_block_messages [where s = t and x = x and chain = chain and block = block, OF that refl, of "bf_from b" "bf_to b" "table w"] that
    by (auto simp: backfill_block_def quiet_def Let_def split: prod.splits if_splits)
  have q: "quiet (b, ?w1, others)" using assms by (simp add: s quiet_def)
  have "messages (snd (until_stopped (backfill_block x chain ?cache) [bf_from b..bf_to b] (b, ?w1, others))) \<le>
      messages (b, ?w1, others) + (\<Sum>block\<leftarrow>[bf_from b..bf_to b]. \<Sum>u\<leftarrow>work_units x.
        of_bool (wanted (bf_from b) (bf_to b) (table w) block u))"
    using until_stopped_bound [where I = quiet and m = messages, OF one q, of "[bf_from b..bf_to b]"] by simp
  then show ?thesis
    using sum_list_swap [of "\<lambda>block u. of_bool (wanted (bf_from b) (bf_to b) (table w) block u) :: nat"
        "work_units x" "[bf_from b..bf_to b]"]
    by (auto simp: s run_backfill_def Let_def split: prod.splits)
qed

lemma of_bool_ex_le_sum_list: "of_bool (\<exists>u \<in> set us. Q u) \<le> (\<Sum>u\<leftarrow>us. of_bool (Q u) :: nat)"
  by (induction us) auto

lemma card_le_sum_list:
  assumes "distinct bs"
  shows "card {b \<in> set bs. \<exists>u \<in> set us. W b u} \<le> (\<Sum>b\<leftarrow>bs. \<Sum>u\<leftarrow>us. of_bool (W b u))"
proof -
  have "card {b \<in> set bs. \<exists>u \<in> set us. W b u} = length (filter (\<lambda>b. \<exists>u \<in> set us. W b u) bs)"
    using assms distinct_card [OF distinct_filter] by (metis set_filter)
  also have "\<dots> = (\<Sum>b\<leftarrow>bs. of_bool (\<exists>u \<in> set us. W b u))" by (induction bs) auto
  also have "\<dots> \<le> (\<Sum>b\<leftarrow>bs. \<Sum>u\<leftarrow>us. of_bool (W b u))" by (rule sum_list_mono) (rule of_bool_ex_le_sum_list)
  finally show ?thesis .
qed

definition sample_chain :: chain where
  "sample_chain k = (of_nat k, Inr 1000)"

section \<open>Completeness of a run\<close>

text \<open>A run that goes on: it was not stopped, its gate waits, and the other processes keep rows.\<close>

definition ready :: "ctx \<Rightarrow> db \<Rightarrow> bf_state \<Rightarrow> bool" where
  "ready x d s \<longleftrightarrow> is_running (fst s) \<and> g_wait (throttle_gate (fst s)) \<and> db_ok d \<and>
     keeps_rows d (table (fst (snd s))) \<and>
     (\<forall>f \<in> set (snd (snd s)). \<forall>w. keeps_rows (table w) (table (f w)))"

lemma wait_for_room_waits:
  assumes "recovery_ok (cfg x)" "throttle_poll_seconds (cfg x) = Inr secs" "\<forall>p \<in> set polls. fst p"
    and "wait_for_room x q polls g w = (r, g', w', rest)"
  shows "(r = None \<or> r = Some (Inr True)) \<and> g_wait g' = g_wait g"
  using assms
proof (induction x q polls g w rule: wait_for_room.induct)
  case (2 x q continue others polls g w)
  obtain n w2 where "read_inflight x q (others w) = (Inr n, w2)" using read_inflight_ok [OF 2(2)] by blast
  then obtain k where rf: "read_free x q (others w) = (Inr k, w2)" by (simp add: read_free_def)
  show ?case
  proof (cases "k > 0")
    case True
    then show ?thesis using 2(3-5) rf by (auto simp: Let_def)
  next
    case False
    then have "wait_for_room x q polls (set_free (q_name q) k g) w2 = (r, g', w', rest)" "continue"
      using 2(3-5) rf by (simp_all add: Let_def)
    from 2(1) [OF 2(3) refl _ rf [symmetric] refl False 2(2,3) _ this(1)] this(2) 2(4) show ?thesis by auto
  qed
qed simp

lemma admit_waits:
  assumes "recovery_ok (cfg x)" "throttle_poll_seconds (cfg x) = Inr secs" "\<forall>p \<in> set polls. fst p" "g_wait g"
    and "admit x target polls g w = (r, g', w', rest)"
  shows "(r = None \<or> r = Some (Inr True)) \<and> g_wait g'"
proof (cases "\<exists>q t. target = Some (Policy q) \<and> throttle q = Some t")
  case False
  then show ?thesis using assms(4,5) by (auto simp: admit_def split: option.splits queue_target.splits)
next
  case True
  then obtain q t where q: "target = Some (Policy q)" "throttle q = Some t" by blast
  obtain n w1 where "read_inflight x q w = (Inr n, w1)" using read_inflight_ok [OF assms(1)] by blast
  then obtain k where rf: "read_free x q w = (Inr k, w1)" by (simp add: read_free_def)
  show ?thesis
    using assms(4,5) q rf wait_for_room_waits [OF assms(1-3)]
    by (auto simp: admit_def Let_def split: if_splits option.splits)
qed

lemma latest_dumper_head_frame:
  "latest_dumper_head chain block b = (n, b') \<Longrightarrow> is_running b' = is_running b \<and> throttle_gate b' = throttle_gate b"
  by (auto simp: latest_dumper_head_def Let_def split: prod.splits if_splits sum.splits option.splits)

lemma executed_has_row:
  assumes "db_ok d" "block \<in> executed_block_numbers path args from_block to_block d"
  shows "find_key block path args d \<noteq> None"
  using assms unfolding has_row executed_block_numbers_def
  by (auto simp: attempt_key_def image_iff)

lemma window_submit_block_rows:
  assumes "db_ok (table w)"
    and "block \<in> ex \<Longrightarrow> find_key block (item_path item) (serialize_args args) (table w) \<noteq> None"
  shows "keeps_rows (table w) (table (snd (window_submit_block x item args ex head block w))) \<and>
    (match_condition item block args = Inr True \<longrightarrow> find_key block (item_path item) (serialize_args args)
       (table (snd (window_submit_block x item args ex head block w))) \<noteq> None)"
proof -
  obtain r w' where run: "window_submit_block x item args ex head block w = (r, w')" by fastforce
  then have "keeps_rows (table w) (table w') \<and> (match_condition item block args = Inr True \<longrightarrow>
      find_key block (item_path item) (serialize_args args) (table w') \<noteq> None)"
  proof (cases rule: window_submit_block_cases)
    case closed
    then show ?thesis using assms(2) by auto
  next
    case (submitted archive queue e w1)
    have t: "table w1 = table w" using submitted(3) by simp
    show ?thesis
      using celery_execute_row [OF _ submitted(4)] celery_execute_keeps_rows [OF submitted(4)] assms(1) by (simp add: t)
  qed
  with run show ?thesis by simp
qed

text \<open>One unit of work and block: the run stays ready, and unless it was stopped there is a row.\<close>

lemma backfill_args_ready:
  assumes "recovery_ok (cfg x)" "throttle_poll_seconds (cfg x) = Inr secs" "(item, args) \<in> set (work_units x)" "ready x d s"
    and cache: "cache = prefetch_executed_blocks x from_block to_block d"
    and s': "backfill_args x chain cache block item args s = (v, s')"
  shows "ready x d s' \<and> keeps_rows (table (fst (snd s))) (table (fst (snd s'))) \<and>
    (\<not> v \<longrightarrow> match_condition item block args = Inr True \<longrightarrow>
       find_key block (item_path item) (serialize_args args) (table (fst (snd s'))) \<noteq> None)"
proof -
  obtain b w others where s: "s = (b, w, others)" using prod_cases3 by blast
  let ?ex = "executed_block_numbers (item_path item) (serialize_args args) from_block (to_block + 1) d"
  note cache = map_of_prefetch [OF assms(3), of from_block to_block d, folded cache]
  have d: "db_ok d" and keep: "keeps_rows d (table w)" using assms(4) by (auto simp: ready_def s)
  have ok: "db_ok (table w)" using keeps_rows_db_ok [OF keep d] .
  have ex: "find_key block (item_path item) (serialize_args args) (table w) \<noteq> None" if "block \<in> ?ex"
    using keeps_rows_find [OF keep d executed_has_row [OF d that]] .
  show ?thesis
  proof (cases "live_queue item = None")
    case True
    then obtain head where w': "v = False" "s' = (b, snd (window_submit_block x item args ?ex head block w), others)"
      using s' by (auto simp: s backfill_args_def cache Let_def)
    have "keeps_rows (table w) (table (snd (window_submit_block x item args ?ex head block w))) \<and>
        (match_condition item block args = Inr True \<longrightarrow>
         find_key block (item_path item) (serialize_args args) (table (snd (window_submit_block x item args ?ex head block w))) \<noteq> None)"
      using window_submit_block_rows [OF ok ex] by blast
    then show ?thesis using w' assms(4) keeps_rows_trans [OF keep] by (auto simp: ready_def s)
  next
    case False
    let ?polls = "map (Pair (is_running b)) others"
    obtain r g' b' w' rest where q: "queue_submit_block x item args ?ex (latest_dumper_head chain block) block
        ?polls (Some (throttle_gate b)) b w = (r, g', b', w', rest)" by (metis surj_pair)
    then have s'': "v = (r = None)" "s' = (case g' of Some gt \<Rightarrow> b'\<lparr>throttle_gate := gt\<rparr> | None \<Rightarrow> b', w', map snd rest)"
      using s' False by (auto simp: s backfill_args_def cache Let_def)
    have polls: "\<forall>p \<in> set ?polls. \<forall>w. keeps_rows (table w) (table (snd p w))" "\<forall>p \<in> set ?polls. fst p"
      and gate: "g_wait (throttle_gate b)"
      using assms(4) by (auto simp: s ready_def)
    note waits = admit_waits [OF assms(1,2) polls(2) gate]
    have "is_running b' \<and> (\<exists>gt. g' = Some gt \<and> g_wait gt) \<and> set rest \<subseteq> set ?polls \<and> keeps_rows (table w) (table w') \<and>
        (r \<noteq> None \<longrightarrow> match_condition item block args = Inr True \<longrightarrow>
         find_key block (item_path item) (serialize_args args) (table w') \<noteq> None)"
      using q
    proof (cases rule: queue_submit_block_cases)
      case closed
      then show ?thesis using ex gate assms(4) by (auto simp: ready_def s)
    next
      case (refused gt)
      then show ?thesis
        using row_keeping.admit_keeps [OF refused(3) polls(1)] waits [OF refused(3)] assms(4) by (auto simp: ready_def s)
    next
      case (admitted gt w1 n e)
      have k1: "keeps_rows (table w) (table w1)" "set rest \<subseteq> set ?polls"
        using row_keeping.admit_keeps [OF admitted(3) polls(1)] by auto
      have "keeps_rows (table w1) (table w')"
        using submitsD [OF execute_submits] admitted(5) by (metis snd_conv)
      then show ?thesis
        using k1 keeps_rows_trans execute_row [OF keeps_rows_db_ok [OF k1(1) ok] admitted(5)] waits [OF admitted(3)]
          latest_dumper_head_frame [OF admitted(4)] admitted(7) assms(4) by (auto simp: ready_def s)
    qed
    then show ?thesis using s'' assms(4) keeps_rows_trans [OF keep] by (auto simp: ready_def s)
  qed
qed

lemma process_block_ready:
  assumes "recovery_ok (cfg x)" "throttle_poll_seconds (cfg x) = Inr secs" "ready x d s"
    and cache: "cache = prefetch_executed_blocks x from_block to_block d"
  shows "ready x d (snd (process_block_for_backfill x chain cache block s)) \<and>
    keeps_rows (table (fst (snd s))) (table (fst (snd (snd (process_block_for_backfill x chain cache block s))))) \<and>
    (\<not> fst (process_block_for_backfill x chain cache block s) \<longrightarrow> (item, args) \<in> set (work_units x) \<longrightarrow>
       match_condition item block args = Inr True \<longrightarrow>
       find_key block (item_path item) (serialize_args args)
         (table (fst (snd (snd (process_block_for_backfill x chain cache block s))))) \<noteq> None)"
proof -
  let ?I = "\<lambda>t. ready x d t \<and> keeps_rows (table (fst (snd s))) (table (fst (snd t)))"
  let ?has = "\<lambda>t. find_key block (item_path item) (serialize_args args) (table (fst (snd t))) \<noteq> None"
  have dbok: "db_ok (table (fst (snd t)))" if "ready x d t" for t
    using that keeps_rows_db_ok by (auto simp: ready_def)
  have args_step: "?I (snd (backfill_args x chain cache block i a t)) \<and>
      (?has t \<longrightarrow> ?has (snd (backfill_args x chain cache block i a t))) \<and>
      (i = item \<longrightarrow> a = args \<longrightarrow> match_condition item block args = Inr True \<longrightarrow> \<not> fst (backfill_args x chain cache block i a t)
        \<longrightarrow> ?has (snd (backfill_args x chain cache block i a t)))"
    if "i \<in> set (get_functions (registry x))" "a \<in> set (get_execution_args i)" "?I t" for i a t
  proof -
    obtain v t' where b: "backfill_args x chain cache block i a t = (v, t')" by (metis surj_pair)
    have one: "ready x d t' \<and> keeps_rows (table (fst (snd t))) (table (fst (snd t'))) \<and>
      (\<not> v \<longrightarrow> match_condition i block a = Inr True \<longrightarrow>
       find_key block (item_path i) (serialize_args a) (table (fst (snd t'))) \<noteq> None)"
      by (rule backfill_args_ready [OF assms(1,2) _ _ cache b]) (use that in \<open>auto simp: set_work_units\<close>)
    have keep: "keeps_rows (table (fst (snd s))) (table (fst (snd t')))"
      using that(3) one by (blast intro: keeps_rows_trans)
    have "?has t \<longrightarrow> ?has t'" using keeps_rows_find [OF _ dbok] that(3) one by blast
    with one keep show ?thesis unfolding b by auto
  qed
  have item_step: "?I (snd (process_registry_item_for_backfill x chain cache block i t)) \<and>
      (?has t \<longrightarrow> ?has (snd (process_registry_item_for_backfill x chain cache block i t)))"
    if "i \<in> set (get_functions (registry x))" "?I t" for i t
  proof -
    let ?J = "\<lambda>u. ?I u \<and> (?has t \<longrightarrow> ?has u)"
    have step: "?J (snd (backfill_args x chain cache block i a u))" if "a \<in> set (get_execution_args i)" "?J u" for a u
      using args_step [OF \<open>i \<in> set (get_functions (registry x))\<close> that(1)] that(2) by metis
    have "?J t" using that(2) by simp
    from until_stopped_inv [where I = ?J, OF step this] show ?thesis
      unfolding process_registry_item_for_backfill_def .
  qed
  have start: "?I s" using assms(3) by simp
  have "?I (snd (process_block_for_backfill x chain cache block s))"
    unfolding process_block_for_backfill_def
    by (rule until_stopped_inv [where I = ?I, OF _ start]) (use item_step in blast)
  moreover have "?has (snd (process_block_for_backfill x chain cache block s))"
    if go: "\<not> fst (process_block_for_backfill x chain cache block s)" "(item, args) \<in> set (work_units x)"
      "match_condition item block args = Inr True"
    unfolding process_block_for_backfill_def
  proof (rule until_stopped_reaches [where I = ?I and a = item, OF _ start])
    show "item \<in> set (get_functions (registry x))" using go(2) by (simp add: set_work_units)
    show "\<not> fst (until_stopped (process_registry_item_for_backfill x chain cache block) (get_functions (registry x)) s)"
      using go(1) by (simp add: process_block_for_backfill_def)
    show "?has (snd (process_registry_item_for_backfill x chain cache block item t))"
      if "?I t" "\<not> fst (process_registry_item_for_backfill x chain cache block item t)" for t
      unfolding process_registry_item_for_backfill_def
      by (rule until_stopped_reaches [where I = ?I and a = args, OF _ that(1)])
        (use args_step go(2,3) that(2) in \<open>auto simp: set_work_units process_registry_item_for_backfill_def\<close>)
  qed (use item_step in blast)+
  ultimately show ?thesis by blast
qed

lemma backfill_block_sel:
  assumes "is_running (fst s)"
  shows "fst (snd (backfill_block x chain cache block s)) = fst (snd (process_block_for_backfill x chain cache block s))"
    "table (fst (snd (snd (backfill_block x chain cache block s)))) =
      table (fst (snd (snd (process_block_for_backfill x chain cache block s))))"
    "snd (snd (snd (backfill_block x chain cache block s))) = snd (snd (snd (process_block_for_backfill x chain cache block s)))"
    "fst (process_block_for_backfill x chain cache block s) \<Longrightarrow> fst (backfill_block x chain cache block s)"
  using assms by (auto simp: backfill_block_def Let_def split: prod.splits if_splits)

lemma run_backfill_complete:
  assumes "recovery_ok (cfg x)" "throttle_poll_seconds (cfg x) = Inr secs" "ready x (table w) (b, w, others)"
    and run: "run_backfill x chain (b, w, others) = (b', w', others')" "is_running b'"
    and unit: "(item, args) \<in> set (work_units x)" "block \<in> {bf_from b..bf_to b}" "match_condition item block args = Inr True"
  shows "find_key block (item_path item) (serialize_args args) (table w') \<noteq> None"
proof -
  let ?w1 = "set_backfill_progress (bf_from b) (bf_to b) (bf_from b) w"
  let ?cache = "prefetch_executed_blocks x (bf_from b) (bf_to b) (table w)"
  let ?f = "backfill_block x chain ?cache" and ?p = "process_block_for_backfill x chain ?cache"
  let ?I = "ready x (table w)"
  let ?has = "\<lambda>t. find_key block (item_path item) (serialize_args args) (table (fst (snd t))) \<noteq> None"
  note pb = process_block_ready [OF assms(1,2) _ refl, where from_block = "bf_from b" and to_block = "bf_to b"
      and d = "table w" and chain = chain and item = item and args = args]
  have bf: "fst (snd (?f k t)) = fst (snd (?p k t))" "table (fst (snd (snd (?f k t)))) = table (fst (snd (snd (?p k t))))"
      "snd (snd (snd (?f k t))) = snd (snd (snd (?p k t)))" "\<not> fst (?f k t) \<Longrightarrow> \<not> fst (?p k t)" if "?I t" for k t
    using that backfill_block_sel [of t x chain ?cache k] by (auto simp: ready_def)
  have I: "?I (snd (?f k t))" if "?I t" for k t
    using pb [OF that, of k] bf [OF that, of k] by (simp add: ready_def)
  have keep: "keeps_rows (table (fst (snd t))) (table (fst (snd (snd (?f k t)))))" if "?I t" for k t
    using pb [OF that, of k] bf [OF that, of k] by simp
  have dbok: "db_ok (table (fst (snd t)))" if "?I t" for t
    using that keeps_rows_db_ok by (auto simp: ready_def)
  have stays: "?has (snd (?f k t))" if "?I t" "?has t" for k t
    using keeps_rows_find [OF keep [OF that(1)] dbok [OF that(1)]] that(2) by blast
  have reach: "?has (snd (?f block t))" if "?I t" "\<not> fst (?f block t)" for t
    using pb [OF that(1), of block] bf [OF that(1), of block] that(2) unit(1,3) by simp
  have start: "?I (b, ?w1, others)" using assms(3) by (simp add: ready_def)
  obtain stopped s' where u: "until_stopped ?f [bf_from b..bf_to b] (b, ?w1, others) = (stopped, s')" by (metis surj_pair)
  then have fin: "\<not> stopped" "w' = fst (snd s')"
    using run by (auto simp: run_backfill_def Let_def split: prod.splits if_splits)
  have "?has (snd (until_stopped ?f [bf_from b..bf_to b] (b, ?w1, others)))"
    by (rule until_stopped_reaches [where I = ?I and a = block, OF _ start])
      (use I stays reach u fin unit(2) in auto)
  then show ?thesis using u fin by simp
qed

text \<open>
  C13. A completed backfill leaves nothing out: when a run was not interrupted, every registered task
  and argument set has an attempt for every block of the range its condition holds for, whatever
  submissions failed and whatever other processes did while it waited at a throttled queue.
\<close>

theorem completed_backfill_is_complete:
  assumes "db_ok (table w)" and "recovery_ok (cfg x)" and "throttle_poll_seconds (cfg x) = Inr secs"
    and "\<forall>f \<in> set others. \<forall>w. keeps_rows (table w) (table (f w))"
    and "backfill_start x chain (new_backfill network rate_limit from_block to_block False, w, others) = (Inr None, (b', w', others'))"
    and "is_running b'"
    and "item \<in> set (get_functions (registry x))" and "args \<in> set (get_execution_args item)"
    and "from_block \<le> block" and "block \<le> to_block" and "match_condition item block args = Inr True"
  shows "find_key block (item_path item) (serialize_args args) (table w') \<noteq> None"
proof -
  obtain now h where ch: "chain 0 = (now, Inr h)"
    using assms(5) by (auto simp: backfill_start_def new_backfill_def Let_def split: prod.splits sum.splits)
  define b where "b = (new_backfill network rate_limit from_block to_block False)\<lparr>is_running := True, looks := Suc 0,
    current_head_cache := Some h, dumper_head_cache := Some h, dumper_head_read_at := Some now\<rparr>"
  have run: "run_backfill x chain (b, w, others) = (b', w', others')"
    using assms(5) ch by (simp add: backfill_start_def new_backfill_def b_def Let_def)
  have "ready x (table w) (b, w, others)"
    using assms(1,4) by (simp add: ready_def b_def new_backfill_def new_gate_def)
  moreover have "block \<in> {bf_from b..bf_to b}" using assms(9,10) by (simp add: b_def new_backfill_def)
  ultimately show ?thesis
    using run_backfill_complete [OF assms(2,3) _ run assms(6)] assms(7,8,11) by (simp add: set_work_units)
qed

definition sample_tasks :: ctx where
  "sample_tasks = sample_ctx\<lparr>registry := [sample_block_task]\<rparr>"

theorem completed_backfill_is_complete_witness:
  "\<exists>b' w' others'. backfill_start sample_tasks sample_chain (new_backfill ''finney'' 1 90 91 False, sample_world, []) =
     (Inr None, (b', w', others')) \<and> find_key 91 ''app.task'' (serialize_args []) (table w') \<noteq> None"
proof -
  obtain b' w' others' where run:
    "backfill_start sample_tasks sample_chain (new_backfill ''finney'' 1 90 91 False, sample_world, []) = (Inr None, (b', w', others'))"
    by (auto simp: backfill_start_def new_backfill_def sample_chain_def Let_def) (metis surj_pair)
  then have "is_running b'"
    by (auto simp: backfill_start_def new_backfill_def sample_chain_def run_backfill_def backfill_block_def
        process_block_for_backfill_def process_registry_item_for_backfill_def backfill_args_def sample_tasks_def
        get_functions_def sample_block_task_def sample_item_def get_execution_args_def Let_def upto_rec1 sample_ctx_def)
  moreover have "item_path sample_block_task = ''app.task''" "get_execution_args sample_block_task = [[]]"
    "match_condition sample_block_task 91 [] = Inr True"
    by (simp_all add: sample_block_task_def sample_item_def item_path_def get_execution_args_def match_condition_def)
  moreover have "recovery_ok (cfg sample_tasks)" "throttle_poll_seconds (cfg sample_tasks) = Inr 1"
    "get_functions (registry sample_tasks) = [sample_block_task]" "db_ok (table sample_world)"
    by (simp_all add: sample_tasks_def sample_ctx_def recovery_ok_def check_recovery_settings_def stale_task_settings_def
        recovery_margin_seconds_def throttle_poll_seconds_def default_settings_def get_functions_def sample_world_def)
  ultimately show ?thesis
    using completed_backfill_is_complete [of sample_world sample_tasks 1 "[]" sample_chain "''finney''" 1 90 91 b' w' others'
        sample_block_task "[]" 91] run by auto
qed

text \<open>
  C29. The dry run is an upper bound: a backfill of the same range on the same table never sends more
  messages than the dry run estimated, however long it waits at throttled queues. The dry run itself
  counts each unit of work and block once, and its blocks needing tasks and already processed add up to
  the size of the range.
\<close>

theorem dry_run_bounds_backfill:
  assumes "backfill_start x chain (new_backfill network rate_limit from_block to_block True, w, others) = (Inr (Some stats), sd)"
    and "backfill_start x chain (new_backfill network rate_limit from_block to_block False, w, others) = (Inr None, (b', w', others'))"
    and "\<forall>f \<in> set others. \<forall>w. sent (f w) = sent w" and "from_block \<le> to_block"
  shows "int (length (sent w') - length (sent w)) \<le> estimated_tasks stats \<and>
    0 \<le> already_processed stats \<and> blocks_needing_tasks stats \<le> estimated_tasks stats \<and>
    already_processed stats + blocks_needing_tasks stats = to_block - from_block + 1"
proof -
  obtain now h where ch: "chain 0 = (now, Inr h)"
    using assms(1) by (auto simp: backfill_start_def new_backfill_def Let_def split: prod.splits sum.splits)
  define b where "b dry = (new_backfill network rate_limit from_block to_block dry)\<lparr>is_running := True, looks := Suc 0,
    current_head_cache := Some h, dumper_head_cache := Some h, dumper_head_read_at := Some now\<rparr>" for dry
  have b: "is_running (b dry)" "bf_from (b dry) = from_block" "bf_to (b dry) = to_block" for dry
    by (simp_all add: b_def new_backfill_def)
  have stats: "stats = run_dry_run x (b True) (table w)"
    using assms(1) ch by (simp add: backfill_start_def new_backfill_def b_def Let_def)
  have run: "run_backfill x chain (b False, w, others) = (b', w', others')"
    using assms(2) ch by (simp add: backfill_start_def new_backfill_def b_def Let_def)
  let ?W = "wanted from_block to_block (table w)"
  let ?S = "\<Sum>u\<leftarrow>work_units x. \<Sum>block\<leftarrow>[from_block..to_block]. of_bool (?W block u) :: nat"
  let ?B = "{block \<in> {from_block..to_block}. \<exists>u \<in> set (work_units x). ?W block u}"
  have S: "estimated_tasks stats = int ?S"
    using run_dry_run_stats(1) [OF b(1), of x True "table w"] by (simp add: stats b sum_list_of_nat [symmetric] comp_def)
  have B: "blocks_needing_tasks stats = int (card ?B)"
    using run_dry_run_stats(2) [OF b(1), of x True "table w"] by (simp add: stats b)
  have total: "already_processed stats = to_block - from_block + 1 - blocks_needing_tasks stats"
    by (simp add: stats run_dry_run_def b Let_def split: prod.splits)
  have "card ?B \<le> card {from_block..to_block}" by (rule card_mono) auto
  then have "0 \<le> already_processed stats" using total B assms(4) by simp
  moreover have "card ?B \<le> ?S"
    using card_le_sum_list [of "[from_block..to_block]" "work_units x" ?W]
      sum_list_swap [of "\<lambda>block u. of_bool (?W block u) :: nat" "work_units x" "[from_block..to_block]"] by simp
  moreover have "length (sent w') \<le> length (sent w) + ?S"
    using run_backfill_messages [of "(b False, w, others)" x chain] run assms(3) by (simp add: quiet_def b)
  ultimately show ?thesis using S B total by auto
qed

theorem dry_run_bounds_backfill_witness:
  "\<exists>stats sd b' w' others'.
     backfill_start sample_ctx sample_chain (new_backfill ''finney'' 1 90 99 True, sample_world, []) = (Inr (Some stats), sd) \<and>
     backfill_start sample_ctx sample_chain (new_backfill ''finney'' 1 90 99 False, sample_world, []) = (Inr None, (b', w', others')) \<and>
     int (length (sent w') - length (sent sample_world)) \<le> estimated_tasks stats"
proof -
  obtain stats sd where dry:
    "backfill_start sample_ctx sample_chain (new_backfill ''finney'' 1 90 99 True, sample_world, []) = (Inr (Some stats), sd)"
    by (auto simp: backfill_start_def new_backfill_def sample_chain_def Let_def)
  moreover obtain b' w' others' where run:
    "backfill_start sample_ctx sample_chain (new_backfill ''finney'' 1 90 99 False, sample_world, []) = (Inr None, (b', w', others'))"
    by (auto simp: backfill_start_def new_backfill_def sample_chain_def Let_def) (metis surj_pair)
  moreover have "int (length (sent w') - length (sent sample_world)) \<le> estimated_tasks stats"
    using dry_run_bounds_backfill [OF dry run] by simp
  ultimately show ?thesis by blast
qed

end
