(* ===== verification/Celery_Config.thy ===== *)
theory Celery_Config
  imports Registries
begin

text \<open>
  Setting up the broker queues: what RabbitMQ is told about a queue
  (\<open>_internal/contacts/rabbitmq.py\<close>, \<open>contacts/broker.py\<close>) and the installation of the queues into
  the Celery apps before anything is sent (\<open>_internal/services/celery_config.py\<close>).

  Celery and Kombu are outside this repository. A Celery app is its queue table, its maximal
  priority, the queue it would create for a name (\<open>new_missing\<close>), its transport, and the answer of its
  broker to a declaration. \<open>derive\<close> is Kombu's \<open>to_rabbitmq_queue_arguments\<close>: the arguments a declaration
  sends, from a queue's own arguments and its options.
\<close>

record kombu_queue =
  kq_name :: string
  kq_exchange :: string
  kq_routing_key :: string
  kq_arguments :: "(string, pyval) dict"
  kq_options :: "(string, pyval) dict"

record app =
  app_name :: string
  app_driver :: string
  app_queues :: "(string, kombu_queue) dict"
  app_max_priority :: "pyval option"
  app_new_missing :: "string \<Rightarrow> kombu_queue"
  app_broker :: "kombu_queue \<Rightarrow> unit res"

type_synonym derivation = "(string, pyval) dict \<Rightarrow> (string, pyval) dict \<Rightarrow> (string, pyval) dict"

section \<open>Broker contact\<close>

text \<open>The TTL in whole milliseconds; \<open>int\<close> truncates, and a TTL is positive.\<close>

definition rabbitmq_queue_arguments :: "queue \<Rightarrow> (string, pyval) dict" where
  "rabbitmq_queue_arguments q =
     (case message_ttl q of None \<Rightarrow> [] | Some t \<Rightarrow> [(''x-message-ttl'', PyNum (PInt \<lfloor>num t * 1000\<rfloor>))])"

definition declared_arguments :: "derivation \<Rightarrow> kombu_queue \<Rightarrow> (string, pyval) dict" where
  "declared_arguments derive k = derive (kq_arguments k) (kq_options k)"

definition celery_definition :: "app \<Rightarrow> string \<Rightarrow> (string, pyval) dict \<Rightarrow> kombu_queue" where
  "celery_definition a name args =
     (let base = app_new_missing a name;
          merged = dict_update (kq_arguments base) args;
          full = (case app_max_priority a of
            None \<Rightarrow> merged
          | Some p \<Rightarrow> if map_of merged ''x-max-priority'' = None then merged @ [(''x-max-priority'', p)] else merged)
      in \<lparr>kq_name = name, kq_exchange = kq_exchange base, kq_routing_key = kq_routing_key base,
          kq_arguments = full, kq_options = []\<rparr>)"

definition queue_definition :: "app \<Rightarrow> queue \<Rightarrow> kombu_queue" where
  "queue_definition a q = celery_definition a (q_name q) (rabbitmq_queue_arguments q)"

definition broker_contact_factory :: "app \<Rightarrow> unit res" where
  "broker_contact_factory a =
     (if app_driver a = ''amqp'' \<or> app_driver a = ''memory'' then Inr ()
      else Inl (UnsupportedBrokerError (app_name a)))"

section \<open>Installation\<close>

text \<open>Equality of two dictionaries, which does not look at their order.\<close>

definition same_dict :: "('k, 'v) dict \<Rightarrow> ('k, 'v) dict \<Rightarrow> bool" where
  "same_dict d e \<longleftrightarrow> list_all (\<lambda>k. map_of d k = map_of e k) (map fst d @ map fst e)"

fun install_queues ::
  "derivation \<Rightarrow> kombu_queue list \<Rightarrow> (string, kombu_queue) dict \<Rightarrow> kombu_queue list res \<times> (string, kombu_queue) dict" where
  "install_queues derive [] t = (Inr [], t)"
| "install_queues derive (k # ks) t =
     (case map_of t (kq_name k) of
        None \<Rightarrow>
          (case install_queues derive ks (AList.update (kq_name k) k t) of
             (Inl e, t') \<Rightarrow> (Inl e, t') | (Inr ts, t') \<Rightarrow> (Inr (k # ts), t'))
      | Some existing \<Rightarrow>
          if \<not> same_dict (declared_arguments derive existing) (declared_arguments derive k)
          then (Inl (QueueConfigurationError ''Queue is defined in the Celery config with other arguments''), t)
          else (case install_queues derive ks t of
             (Inl e, t') \<Rightarrow> (Inl e, t') | (Inr ts, t') \<Rightarrow> (Inr (existing # ts), t')))"

type_synonym apps = "nat \<Rightarrow> app"

fun install_dumpers ::
  "derivation \<Rightarrow> block_dumper list \<Rightarrow> apps \<Rightarrow> (nat \<times> kombu_queue list) list res \<times> apps" where
  "install_dumpers derive [] as = (Inr [], as)"
| "install_dumpers derive (d # ds) as =
     (let i = celery_app d; a = as i in
      case broker_contact_factory a of
        Inl e \<Rightarrow> (Inl e, as)
      | Inr _ \<Rightarrow>
          (case install_queues derive (map (queue_definition a) (dumper_queues d)) (app_queues a) of
             (Inl e, t) \<Rightarrow> (Inl e, as(i := a\<lparr>app_queues := t\<rparr>))
           | (Inr ts, t) \<Rightarrow>
               (case install_dumpers derive ds (as(i := a\<lparr>app_queues := t\<rparr>)) of
                  (Inl e, as') \<Rightarrow> (Inl e, as') | (Inr rest, as') \<Rightarrow> (Inr ((i, ts) # rest), as'))))"

fun declare_queues :: "(kombu_queue \<Rightarrow> unit res) \<Rightarrow> kombu_queue list \<Rightarrow> unit res" where
  "declare_queues broker [] = Inr ()"
| "declare_queues broker (k # ks) = (case broker k of Inl e \<Rightarrow> Inl e | Inr _ \<Rightarrow> declare_queues broker ks)"

fun declare_prepared :: "apps \<Rightarrow> (nat \<times> kombu_queue list) list \<Rightarrow> unit res" where
  "declare_prepared as [] = Inr ()"
| "declare_prepared as ((i, ks) # rest) =
     (case declare_queues (app_broker (as i)) ks of Inl e \<Rightarrow> Inl e | Inr _ \<Rightarrow> declare_prepared as rest)"

definition prepare_block_dumpers ::
  "settings \<Rightarrow> derivation \<Rightarrow> dumper_registry \<Rightarrow> bool \<Rightarrow> apps \<Rightarrow> unit res \<times> apps" where
  "prepare_block_dumpers s derive reg verify_broker as =
     (case (if list_ex (\<lambda>d. list_ex (\<lambda>q. throttle q \<noteq> None) (dumper_queues d)) (dr_dumpers reg)
            then throttle_poll_seconds s else Inr 0) of
        Inl e \<Rightarrow> (Inl e, as)
      | Inr _ \<Rightarrow>
          (case install_dumpers derive (dr_dumpers reg) as of
             (Inl e, as') \<Rightarrow> (Inl e, as')
           | (Inr prepared, as') \<Rightarrow> (if verify_broker then declare_prepared as' prepared else Inr (), as')))"

text \<open>
  The errors the callers turn into a message for the operator. \<open>UnsupportedBrokerError\<close> is a
  \<open>QueueConfigurationError\<close>.
\<close>

fun is_setup_error :: "exn \<Rightarrow> bool" where
  "is_setup_error (QueueArgumentsMismatchError m) = True"
| "is_setup_error (QueueConfigurationError m) = True"
| "is_setup_error (UnsupportedBrokerError m) = True"
| "is_setup_error _ = False"

fun queue_setup_error_message :: "exn \<Rightarrow> string" where
  "queue_setup_error_message (QueueArgumentsMismatchError m) =
     m @ '' Queue arguments cannot change on an existing queue''"
| "queue_setup_error_message (QueueConfigurationError m) = m"
| "queue_setup_error_message (UnsupportedBrokerError m) = m"
| "queue_setup_error_message _ = []"

section \<open>The contract of a contact\<close>

text \<open>
  What the installation relies on: a queue is declared under its own name.
\<close>

locale broker_contact =
  fixes define_queue :: "queue \<Rightarrow> kombu_queue"
  assumes named: "kq_name (define_queue q) = q_name q"
begin

lemma install_grows:
  assumes "install_queues derive ks t = (r, t')" "map_of t n = Some k"
  shows "map_of t' n = Some k"
  using assms
proof (induction derive ks t arbitrary: r t' rule: install_queues.induct)
  case (2 derive k ks t)
  show ?case
  proof (cases "map_of t (kq_name k)")
    case None
    then have "n \<noteq> kq_name k" using "2.prems"(2) by auto
    then have "map_of (AList.update (kq_name k) k t) n = map_of t n" by (simp add: update_conv')
    then show ?thesis using 2 None by (fastforce split: prod.splits sum.splits)
  next
    case (Some existing)
    then show ?thesis using 2 by (fastforce split: prod.splits sum.splits if_splits)
  qed
qed simp

lemma same_dict_refl [simp]: "same_dict d d"
  by (simp add: same_dict_def list_all_iff)

lemma install_holds:
  assumes "install_queues derive (map define_queue qs) t = (Inr ts, t')" "q \<in> set qs"
  shows "\<exists>k \<in> set ts. map_of t' (q_name q) = Some k \<and>
    same_dict (declared_arguments derive k) (declared_arguments derive (define_queue q))"
  using assms
proof (induction qs arbitrary: t ts)
  case (Cons p qs)
  let ?k = "define_queue p"
  define found where "found = (case map_of t (kq_name ?k) of Some e \<Rightarrow> e | None \<Rightarrow> ?k)"
  define t1 where "t1 = (if map_of t (kq_name ?k) = None then AList.update (kq_name ?k) ?k t else t)"
  obtain rest where rest: "install_queues derive (map define_queue qs) t1 = (Inr rest, t')" "ts = found # rest"
    and same: "same_dict (declared_arguments derive found) (declared_arguments derive ?k)"
    using Cons.prems(1) by (auto simp: found_def t1_def split: option.splits prod.splits sum.splits if_splits)
  have "map_of t1 (q_name p) = Some found"
    using named [of p] by (auto simp: t1_def found_def update_conv' split: option.splits)
  then have "map_of t' (q_name p) = Some found" using install_grows [OF rest(1)] by blast
  then show ?case using Cons.IH [OF rest(1)] Cons.prems(2) rest(2) same by auto
qed simp

end

interpretation rabbitmq: broker_contact "queue_definition a"
  by unfold_locales (simp add: queue_definition_def celery_definition_def Let_def)

section \<open>Every queue is installed before the first declaration\<close>

text \<open>What installing keeps of an app: everything but its table, which only grows.\<close>

definition app_grows :: "app \<Rightarrow> app \<Rightarrow> bool" where
  "app_grows a b \<longleftrightarrow> (\<exists>t. b = a\<lparr>app_queues := t\<rparr> \<and>
     (\<forall>n k. map_of (app_queues a) n = Some k \<longrightarrow> map_of t n = Some k))"

lemma app_grows_refl [simp]: "app_grows a a"
  unfolding app_grows_def by (intro exI [of _ "app_queues a"]) simp

lemma app_grows_trans: "app_grows a b \<Longrightarrow> app_grows b c \<Longrightarrow> app_grows a c"
  by (auto simp: app_grows_def)

lemma app_grows_definition: "app_grows a b \<Longrightarrow> queue_definition b = queue_definition a"
  by (auto simp: app_grows_def queue_definition_def celery_definition_def fun_eq_iff)

lemma app_grows_broker: "app_grows a b \<Longrightarrow> app_broker b = app_broker a"
  by (auto simp: app_grows_def)

lemma app_grows_lookup:
  "app_grows a b \<Longrightarrow> map_of (app_queues a) n = Some k \<Longrightarrow> map_of (app_queues b) n = Some k"
  by (auto simp: app_grows_def)

lemma app_grows_install:
  "install_queues derive ks (app_queues a) = (r, t) \<Longrightarrow> app_grows a (a\<lparr>app_queues := t\<rparr>)"
  using rabbitmq.install_grows unfolding app_grows_def by blast

lemma install_dumpers_grows:
  "install_dumpers derive ds as = (r, as') \<Longrightarrow> app_grows (as i) (as' i)"
proof (induction ds arbitrary: as r as')
  case (Cons d ds)
  let ?a = "as (celery_app d)"
  obtain v t where inst: "install_queues derive (map (queue_definition ?a) (dumper_queues d)) (app_queues ?a) = (v, t)"
    by fastforce
  define mid where "mid = as(celery_app d := ?a\<lparr>app_queues := t\<rparr>)"
  obtain w as2 where rest: "install_dumpers derive ds mid = (w, as2)" by fastforce
  have mid: "app_grows (as i) (mid i)"
    using app_grows_install [OF inst] by (simp add: mid_def)
  moreover have "app_grows (mid i) (as2 i)" using Cons.IH [OF rest] .
  ultimately have "app_grows (as i) (as2 i)" by (rule app_grows_trans)
  moreover have "as' = as \<or> as' = mid \<or> as' = as2"
    using Cons.prems inst rest by (auto simp: mid_def Let_def split: sum.splits)
  ultimately show ?case using mid by auto
qed simp

lemma install_dumpers_holds:
  assumes "install_dumpers derive ds as = (Inr prepared, as')" "d \<in> set ds" "q \<in> set (dumper_queues d)"
  shows "\<exists>k ks. (celery_app d, ks) \<in> set prepared \<and> k \<in> set ks \<and>
    map_of (app_queues (as' (celery_app d))) (q_name q) = Some k \<and>
    same_dict (declared_arguments derive k) (declared_arguments derive (queue_definition (as (celery_app d)) q))"
  using assms
proof (induction ds arbitrary: as prepared)
  case (Cons e ds)
  let ?a = "as (celery_app e)"
  obtain ts t where fac: "broker_contact_factory ?a = Inr ()"
    and inst: "install_queues derive (map (queue_definition ?a) (dumper_queues e)) (app_queues ?a) = (Inr ts, t)"
    using Cons.prems(1) by (auto simp: Let_def split: prod.splits sum.splits)
  define mid where "mid = as(celery_app e := ?a\<lparr>app_queues := t\<rparr>)"
  obtain rest where rest: "install_dumpers derive ds mid = (Inr rest, as')" "prepared = (celery_app e, ts) # rest"
    using Cons.prems(1) fac inst by (auto simp: mid_def Let_def split: prod.splits sum.splits)
  have grow: "app_grows (as i) (mid i)" for i
    using app_grows_install [OF inst] by (simp add: mid_def)
  show ?case
  proof (cases "d = e")
    case True
    then obtain k where k: "k \<in> set ts" "map_of t (q_name q) = Some k"
        "same_dict (declared_arguments derive k) (declared_arguments derive (queue_definition ?a q))"
      using rabbitmq.install_holds [OF inst] Cons.prems(3) by blast
    then have "map_of (app_queues (as' (celery_app e))) (q_name q) = Some k"
      using app_grows_lookup [OF install_dumpers_grows [OF rest(1)]] by (simp add: mid_def)
    then show ?thesis using k rest(2) True by auto
  next
    case False
    then have "d \<in> set ds" using Cons.prems(2) by simp
    from Cons.IH [OF rest(1) this Cons.prems(3)] show ?thesis
      unfolding app_grows_definition [OF grow] using rest(2) by auto
  qed
qed simp

lemma install_dumpers_error:
  assumes "install_dumpers derive ds as = (Inl e, as')"
  shows "(\<exists>m. e = QueueConfigurationError m) \<or> (\<exists>m. e = UnsupportedBrokerError m)"
proof -
  have inst: "\<exists>m. e = QueueConfigurationError m" if "install_queues derive ks t = (Inl e, t')" for ks t t' e
    using that by (induction derive ks t arbitrary: t' rule: install_queues.induct)
      (fastforce split: option.splits prod.splits sum.splits if_splits)+
  show ?thesis
    using assms
  proof (induction ds arbitrary: as)
    case (Cons d ds)
    then show ?case
      using inst by (fastforce simp: Let_def broker_contact_factory_def split: prod.splits sum.splits if_splits)
  qed simp
qed

lemma declare_queues_ok: "declare_queues broker ks = Inr () \<Longrightarrow> k \<in> set ks \<Longrightarrow> broker k = Inr ()"
  by (induction ks) (auto split: sum.splits)

lemma declare_prepared_ok:
  "declare_prepared as prepared = Inr () \<Longrightarrow> (i, ks) \<in> set prepared \<Longrightarrow> k \<in> set ks \<Longrightarrow> app_broker (as i) k = Inr ()"
  by (induction as prepared rule: declare_prepared.induct) (auto split: sum.splits intro: declare_queues_ok)

text \<open>
  Setting up the queues: whatever happens, an app keeps the queues it had. When the set-up
  succeeds, or fails only because a broker cannot be reached, every queue of every \<open>BlockDumper\<close> is in
  its app's table under its name, with the arguments its policy needs; and when it succeeded with
  verification, the broker accepted each of them.
\<close>

lemma prepare_installs:
  assumes "prepare_block_dumpers s derive reg verify as = (r, as')"
  shows "(\<forall>i n k. map_of (app_queues (as i)) n = Some k \<longrightarrow> map_of (app_queues (as' i)) n = Some k) \<and>
    (r = Inr () \<or> (\<exists>m. r = Inl (BrokerUnreachableError m)) \<longrightarrow>
      (\<forall>d \<in> set (dr_dumpers reg). \<forall>q \<in> set (dumper_queues d).
        \<exists>k. map_of (app_queues (as' (celery_app d))) (q_name q) = Some k \<and>
          same_dict (declared_arguments derive k) (declared_arguments derive (queue_definition (as (celery_app d)) q)) \<and>
          (verify \<and> r = Inr () \<longrightarrow> app_broker (as (celery_app d)) k = Inr ())))"
proof -
  let ?poll = "if list_ex (\<lambda>d. list_ex (\<lambda>q. throttle q \<noteq> None) (dumper_queues d)) (dr_dumpers reg)
    then throttle_poll_seconds s else Inr 0"
  obtain v as2 where inst: "install_dumpers derive (dr_dumpers reg) as = (v, as2)" by fastforce
  note grow = install_dumpers_grows [OF inst]
  have "as' = as \<or> as' = as2"
    using assms inst by (auto simp: prepare_block_dumpers_def split: sum.splits)
  then have keeps: "map_of (app_queues (as' i)) n = Some k" if "map_of (app_queues (as i)) n = Some k" for i n k
    using app_grows_lookup [OF grow] that by auto
  have "\<exists>k. map_of (app_queues (as' (celery_app d))) (q_name q) = Some k \<and>
      same_dict (declared_arguments derive k) (declared_arguments derive (queue_definition (as (celery_app d)) q)) \<and>
      (verify \<and> r = Inr () \<longrightarrow> app_broker (as (celery_app d)) k = Inr ())"
    if r: "r = Inr () \<or> (\<exists>m. r = Inl (BrokerUnreachableError m))" and d: "d \<in> set (dr_dumpers reg)" "q \<in> set (dumper_queues d)" for d q
  proof -
    have "\<exists>m. e = QueueConfigurationError m" if "?poll = Inl e" for e
      using that by (auto simp: throttle_poll_seconds_def Let_def split: if_splits)
    then obtain z where z: "?poll = Inr z"
      using assms r by (cases ?poll) (auto simp: prepare_block_dumpers_def)
    have "v \<noteq> Inl e" for e
      using assms inst r z install_dumpers_error [of derive "dr_dumpers reg" as e as2]
      by (auto simp: prepare_block_dumpers_def)
    then obtain prepared where p: "v = Inr prepared" "as' = as2" "r = (if verify then declare_prepared as2 prepared else Inr ())"
      using assms inst z by (cases v) (auto simp: prepare_block_dumpers_def)
    obtain k ks where k: "(celery_app d, ks) \<in> set prepared" "k \<in> set ks"
        "map_of (app_queues (as2 (celery_app d))) (q_name q) = Some k"
        "same_dict (declared_arguments derive k) (declared_arguments derive (queue_definition (as (celery_app d)) q))"
      using install_dumpers_holds inst p(1) d by blast
    then show ?thesis
      using p declare_prepared_ok [of as2 prepared] app_grows_broker [OF grow] by auto
  qed
  with keeps show ?thesis by blast
qed

text \<open>Every error of the preparation is one of the set-up errors, or came from the broker of some dumper's app.\<close>

lemma install_dumpers_apps:
  "install_dumpers derive ds as = (Inr prepared, as') \<Longrightarrow> fst ` set prepared \<subseteq> celery_app ` set ds"
  by (induction derive ds as arbitrary: prepared as' rule: install_dumpers.induct)
    (fastforce simp: Let_def split: sum.splits prod.splits)+

lemma declare_prepared_error:
  "declare_prepared as prepared = Inl e \<Longrightarrow> \<exists>i k. i \<in> fst ` set prepared \<and> app_broker (as i) k = Inl e"
proof (induction as prepared rule: declare_prepared.induct)
  case (2 as i ks rest)
  have "\<exists>k. app_broker (as i) k = Inl e" if "declare_queues (app_broker (as i)) ks = Inl e"
    using that by (induction "app_broker (as i)" ks rule: declare_queues.induct) (auto split: sum.splits)
  then show ?case using 2 by (fastforce split: sum.splits)
qed simp

lemma prepare_errors:
  assumes "prepare_block_dumpers s derive reg verify as = (Inl e, as')" "\<not> is_setup_error e"
  shows "\<exists>d \<in> set (dr_dumpers reg). \<exists>k. app_broker (as (celery_app d)) k = Inl e"
proof -
  let ?poll = "if list_ex (\<lambda>d. list_ex (\<lambda>q. throttle q \<noteq> None) (dumper_queues d)) (dr_dumpers reg)
    then throttle_poll_seconds s else Inr 0"
  have "?poll \<noteq> Inl e" using assms(2) by (auto simp: throttle_poll_seconds_def Let_def split: if_splits)
  then obtain z where z: "?poll = Inr z"
    using assms(1) by (cases ?poll) (auto simp: prepare_block_dumpers_def)
  obtain v as2 where inst: "install_dumpers derive (dr_dumpers reg) as = (v, as2)" by fastforce
  have "v \<noteq> Inl e" using inst install_dumpers_error [of derive "dr_dumpers reg" as e as2] assms(2) by auto
  then obtain prepared where p: "v = Inr prepared" "declare_prepared as2 prepared = Inl e"
    using assms(1) inst z by (cases v) (auto simp: prepare_block_dumpers_def split: if_splits)
  then obtain i k where "i \<in> fst ` set prepared" "app_broker (as2 i) k = Inl e" using declare_prepared_error by blast
  then show ?thesis
    using install_dumpers_apps inst p(1) app_grows_broker [OF install_dumpers_grows [OF inst]] by fastforce
qed

definition sample_app :: app where
  "sample_app = \<lparr>app_name = ''proj'', app_driver = ''amqp'', app_queues = [], app_max_priority = Some (PyNum (PInt 10)),
     app_new_missing = (\<lambda>n. \<lparr>kq_name = n, kq_exchange = n, kq_routing_key = n, kq_arguments = [], kq_options = []\<rparr>),
     app_broker = (\<lambda>_. Inr ())\<rparr>"

definition sample_dumper :: block_dumper where
  "sample_dumper = \<lparr>dumper_id = 0, celery_app = 0, app_main = ''proj'', bd_block_time = 12,
     bd_queues = [(q_name sample_queue, sample_queue)]\<rparr>"

end
