(* ===== verification/Backfill_Command.thy ===== *)
theory Backfill_Command
  imports Backfill_Scheduler Celery_Config
begin

text \<open>
  The command \<open>backfill_blocks_v1\<close> (\<open>management/commands/backfill_blocks_v1.py\<close>): gap detection, the
  choice of the range, the runs it starts, Ctrl+C in the pauses between them, and what it prints. Durations are
  exact here where Python computes with floats.
\<close>

section \<open>Gaps\<close>

record gap =
  gap_start :: int
  gap_end :: int

definition gap_size :: "gap \<Rightarrow> int" where
  "gap_size g = gap_end g - gap_start g + 1"

text \<open>The loop of \<open>find_gaps\<close>, with the start of an open gap and the gaps found so far.\<close>

fun gap_loop :: "int set \<Rightarrow> int list \<Rightarrow> int option \<Rightarrow> gap list \<Rightarrow> int option \<times> gap list" where
  "gap_loop processed [] start gaps = (start, gaps)"
| "gap_loop processed (b # bs) start gaps =
     (if b \<notin> processed
      then gap_loop processed bs (case start of None \<Rightarrow> Some b | Some s \<Rightarrow> Some s) gaps
      else (case start of
        None \<Rightarrow> gap_loop processed bs None gaps
      | Some s \<Rightarrow> gap_loop processed bs None (gaps @ [\<lparr>gap_start = s, gap_end = b - 1\<rparr>])))"

definition find_gaps :: "int \<Rightarrow> int \<Rightarrow> int set \<Rightarrow> gap list" where
  "find_gaps from_block to_block processed =
     (case gap_loop processed [from_block..to_block] None [] of
        (None, gaps) \<Rightarrow> gaps
      | (Some s, gaps) \<Rightarrow> gaps @ [\<lparr>gap_start = s, gap_end = to_block\<rparr>])"

section \<open>What the command prints\<close>

text \<open>The lines written to the two streams; colours are left out. \<open>show_float\<close> is \<open>str\<close> of a float.\<close>

datatype line = Out string | Err string

definition SECONDS_PER_HOUR :: rat where
  "SECONDS_PER_HOUR = 3600"

definition SECONDS_PER_MINUTE :: rat where
  "SECONDS_PER_MINUTE = 60"

text \<open>Rounding in Python's number formats, and the formats \<open>:.0f\<close> and \<open>:.1f\<close> of a number that is not negative.\<close>

definition round_half_even :: "rat \<Rightarrow> int" where
  "round_half_even r =
     (let low = \<lfloor>r\<rfloor>; rest = r - of_int low
      in if rest < 1 / 2 \<or> rest = 1 / 2 \<and> even low then low else low + 1)"

definition format_0f :: "rat \<Rightarrow> string" where
  "format_0f r = show_int (round_half_even r)"

definition format_1f :: "rat \<Rightarrow> string" where
  "format_1f r = (let tenths = round_half_even (10 * r) in show_int (tenths div 10) @ ''.'' @ show_int (tenths mod 10))"

definition time_str :: "rat \<Rightarrow> string" where
  "time_str secs =
     (if secs < SECONDS_PER_MINUTE then ''~'' @ format_0f secs @ '' seconds''
      else if secs < SECONDS_PER_HOUR then ''~'' @ format_1f (secs / SECONDS_PER_MINUTE) @ '' minutes''
      else ''~'' @ format_1f (secs / SECONDS_PER_HOUR) @ '' hours'')"

definition print_time_estimate :: "(rat \<Rightarrow> string) \<Rightarrow> rat \<Rightarrow> rat \<Rightarrow> line list" where
  "print_time_estimate show_float secs rate_limit =
     [Out (''Estimated time at '' @ show_float rate_limit @ ''s rate limit: '' @ time_str secs)]"

section \<open>The command\<close>

record backfill_options =
  opt_from :: "int option"
  opt_to :: "int option"
  opt_rate_limit :: rat
  opt_network :: string
  opt_dry_run :: bool
  opt_no_gap_detection :: bool

text \<open>The options of a call that names none.\<close>

definition default_options :: backfill_options where
  "default_options = \<lparr>opt_from = None, opt_to = None, opt_rate_limit = 1, opt_network = ''finney'', opt_dry_run = False,
     opt_no_gap_detection = False\<rparr>"

text \<open>What the command threads through its schedulers: the looks at the chain, the world, the others, the lines.\<close>

type_synonym command_state = "nat \<times> world \<times> (world \<Rightarrow> world) list \<times> line list"

definition say :: "line list \<Rightarrow> command_state \<Rightarrow> command_state" where
  "say ls s = (case s of (k, w, others, out) \<Rightarrow> (k, w, others, out @ ls))"

text \<open>\<open>backfill_scheduler_factory(...)\<close>, whose \<open>BlockProcessor\<close> cleans up phantom tasks, and its \<open>start()\<close>.\<close>

definition backfill_scheduler_factory :: "int \<Rightarrow> int \<Rightarrow> string \<Rightarrow> rat \<Rightarrow> bool \<Rightarrow> world \<Rightarrow> backfill \<times> world" where [simp]:
  "backfill_scheduler_factory from_block to_block network rate_limit dry w =
     (new_backfill network rate_limit from_block to_block dry, cleanup_phantom_tasks w)"

definition run_scheduler ::
  "ctx \<Rightarrow> chain \<Rightarrow> string \<Rightarrow> rat \<Rightarrow> int \<Rightarrow> int \<Rightarrow> bool \<Rightarrow> command_state \<Rightarrow> dry_run_stats option res \<times> command_state" where
  "run_scheduler x chain network rate_limit from_block to_block dry s =
     (case s of (k, w, others, out) \<Rightarrow>
        (case backfill_scheduler_factory from_block to_block network rate_limit dry w of (b, w1) \<Rightarrow>
        (case backfill_start x chain (b\<lparr>looks := k\<rparr>, w1, others) of
           (r, (b', w', others')) \<Rightarrow> (r, (looks b', w', others', out)))))"

definition gap_line :: "nat \<times> gap \<Rightarrow> line" where
  "gap_line ig = (case ig of (i, g) \<Rightarrow>
     Out (if gap_size g = 1 then ''  Gap '' @ show_nat i @ '': block '' @ show_int (gap_start g)
       else ''  Gap '' @ show_nat i @ '': blocks '' @ show_int (gap_start g) @ '' -> '' @ show_int (gap_end g) @
         '' ('' @ show_int (gap_size g) @ '' blocks)''))"

fun gap_dry_runs :: "ctx \<Rightarrow> chain \<Rightarrow> string \<Rightarrow> rat \<Rightarrow> gap list \<Rightarrow> int \<Rightarrow> command_state \<Rightarrow> int res \<times> command_state" where
  "gap_dry_runs x chain network rate_limit [] estimated s = (Inr estimated, s)"
| "gap_dry_runs x chain network rate_limit (g # gaps) estimated s =
     (case run_scheduler x chain network rate_limit (gap_start g) (gap_end g) True s of
        (Inl e, s') \<Rightarrow> (Inl e, s')
      | (Inr stats, s') \<Rightarrow>
          gap_dry_runs x chain network rate_limit gaps
            (estimated + (case stats of Some st \<Rightarrow> estimated_tasks st | None \<Rightarrow> 0)) s')"

definition handle_gap_dry_run ::
  "(rat \<Rightarrow> string) \<Rightarrow> ctx \<Rightarrow> chain \<Rightarrow> gap list \<Rightarrow> int \<Rightarrow> rat \<Rightarrow> string \<Rightarrow> command_state \<Rightarrow> unit res \<times> command_state" where
  "handle_gap_dry_run show_float x chain gaps total_missing rate_limit network s =
     (case gap_dry_runs x chain network rate_limit gaps 0
         (say [Out ''Dry-run mode: previewing gaps to backfill'', Out []] s) of
        (Inl e, s') \<Rightarrow> (Inl e, s')
      | (Inr estimated, s') \<Rightarrow>
          (Inr (), say ([Out ''Summary:'', Out (''  Total gaps: '' @ show_nat (length gaps)),
              Out (''  Total missing blocks: '' @ show_int total_missing),
              Out (''  Estimated tasks to submit: '' @ show_int estimated)] @
            (if rate_limit > 0 \<and> total_missing > 0
             then print_time_estimate show_float (of_int total_missing * rate_limit) rate_limit else [])) s'))"

text \<open>The loop over the gaps: whether Ctrl+C ended it in a pause, and the blocks counted.\<close>

fun gap_executions ::
  "ctx \<Rightarrow> chain \<Rightarrow> string \<Rightarrow> rat \<Rightarrow> nat \<Rightarrow> nat \<Rightarrow> gap list \<Rightarrow> int \<Rightarrow> command_state \<Rightarrow> (bool \<times> int) res \<times> command_state" where
  "gap_executions x chain network rate_limit n i [] blocks s = (Inr (False, blocks), s)"
| "gap_executions x chain network rate_limit n i (g # gaps) blocks s =
     (case run_scheduler x chain network rate_limit (gap_start g) (gap_end g) False
         (say [Out (''Processing gap '' @ show_nat i @ ''/'' @ show_nat n @ '': '' @ show_int (gap_start g) @ '' -> '' @
           show_int (gap_end g) @ '' ('' @ show_int (gap_size g) @ '' blocks)'')] s) of
        (Inl e, s') \<Rightarrow> (Inl e, s')
      | (Inr _, s') \<Rightarrow>
          if i < n \<and> rate_limit > 0 \<and> interrupted_after x (gap_end g) then (Inr (True, blocks + gap_size g), s')
          else gap_executions x chain network rate_limit n (Suc i) gaps (blocks + gap_size g) s')"

definition stop_hint :: "line list" where
  "stop_hint = [Out [], Out ''Press Ctrl+C to stop gracefully...'', Out []]"

definition handle_gap_execution ::
  "(rat \<Rightarrow> string) \<Rightarrow> ctx \<Rightarrow> chain \<Rightarrow> gap list \<Rightarrow> int \<Rightarrow> rat \<Rightarrow> string \<Rightarrow> command_state \<Rightarrow> unit res \<times> command_state" where
  "handle_gap_execution show_float x chain gaps total_missing rate_limit network s =
     (case gap_executions x chain network rate_limit (length gaps) 1 gaps 0
         (say ([Out (''Starting backfill of '' @ show_nat (length gaps) @ '' gap(s) with '' @ show_int total_missing @
               '' missing blocks''),
             Out (''Rate limit: '' @ show_float rate_limit @ '' seconds between blocks'')] @
           (if rate_limit > 0 then print_time_estimate show_float (of_int total_missing * rate_limit) rate_limit else []) @
           stop_hint) s) of
        (Inl e, s') \<Rightarrow> (Inl e, s')
      | (Inr (True, blocks), s') \<Rightarrow>
          (Inr (), say [Out [], Out (''Interrupted. Processed '' @ show_int blocks @ ''/'' @ show_int total_missing @ '' blocks.'')] s')
      | (Inr (False, blocks), s') \<Rightarrow>
          (Inr (), say [Out (''Gap backfill completed. Processed '' @ show_int blocks @ '' blocks.'')] s'))"

definition block_range_line :: "int \<Rightarrow> int \<Rightarrow> line" where
  "block_range_line from_block to_block =
     Out (''Block range: '' @ show_int from_block @ '' -> '' @ show_int to_block @ '' ('' @
       show_int (to_block - from_block + 1) @ '' blocks)'')"

definition handle_gap_backfill ::
  "(rat \<Rightarrow> string) \<Rightarrow> ctx \<Rightarrow> chain \<Rightarrow> int \<Rightarrow> int \<Rightarrow> rat \<Rightarrow> string \<Rightarrow> bool \<Rightarrow> command_state \<Rightarrow> unit res \<times> command_state" where
  "handle_gap_backfill show_float x chain from_block to_block rate_limit network dry s =
     (let processed = get_successful_block_numbers from_block to_block (table (fst (snd s)));
          gaps = find_gaps from_block to_block processed;
          total_missing = sum_list (map gap_size gaps);
          s1 = say [Out [], Out ''Discovering gaps in block range...'', block_range_line from_block to_block,
            Out (''Successfully processed blocks: '' @ show_nat (card processed))] s
      in if gaps = [] then (Inr (), say [Out ''No gaps found! All blocks have been processed.''] s1)
         else
           let s2 = say ([Out (''Found '' @ show_nat (length gaps) @ '' gap(s) with '' @ show_int total_missing @
                 '' missing blocks:''), Out []] @ map gap_line (enumerate 1 gaps) @ [Out []]) s1
           in (if dry then handle_gap_dry_run else handle_gap_execution)
                show_float x chain gaps total_missing rate_limit network s2)"

text \<open>
  A dry run over a whole range first reads the head to show the network it would use; the scheduler,
  whose creation cleans up phantom tasks, is there by then.
\<close>

definition handle_dry_run ::
  "(rat \<Rightarrow> string) \<Rightarrow> ctx \<Rightarrow> chain \<Rightarrow> int \<Rightarrow> int \<Rightarrow> rat \<Rightarrow> string \<Rightarrow> command_state \<Rightarrow> unit res \<times> command_state" where
  "handle_dry_run show_float x chain from_block to_block rate_limit network s =
     (case say [Out [], Out ''Dry-run mode: previewing blocks to backfill (no tasks will be executed)'', Out []] s of
        (k, w, others, out) \<Rightarrow>
          (case snd (chain k) of
             Inl e \<Rightarrow> (Inl e, (Suc k, cleanup_phantom_tasks w, others, out))
           | Inr head \<Rightarrow>
               (case fst (get_network_type_for_block chain from_block
                   ((new_backfill network rate_limit from_block to_block True)\<lparr>current_head_cache := Some head\<rparr>)) of
                  Inl e \<Rightarrow> (Inl e, (Suc k, cleanup_phantom_tasks w, others, out))
                | Inr network_type \<Rightarrow>
                    (case run_scheduler x chain network rate_limit from_block to_block True
                        (say ([block_range_line from_block to_block,
                            Out (''Network: '' @ network_type @ '' (blocks '' @
                              (if network_type = ''archive'' then ''>'' else ''<='') @ show_int ARCHIVE_BLOCK_THRESHOLD @
                              '' behind head)''),
                            Out (''Current head: '' @ show_int head), Out [], Out ''Registry items:''] @
                          map (\<lambda>item. Out (''  - '' @ item_path item)) (get_functions (registry x)) @
                          [Out [], Out ''Analyzing blocks...'']) (Suc k, w, others, out)) of
                       (Inl e, s') \<Rightarrow> (Inl e, s')
                     | (Inr None, s') \<Rightarrow> (Inr (), say [Err ''Dry-run failed''] s')
                     | (Inr (Some stats), s') \<Rightarrow>
                         (Inr (), say ([Out [], Out ''Summary:'',
                             Out (''  Total blocks in range: '' @ show_int (total_blocks stats)),
                             Out (''  Already processed (all tasks done): '' @ show_int (already_processed stats)),
                             Out (''  Blocks needing tasks: '' @ show_int (blocks_needing_tasks stats)),
                             Out (''  Estimated tasks to submit: '' @ show_int (estimated_tasks stats))] @
                           (if rate_limit > 0 \<and> blocks_needing_tasks stats > 0
                            then print_time_estimate show_float (of_int (blocks_needing_tasks stats) * rate_limit) rate_limit
                            else [])) s')))))"

definition handle_backfill ::
  "(rat \<Rightarrow> string) \<Rightarrow> ctx \<Rightarrow> chain \<Rightarrow> int \<Rightarrow> int \<Rightarrow> rat \<Rightarrow> string \<Rightarrow> command_state \<Rightarrow> unit res \<times> command_state" where
  "handle_backfill show_float x chain from_block to_block rate_limit network s =
     (let total = to_block - from_block + 1 in
      case run_scheduler x chain network rate_limit from_block to_block False
          (say ([Out [], Out (''Starting backfill: '' @ show_int from_block @ '' -> '' @ show_int to_block @ '' ('' @
                show_int total @ '' blocks)''),
              Out (''Rate limit: '' @ show_float rate_limit @ '' seconds between blocks'')] @
            (if rate_limit > 0 then print_time_estimate show_float (of_int total * rate_limit) rate_limit else []) @
            stop_hint) s) of
        (Inl e, s') \<Rightarrow> (Inl e, s')
      | (Inr _, s') \<Rightarrow> (Inr (), say [Out ''Backfill completed''] s'))"

definition handle_range_backfill ::
  "(rat \<Rightarrow> string) \<Rightarrow> ctx \<Rightarrow> chain \<Rightarrow> int \<Rightarrow> int \<Rightarrow> rat \<Rightarrow> string \<Rightarrow> bool \<Rightarrow> command_state \<Rightarrow> unit res \<times> command_state" where
  "handle_range_backfill show_float x chain from_block to_block rate_limit network dry =
     (if dry then handle_dry_run else handle_backfill) show_float x chain from_block to_block rate_limit network"

definition choose_range :: "backfill_options \<Rightarrow> db \<Rightarrow> (int \<times> int) option" where
  "choose_range opts d =
     (case (opt_from opts, opt_to opts) of
        (Some f, Some t) \<Rightarrow> Some (f, t)
      | (f, t) \<Rightarrow>
          (case get_block_range d of
             (Some lo, Some hi) \<Rightarrow> Some (case f of Some b \<Rightarrow> b | None \<Rightarrow> lo, case t of Some b \<Rightarrow> b | None \<Rightarrow> hi)
           | _ \<Rightarrow> None))"

definition setup_error :: "exn \<Rightarrow> exn" where
  "setup_error e = (if is_setup_error e then CommandError (queue_setup_error_message e) else e)"

text \<open>The command once the task modules are loaded.\<close>

definition handle_backfill_blocks ::
  "(rat \<Rightarrow> string) \<Rightarrow> ctx \<Rightarrow> derivation \<Rightarrow> dumper_registry \<Rightarrow> chain \<Rightarrow> backfill_options \<Rightarrow> apps \<Rightarrow> command_state \<Rightarrow>
   unit res \<times> apps \<times> command_state" where
  "handle_backfill_blocks show_float x derive reg chain opts as s =
     (let n = length (get_functions (registry x));
          s1 = say [Out ''Syncing decorated functions...'', Out (''Synced '' @ show_nat n @ '' functions'')] s
      in if n = 0 then (Inr (), as, say [Err ''No functions registered. Nothing to backfill.''] s1)
      else (case prepare_block_dumpers (cfg x) derive reg (\<not> opt_dry_run opts) as of
        (Inl e, as') \<Rightarrow> (Inl (setup_error e), as', s1)
      | (Inr _, as') \<Rightarrow>
          (case choose_range opts (table (fst (snd s1))) of
             None \<Rightarrow> (Inr (), as', say [Err ''No blocks found in database. Provide --from-block and --to-block.''] s1)
           | Some (from_block, to_block) \<Rightarrow>
               let s2 = (if opt_from opts = None \<or> opt_to opts = None
                 then say [Out (''Using block range from database: '' @ show_int from_block @ '' -> '' @ show_int to_block)] s1
                 else s1)
               in if from_block > to_block
               then (Inr (), as', say [Err (''--from-block ('' @ show_int from_block @ '') must be <= --to-block ('' @
                 show_int to_block @ '')'')] s2)
               else if opt_rate_limit opts < 0 then (Inr (), as', say [Err ''--rate-limit must be >= 0''] s2)
               else (case (if opt_no_gap_detection opts then handle_range_backfill else handle_gap_backfill)
                       show_float x chain from_block to_block (opt_rate_limit opts) (opt_network opts) (opt_dry_run opts) s2 of
                  (r, s3) \<Rightarrow> (r, as', s3)))))"

section \<open>Gap detection is exact\<close>

text \<open>The blocks of a list of gaps, and gaps with a processed block between any two of them.\<close>

definition gap_blocks :: "gap list \<Rightarrow> int set" where
  "gap_blocks gaps = (\<Union>g \<in> set gaps. {gap_start g..gap_end g})"

definition separated :: "gap list \<Rightarrow> bool" where
  "separated gaps \<longleftrightarrow> sorted_wrt (\<lambda>g h. gap_end g + 1 < gap_start h) gaps \<and> (\<forall>g \<in> set gaps. gap_start g \<le> gap_end g)"

lemma gap_blocks_simps [simp]:
  "gap_blocks [] = {}" "gap_blocks (g # gs) = {gap_start g..gap_end g} \<union> gap_blocks gs"
  "gap_blocks (gs @ hs) = gap_blocks gs \<union> gap_blocks hs"
  by (auto simp: gap_blocks_def)

text \<open>
  The invariant of the loop before block \<open>k\<close>: the closed gaps and the open one are the unprocessed
  blocks seen so far, and a processed block follows each closed gap.
\<close>

definition gap_inv :: "int set \<Rightarrow> int \<Rightarrow> int \<Rightarrow> int option \<Rightarrow> gap list \<Rightarrow> bool" where
  "gap_inv processed from_block k start gaps \<longleftrightarrow> separated gaps \<and>
     gap_blocks gaps \<union> (case start of None \<Rightarrow> {} | Some s \<Rightarrow> {s..k - 1}) = {b \<in> {from_block..<k}. b \<notin> processed} \<and>
     (\<forall>g \<in> set gaps. gap_end g + 1 < (case start of None \<Rightarrow> k | Some s \<Rightarrow> s)) \<and>
     (\<forall>s. start = Some s \<longrightarrow> s < k)"

lemma gap_inv_step:
  assumes "gap_inv processed from_block k start gaps" "from_block \<le> k"
  shows "if k \<notin> processed then gap_inv processed from_block (k + 1) (case start of None \<Rightarrow> Some k | Some s \<Rightarrow> Some s) gaps
    else (case start of
        None \<Rightarrow> gap_inv processed from_block (k + 1) None gaps
      | Some s \<Rightarrow> gap_inv processed from_block (k + 1) None (gaps @ [\<lparr>gap_start = s, gap_end = k - 1\<rparr>]))"
proof -
  have blocks: "{b \<in> {from_block..<k + 1}. b \<notin> processed} =
      {b \<in> {from_block..<k}. b \<notin> processed} \<union> (if k \<in> processed then {} else {k})"
  proof -
    have "{from_block..<k + 1} = insert k {from_block..<k}" using assms(2) by auto
    then show ?thesis by auto
  qed
  show ?thesis
  proof (cases start)
    case None
    then show ?thesis using assms by (auto simp: gap_inv_def blocks)
  next
    case (Some s)
    then have "{s..k} = {s..k - 1} \<union> {k}" using assms(1) by (auto simp: gap_inv_def)
    then show ?thesis
      using assms Some by (auto simp: gap_inv_def blocks separated_def sorted_wrt_append)
  qed
qed

lemma gap_loop_inv:
  assumes "gap_inv processed from_block k start gaps" "from_block \<le> k" "k \<le> to_block + 1"
  shows "case gap_loop processed [k..to_block] start gaps of
    (start', gaps') \<Rightarrow> gap_inv processed from_block (to_block + 1) start' gaps'"
  using assms
proof (induction "nat (to_block + 1 - k)" arbitrary: k start gaps)
  case 0
  then show ?case by simp
next
  case (Suc n)
  then have le: "k \<le> to_block" by linarith
  have n: "n = nat (to_block + 1 - (k + 1))" using Suc.hyps(2) by linarith
  have up: "[k..to_block] = k # [k + 1..to_block]" using le by (rule upto_rec1)
  note step = gap_inv_step [OF Suc.prems(1,2)]
  have IH: "case gap_loop processed [k + 1..to_block] s g of
      (start', gaps') \<Rightarrow> gap_inv processed from_block (to_block + 1) start' gaps'"
    if "gap_inv processed from_block (k + 1) s g" for s g
    using Suc.hyps(1) [OF n that] Suc.prems(2) le by simp
  show ?case
    unfolding up using step by (cases start) (auto split: if_splits intro!: IH)
qed

lemma find_gaps_inv:
  assumes "from_block \<le> to_block + 1"
  shows "separated (find_gaps from_block to_block processed) \<and>
    gap_blocks (find_gaps from_block to_block processed) = {b \<in> {from_block..to_block}. b \<notin> processed}"
proof -
  have start: "gap_inv processed from_block from_block None []"
    by (simp add: gap_inv_def separated_def)
  obtain s gaps where l: "gap_loop processed [from_block..to_block] None [] = (s, gaps)" by fastforce
  have inv: "gap_inv processed from_block (to_block + 1) s gaps"
    using gap_loop_inv [OF start _ assms] l by simp
  have "{b \<in> {from_block..<to_block + 1}. b \<notin> processed} = {b \<in> {from_block..to_block}. b \<notin> processed}" by auto
  then show ?thesis
    using inv l by (cases s) (auto simp: find_gaps_def gap_inv_def separated_def sorted_wrt_append)
qed

lemma sum_gap_sizes: "separated gaps \<Longrightarrow> sum_list (map gap_size gaps) = int (card (gap_blocks gaps))"
proof (induction gaps)
  case (Cons g gaps)
  have sep: "separated gaps" and first: "\<forall>h \<in> set gaps. gap_end g + 1 < gap_start h" "gap_start g \<le> gap_end g"
    using Cons.prems by (auto simp: separated_def)
  have "{gap_start g..gap_end g} \<inter> gap_blocks gaps = {}" using first by (fastforce simp: gap_blocks_def)
  moreover have "finite (gap_blocks gaps)" by (simp add: gap_blocks_def)
  ultimately have "card (gap_blocks (g # gaps)) = card {gap_start g..gap_end g} + card (gap_blocks gaps)"
    by (simp add: card_Un_disjoint)
  then show ?case using Cons.IH [OF sep] first(2) by (simp add: gap_size_def)
qed simp

text \<open>
  C30. Gap detection is exact: the gaps are non-empty, in order and with a processed block between any
  two of them; together they hold exactly the blocks of the range that were not processed; and their
  sizes add up to the number of missing blocks.
\<close>

theorem find_gaps_exact:
  fixes from_block to_block :: int and processed :: "int set"
  assumes "from_block \<le> to_block"
  defines "gaps \<equiv> find_gaps from_block to_block processed"
  shows "(\<Union>g \<in> set gaps. {gap_start g..gap_end g}) = {b. from_block \<le> b \<and> b \<le> to_block \<and> b \<notin> processed} \<and>
    sorted_wrt (\<lambda>g h. gap_end g + 1 < gap_start h) gaps \<and> (\<forall>g \<in> set gaps. gap_start g \<le> gap_end g) \<and>
    sum_list (map gap_size gaps) = int (card {b. from_block \<le> b \<and> b \<le> to_block \<and> b \<notin> processed})"
proof -
  have eq: "{b \<in> {from_block..to_block}. b \<notin> processed} = {b. from_block \<le> b \<and> b \<le> to_block \<and> b \<notin> processed}" by auto
  have inv: "separated gaps" "gap_blocks gaps = {b. from_block \<le> b \<and> b \<le> to_block \<and> b \<notin> processed}"
    using find_gaps_inv [of from_block to_block processed] assms by (simp_all add: eq)
  show ?thesis
    using inv sum_gap_sizes [OF inv(1)] by (simp add: separated_def gap_blocks_def)
qed

theorem find_gaps_exact_witness:
  "sum_list (map gap_size (find_gaps 1 9 {2, 3, 7})) = int (card {b. 1 \<le> b \<and> b \<le> 9 \<and> b \<notin> {2, 3, 7 :: int}}) \<and>
   find_gaps 1 9 {2, 3, 7} = [\<lparr>gap_start = 1, gap_end = 1\<rparr>, \<lparr>gap_start = 4, gap_end = 6\<rparr>, \<lparr>gap_start = 8, gap_end = 9\<rparr>]"
proof -
  have "(1::int) \<le> 9" by simp
  from find_gaps_exact [OF this, of "{2, 3, 7}"] show ?thesis by (simp add: find_gaps_def upto_rec1)
qed

section \<open>A dry run changes nothing\<close>

lemma say_sel [simp]:
  "fst (say ls s) = fst s" "fst (snd (say ls s)) = fst (snd s)" "snd (snd (snd (say ls s))) = snd (snd (snd s)) @ ls"
  by (simp_all add: say_def split: prod.split)

text \<open>The world a preview leaves: the one it found, less the recent phantoms if it built a block processor.\<close>

definition previewed :: "world \<Rightarrow> world \<Rightarrow> bool" where
  "previewed w w' \<longleftrightarrow> w' = w \<or> w' = cleanup_phantom_tasks w"

lemma previewed_refl [simp]: "previewed w w"
  by (simp add: previewed_def)

lemma previewed_cleanup [simp]: "previewed w w' \<Longrightarrow> previewed w (cleanup_phantom_tasks w')"
  unfolding previewed_def by (elim disjE) simp_all

lemma run_scheduler_dry:
  "previewed w (fst (snd s)) \<Longrightarrow> previewed w (fst (snd (snd (run_scheduler x chain network rate_limit f t True s))))"
  by (auto simp: run_scheduler_def backfill_start_def new_backfill_def Let_def split: prod.splits sum.splits)

lemma gap_dry_runs_frame:
  "previewed w (fst (snd s)) \<Longrightarrow> previewed w (fst (snd (snd (gap_dry_runs x chain network rate_limit gaps n s))))"
proof (induction x chain network rate_limit gaps n s rule: gap_dry_runs.induct)
  case (2 x chain network rate_limit g gaps n s)
  obtain v s1 where one: "run_scheduler x chain network rate_limit (gap_start g) (gap_end g) True s = (v, s1)" by (metis surj_pair)
  then have s1: "previewed w (fst (snd s1))"
    using run_scheduler_dry [OF "2.prems", of x chain network rate_limit "gap_start g" "gap_end g"] by simp
  show ?case
    using "2.IH" [OF one [symmetric]] one s1 by (cases v) simp_all
qed simp

lemma handle_gap_dry_frame:
  assumes "previewed w (fst (snd s))"
  shows "previewed w (fst (snd (snd (handle_gap_backfill show_float x chain f t rate_limit network True s))))"
proof -
  have "previewed w (fst (snd (snd (handle_gap_dry_run show_float x chain gaps m rate_limit network s'))))"
    if "fst (snd s') = fst (snd s)" for gaps m s'
    using gap_dry_runs_frame [of w "say _ s'" x chain network rate_limit gaps 0] that assms
    by (simp add: handle_gap_dry_run_def split_beta split: sum.split del: append.simps append_Cons)
  then show ?thesis by (simp add: handle_gap_backfill_def assms Let_def del: append.simps append_Cons)
qed

lemma run_then_say_dry:
  assumes "previewed w (fst (snd s))"
  shows "previewed w (fst (snd (snd (case run_scheduler x chain network rate_limit f t True s of
      (Inl e, s') \<Rightarrow> (Inl e, s') | (Inr None, s') \<Rightarrow> (Inr (), say ls s')
    | (Inr (Some stats), s') \<Rightarrow> (Inr (), say (report stats) s')))))"
  using run_scheduler_dry [OF assms, of x chain network rate_limit f t]
  by (simp add: split_beta split: sum.split option.split)

lemma handle_range_dry_frame:
  assumes "previewed w (fst (snd s))"
  shows "previewed w (fst (snd (snd (handle_range_backfill show_float x chain f t rate_limit network True s))))"
proof -
  obtain k w1 others out where intro: "say [Out [], Out ''Dry-run mode: previewing blocks to backfill (no tasks will be executed)'',
      Out []] s = (k, w1, others, out)" using prod_cases4 by blast
  have "w1 = fst (snd s)" using arg_cong [OF intro, of "\<lambda>s. fst (snd s)"] by simp
  then have w1: "previewed w w1" using assms by simp
  then have "previewed w (fst (snd (say ls (Suc k, w1, others, out))))" for ls by simp
  note run = run_then_say_dry [OF this]
  show ?thesis
    unfolding handle_range_backfill_def handle_dry_run_def if_True intro prod.case
    by (split sum.split, intro conjI allI impI, simp add: w1)
      (split sum.split, intro conjI allI impI, simp add: w1, rule run)
qed

text \<open>
  C32. A preview is only a preview: with \<open>--dry-run\<close> the command submits nothing, sends no message, changes no
  row it leaves and never asks the broker to declare a queue, whatever its other options and whatever the table
  holds. The one thing it may do to the database is what building its \<open>BlockProcessor\<close> does
  (\<open>block_processor.py:50\<close>): delete the recent phantoms, rows marked SUCCESS that were never attempted. So
  the world after it is the world before, or that world less exactly those rows.
\<close>

theorem dry_run_command_changes_nothing:
  assumes "opt_dry_run opts"
    and "handle_backfill_blocks show_float x derive reg chain opts as (k, w, others, out) = (r, as', (k', w', others', out'))"
  shows "(w' = w \<or> w' = w\<lparr>table := (table w)\<lparr>attempts := [r \<leftarrow> attempts (table w). \<not> recent_phantom (clk w) r]\<rparr>\<rparr>) \<and>
    (as' = as \<or> as' = snd (prepare_block_dumpers (cfg x) derive reg False as))"
proof -
  have frames: "previewed w (fst (snd (snd (handle_range_backfill show_float x chain f t rate network True s))))"
    "previewed w (fst (snd (snd (handle_gap_backfill show_float x chain f t rate network True s))))"
    if "fst (snd s) = w" for f t rate network s
    using handle_range_dry_frame [of w s show_float x chain f t rate network]
      handle_gap_dry_frame [of w s show_float x chain f t rate network] that by simp_all
  have "previewed w (fst (snd (snd (snd (handle_backfill_blocks show_float x derive reg chain opts as (k, w, others, out))))))"
    using assms(1) frames
    by (simp add: handle_backfill_blocks_def Let_def split_beta split: sum.split option.split
        del: append.simps append_Cons)
  moreover have "fst (snd (handle_backfill_blocks show_float x derive reg chain opts as (k, w, others, out))) \<in>
      {as, snd (prepare_block_dumpers (cfg x) derive reg False as)}"
    using assms(1) by (simp add: handle_backfill_blocks_def Let_def split_beta split: sum.split option.split
        del: append.simps append_Cons)
  ultimately show ?thesis using assms(2) by (simp add: previewed_def cleanup_phantom_table)
qed

theorem dry_run_command_changes_nothing_witness:
  "\<exists>r as' k' others' out'. handle_backfill_blocks (\<lambda>_. ''1.0'') sample_ctx (\<lambda>args _. args) empty_dumper_registry sample_chain
     (default_options\<lparr>opt_from := Some 90, opt_to := Some 99, opt_dry_run := True\<rparr>) (\<lambda>_. sample_app) (0, sample_world, [], []) =
   (r, as', (k', sample_world, others', out'))"
proof -
  let ?opts = "default_options\<lparr>opt_from := Some 90, opt_to := Some 99, opt_dry_run := True\<rparr>"
  obtain r as' k' w' others' out' where h: "handle_backfill_blocks (\<lambda>_. ''1.0'') sample_ctx (\<lambda>args _. args) empty_dumper_registry
      sample_chain ?opts (\<lambda>_. sample_app) (0, sample_world, [], []) = (r, as', (k', w', others', out'))" by (metis surj_pair)
  from dry_run_command_changes_nothing [OF _ h] have "w' = sample_world" by (auto simp: sample_world_def empty_db_def)
  with h show ?thesis by auto
qed

section \<open>The report of a gap backfill\<close>

lemma separated_appendD: "separated (gs @ hs) \<Longrightarrow> separated gs"
  by (auto simp: separated_def sorted_wrt_append)

lemma gap_blocks_prefix:
  assumes "separated (gs @ hs)" "gs \<noteq> []" "hs \<noteq> []"
  defines "b \<equiv> gap_end (last gs)"
  shows "gap_blocks gs = {c \<in> gap_blocks (gs @ hs). c \<le> b}" "b \<in> gap_blocks gs" "b + 1 \<notin> gap_blocks (gs @ hs)"
    "\<exists>c \<in> gap_blocks (gs @ hs). b < c"
proof -
  have ends: "gap_end g \<le> b" "gap_start g \<le> gap_end g" if "g \<in> set gs" for g
  proof -
    have gs: "gs = butlast gs @ [last gs]" using assms(2) by simp
    have "\<forall>x \<in> set (butlast gs). gap_end x + 1 < gap_start (last gs)"
      using assms(1) gs sorted_wrt_append [of _ "butlast gs" "[last gs]"]
      by (metis list.set_intros(1) separated_appendD separated_def)
    moreover have valid: "\<forall>x \<in> set gs. gap_start x \<le> gap_end x" using assms(1) by (auto simp: separated_def)
    moreover have "g \<in> set (butlast gs) \<or> g = last gs"
      using that gs by (metis Un_iff empty_iff empty_set in_set_insert insert_iff list.simps(15) set_append)
    moreover have "gap_start (last gs) \<le> b" using valid assms(2) by (simp add: b_def)
    ultimately show "gap_end g \<le> b" by (auto simp: b_def)
    show "gap_start g \<le> gap_end g" using valid that by blast
  qed
  have later: "b + 1 < gap_start h" "gap_start h \<le> gap_end h" if "h \<in> set hs" for h
    using assms(1,2) that by (auto simp: separated_def sorted_wrt_append b_def)
  show "gap_blocks gs = {c \<in> gap_blocks (gs @ hs). c \<le> b}"
    using ends(1) later(1) by (fastforce simp: gap_blocks_def)
  show "b \<in> gap_blocks gs" using ends(2) [of "last gs"] assms(2) by (auto simp: gap_blocks_def b_def)
  show "b + 1 \<notin> gap_blocks (gs @ hs)" using ends(1) later(1) by (fastforce simp: gap_blocks_def)
  show "\<exists>c \<in> gap_blocks (gs @ hs). b < c"
    using later [of "hd hs"] assms(3) by (auto simp: gap_blocks_def intro!: bexI [of _ "gap_start (hd hs)"] bexI [of _ "hd hs"])
qed

text \<open>Ctrl+C came after a gap that is not the last, with \<open>m\<close> blocks in the gaps up to it.\<close>

definition stopped_after :: "ctx \<Rightarrow> gap list \<Rightarrow> int \<Rightarrow> bool" where
  "stopped_after x gaps m \<longleftrightarrow> (\<exists>gs hs. gaps = gs @ hs \<and> gs \<noteq> [] \<and> hs \<noteq> [] \<and> interrupted_after x (gap_end (last gs)) \<and>
     m = sum_list (map gap_size gs))"

lemma stopped_after_first:
  "interrupted_after x (gap_end g) \<Longrightarrow> gaps \<noteq> [] \<Longrightarrow> stopped_after x (g # gaps) (gap_size g)"
  unfolding stopped_after_def by (rule exI [of _ "[g]"], rule exI [of _ gaps]) simp

lemma stopped_after_later:
  assumes "stopped_after x gaps m"
  shows "stopped_after x (g # gaps) (gap_size g + m)"
proof -
  obtain gs hs where "gaps = gs @ hs" "gs \<noteq> []" "hs \<noteq> []" "interrupted_after x (gap_end (last gs))" "m = sum_list (map gap_size gs)"
    using assms unfolding stopped_after_def by blast
  then show ?thesis unfolding stopped_after_def by (intro exI [of _ "g # gs"] exI [of _ hs]) simp
qed

lemma gap_executions_count:
  assumes "gap_executions x chain network rate_limit n i gaps blocks s = (Inr (stopped, m), s')" "n + 1 = i + length gaps"
  shows "if stopped then 0 < rate_limit \<and> stopped_after x gaps (m - blocks) else m = blocks + sum_list (map gap_size gaps)"
  using assms
proof (induction x chain network rate_limit n i gaps blocks s rule: gap_executions.induct)
  case (2 x chain network rate_limit n i g gaps blocks s)
  obtain v s1 where one: "run_scheduler x chain network rate_limit (gap_start g) (gap_end g) False
      (say [Out (''Processing gap '' @ show_nat i @ ''/'' @ show_nat n @ '': '' @ show_int (gap_start g) @ '' -> '' @
        show_int (gap_end g) @ '' ('' @ show_int (gap_size g) @ '' blocks)'')] s) = (v, s1)" by (metis surj_pair)
  then obtain u where v: "v = Inr u" using "2.prems"(1) by (cases v) simp_all
  show ?case
  proof (cases "i < n \<and> rate_limit > 0 \<and> interrupted_after x (gap_end g)")
    case True
    then have "gaps \<noteq> []" "stopped" "m = blocks + gap_size g" using "2.prems" one v by auto
    then show ?thesis using True by (simp add: stopped_after_first)
  next
    case False
    then have rest: "gap_executions x chain network rate_limit n (Suc i) gaps (blocks + gap_size g) s1 = (Inr (stopped, m), s')"
      using "2.prems"(1) one v by (simp only: gap_executions.simps) auto
    note IH = "2.IH" [OF one [symmetric] v False rest]
    show ?thesis
      using IH "2.prems"(2) stopped_after_later [of x gaps "m - (blocks + gap_size g)" g] by (simp split: if_splits)
  qed
qed simp

lemma handle_gap_execution_cases:
  assumes "handle_gap_execution show_float x chain gaps total_missing rate_limit network s = (Inr (), s')"
  obtains s1 s2 stopped m where
    "gap_executions x chain network rate_limit (length gaps) 1 gaps 0 s1 = (Inr (stopped, m), s2)"
    "s' = say (if stopped
      then [Out [], Out (''Interrupted. Processed '' @ show_int m @ ''/'' @ show_int total_missing @ '' blocks.'')]
      else [Out (''Gap backfill completed. Processed '' @ show_int m @ '' blocks.'')]) s2"
proof -
  obtain s1 where run: "(case gap_executions x chain network rate_limit (length gaps) 1 gaps 0 s1 of
      (Inl e, s') \<Rightarrow> (Inl e, s')
    | (Inr (True, blocks), s') \<Rightarrow>
        (Inr (), say [Out [], Out (''Interrupted. Processed '' @ show_int blocks @ ''/'' @ show_int total_missing @ '' blocks.'')] s')
    | (Inr (False, blocks), s') \<Rightarrow>
        (Inr (), say [Out (''Gap backfill completed. Processed '' @ show_int blocks @ '' blocks.'')] s')) = (Inr (), s')"
    using assms unfolding handle_gap_execution_def by blast
  obtain v s2 where v: "gap_executions x chain network rate_limit (length gaps) 1 gaps 0 s1 = (v, s2)" by (metis surj_pair)
  then obtain stopped m where "v = Inr (stopped, m)" using run by (cases v) auto
  with v run show ?thesis by (intro that [of s1 stopped m s2]) (auto split: bool.splits)
qed

text \<open>
  C31. What a gap backfill reports last: that nothing was missing, that it processed every missing block of
  the range, or, when Ctrl+C came in the pause after a gap that is not the last, that it processed the
  missing blocks up to there. The completed report counts a gap whole, also when Ctrl+C ended its run early:
  only an interrupt between two gaps ends the command.
\<close>

theorem gap_backfill_report:
  assumes "from_block \<le> to_block"
    and "handle_gap_backfill show_float x chain from_block to_block rate_limit network False (k, w, others, out) =
      (Inr (), (k', w', others', out'))"
  defines "missing \<equiv> {b. from_block \<le> b \<and> b \<le> to_block \<and> b \<notin> get_successful_block_numbers from_block to_block (table w)}"
  shows "missing = {} \<and> last out' = Out ''No gaps found! All blocks have been processed.'' \<or>
    missing \<noteq> {} \<and> last out' = Out (''Gap backfill completed. Processed '' @ show_int (int (card missing)) @ '' blocks.'') \<or>
    0 < rate_limit \<and> (\<exists>b \<in> missing. interrupted_after x b \<and> b + 1 \<notin> missing \<and> (\<exists>c \<in> missing. b < c) \<and>
      last out' = Out (''Interrupted. Processed '' @ show_int (int (card {c \<in> missing. c \<le> b})) @ ''/'' @
        show_int (int (card missing)) @ '' blocks.''))"
proof -
  define gaps where "gaps = find_gaps from_block to_block (get_successful_block_numbers from_block to_block (table w))"
  have "{b \<in> {from_block..to_block}. b \<notin> get_successful_block_numbers from_block to_block (table w)} = missing"
    by (auto simp: missing_def)
  then have sep: "separated gaps" and blocks: "gap_blocks gaps = missing"
    using find_gaps_inv [of from_block to_block] assms(1) by (simp_all add: gaps_def)
  note sizes = sum_gap_sizes [OF sep, unfolded blocks]
  show ?thesis
  proof (cases "gaps = []")
    case True
    then have "missing = {}" using blocks by simp
    then show ?thesis using assms(2) True by (auto simp: handle_gap_backfill_def Let_def say_def simp flip: gaps_def)
  next
    case False
    then have ne: "missing \<noteq> {}" using blocks sep by (cases gaps) (auto simp: separated_def)
    obtain s0 where "handle_gap_execution show_float x chain gaps (int (card missing)) rate_limit network s0 =
        (Inr (), (k', w', others', out'))"
      using assms(2) False sizes unfolding handle_gap_backfill_def Let_def by (simp flip: gaps_def)
    then obtain s1 s2 stopped m where
      run: "gap_executions x chain network rate_limit (length gaps) 1 gaps 0 s1 = (Inr (stopped, m), s2)"
      and out: "(k', w', others', out') = say (if stopped
        then [Out [], Out (''Interrupted. Processed '' @ show_int m @ ''/'' @ show_int (int (card missing)) @ '' blocks.'')]
        else [Out (''Gap backfill completed. Processed '' @ show_int m @ '' blocks.'')]) s2"
      by (rule handle_gap_execution_cases)
    have out': "last out' = Out (if stopped
        then ''Interrupted. Processed '' @ show_int m @ ''/'' @ show_int (int (card missing)) @ '' blocks.''
        else ''Gap backfill completed. Processed '' @ show_int m @ '' blocks.'')"
      using arg_cong [OF out, of "\<lambda>s. last (snd (snd (snd s)))"] by simp
    note count = gap_executions_count [OF run]
    show ?thesis
    proof (cases stopped)
      case True
      then obtain gs hs where gs: "gaps = gs @ hs" "gs \<noteq> []" "hs \<noteq> []" "interrupted_after x (gap_end (last gs))"
        "m = sum_list (map gap_size gs)" "0 < rate_limit" using count by (auto simp: stopped_after_def)
      note prefix = gap_blocks_prefix [OF _ gs(2,3), folded gs(1), OF sep, unfolded blocks]
      have "m = int (card {c \<in> missing. c \<le> gap_end (last gs)})"
        using gs(5) sum_gap_sizes [OF separated_appendD [OF sep [unfolded gs(1)]]] prefix(1) by simp
      then show ?thesis using out' True gs(4,6) prefix by auto
    next
      case False
      then show ?thesis using out' ne count sizes by simp
    qed
  qed
qed

text \<open>Ctrl+C after block 90 of the only gap: block 91 is not reached, and the report counts all three.\<close>

lemma interrupted_inside_a_gap:
  "case handle_gap_backfill (\<lambda>_. ''1.0'') (sample_ctx\<lparr>interrupted_after := (\<lambda>b. b = 90)\<rparr>)
     sample_chain 90 92 1 ''finney'' False (0, sample_world\<lparr>prometheus := True\<rparr>, [], []) of (r, k, w, others, out) \<Rightarrow>
   r = Inr () \<and> CurrentBlock ''backfill'' 90 ''latest'' \<in> set (metrics w) \<and> CurrentBlock ''backfill'' 91 ''latest'' \<notin> set (metrics w)"
  by code_simp

theorem gap_backfill_report_witness:
  "\<exists>k w others out. handle_gap_backfill (\<lambda>_. ''1.0'') (sample_ctx\<lparr>interrupted_after := (\<lambda>b. b = 90)\<rparr>)
     sample_chain 90 92 1 ''finney'' False (0, sample_world\<lparr>prometheus := True\<rparr>, [], []) = (Inr (), (k, w, others, out)) \<and>
   last out = Out ''Gap backfill completed. Processed 3 blocks.'' \<and>
   CurrentBlock ''backfill'' 90 ''latest'' \<in> set (metrics w) \<and> CurrentBlock ''backfill'' 91 ''latest'' \<notin> set (metrics w)"
proof -
  let ?x = "sample_ctx\<lparr>interrupted_after := (\<lambda>b. b = 90)\<rparr>"
  let ?missing = "{b. 90 \<le> b \<and> b \<le> 92 \<and> b \<notin> get_successful_block_numbers 90 92 (table (sample_world\<lparr>prometheus := True\<rparr>))}"
  obtain k w others out where run: "handle_gap_backfill (\<lambda>_. ''1.0'') ?x sample_chain 90 92 1 ''finney'' False
      (0, sample_world\<lparr>prometheus := True\<rparr>, [], []) = (Inr (), (k, w, others, out))"
    and metrics: "CurrentBlock ''backfill'' 90 ''latest'' \<in> set (metrics w)" "CurrentBlock ''backfill'' 91 ''latest'' \<notin> set (metrics w)"
    using interrupted_inside_a_gap by (auto split: prod.splits)
  have missing: "?missing = {90, 91, 92}"
    by (auto simp: sample_world_def empty_db_def get_successful_block_numbers_def)
  have "last out = Out (''Gap backfill completed. Processed '' @ show_int (int (card {90, 91, 92 :: int})) @ '' blocks.'')"
    using gap_backfill_report [OF _ run, unfolded missing] by auto
  moreover have "show_int (int (card {90, 91, 92 :: int})) = ''3''" by code_simp
  ultimately show ?thesis using run metrics by auto
qed

end
