(* ===== verification/Maintenance.thy ===== *)
theory Maintenance
  imports Block_Processor
begin

text \<open>
  The operator's tools: \<open>block_dumper_give_up_v1\<close>
  (\<open>management/commands/block_dumper_give_up_v1.py\<close>), which stops the retries of one task by hand, and
  \<open>cleanup_old_tasks\<close> (\<open>v1/tasks.py\<close>), which deletes old attempts.
\<close>

section \<open>Giving up by hand\<close>

definition resolve_task :: "string \<Rightarrow> db \<Rightarrow> string res" where
  "resolve_task task d =
     (if CHR ''.'' \<in> set task then Inr task
      else (case sort (remdups (filter (\<lambda>path. last_part path = task) (map executable_path (attempts d)))) of
        [path] \<Rightarrow> Inr path
      | _ \<Rightarrow> Inl (CommandError ''Task name matches several recorded tasks or none'')))"

text \<open>The rows \<open>handle\<close> filters: the task's attempts in the range of blocks.\<close>

definition in_range :: "string \<Rightarrow> int option \<Rightarrow> int option \<Rightarrow> task_attempt \<Rightarrow> bool" where
  "in_range path from_block to_block r \<longleftrightarrow> executable_path r = path \<and>
     (case from_block of None \<Rightarrow> True | Some b \<Rightarrow> b \<le> block_number r) \<and>
     (case to_block of None \<Rightarrow> True | Some b \<Rightarrow> block_number r \<le> b)"

definition handle_give_up ::
  "ctx \<Rightarrow> string \<Rightarrow> int option \<Rightarrow> int option \<Rightarrow> bool \<Rightarrow> nat action" where
  "handle_give_up x task from_block to_block dry w =
     (case resolve_task task (table w) of
        Inl e \<Rightarrow> (Inl e, w)
      | Inr path \<Rightarrow>
          (case get_by_executable_path path (registry x) of
             None \<Rightarrow> (Inl (CommandError ''not a BlockDumper task''), w)
           | Some item \<Rightarrow>
               if live_queue item = None then (Inl (CommandError ''not a BlockDumper task''), w)
               else if dry
                 then (Inr (count_rows (could_still_run (in_range path from_block to_block)) (table w)), w)
               else (case give_up_by_hand (clk w) (in_range path from_block to_block) (table w) of
                 (n, d) \<Rightarrow> (Inr n, w\<lparr>table := d\<rparr>))))"

text \<open>The command takes one step of the lifecycle.\<close>

lemma handle_give_up_handles: "handles x T (\<lambda>w. snd (handle_give_up x task from_block to_block dry w))"
proof (rule handlesI)
  fix w :: world
  have step: "evolves x T (table w) (snd (give_up_by_hand (clk w) sel (table w)))" for sel
    by (rule evolves_step) (rule attempt_step.by_hand)
  show "evolves x T (table w) (table (snd (handle_give_up x task from_block to_block dry w)))"
    "clk (snd (handle_give_up x task from_block to_block dry w)) = clk w"
    using step by (auto simp: handle_give_up_def give_up_by_hand_def split: sum.splits option.splits)
qed

lemma resolve_task_unique:
  assumes "resolve_task task d = Inr path" "CHR ''.'' \<notin> set task"
  shows "{p \<in> executable_path ` set (attempts d). last_part p = task} = {path}"
proof -
  let ?ps = "remdups (filter (\<lambda>path. last_part path = task) (map executable_path (attempts d)))"
  have "sort ?ps = [path]"
    using assms by (auto simp: resolve_task_def split: list.splits)
  then have "set ?ps = {path}" by (metis empty_set list.simps(15) set_sort)
  then show ?thesis by auto
qed

text \<open>
  C33. Giving up by hand is exact: a run gives up precisely the attempts of the one task it names, in
  the range of blocks it names, that are PENDING or FAILED and not given up; they become FAILED with the
  reason \<open>manual\<close> and no retry ahead. It reports their number, which a dry run reports too. Every other
  attempt, running ones included, is left as it was, and nothing is left to give up.
\<close>

theorem give_up_command_exact:
  assumes "handle_give_up x task from_block to_block False w = (Inr n, w')"
  shows "\<exists>path item. (if CHR ''.'' \<in> set task then path = task
      else {p \<in> executable_path ` set (attempts (table w)). last_part p = task} = {path}) \<and>
    get_by_executable_path path (registry x) = Some item \<and> live_queue item \<noteq> None \<and>
    attempts (table w') = map (\<lambda>r. if in_range path from_block to_block r \<and> (status r = PENDING \<or> status r = FAILED) \<and>
        give_up_reason r = None
      then r\<lparr>status := FAILED, next_retry_at := None, give_up_reason := Some MANUAL, updated_at := py_now (clk w)\<rparr>
      else r) (attempts (table w)) \<and>
    handle_give_up x task from_block to_block True w = (Inr n, w) \<and>
    handle_give_up x task from_block to_block True w' = (Inr 0, w') \<and> sent w' = sent w"
proof -
  obtain path item where res: "resolve_task task (table w) = Inr path"
      "get_by_executable_path path (registry x) = Some item" "live_queue item \<noteq> None"
      "(n, table w') = give_up_by_hand (clk w) (in_range path from_block to_block) (table w)" "w' = w\<lparr>table := table w'\<rparr>"
    using assms by (auto simp: handle_give_up_def split: sum.splits option.splits if_splits prod.splits)
  let ?sel = "could_still_run (in_range path from_block to_block)"
  have n: "n = count_rows ?sel (table w)" and t: "table w' = update_rows ?sel (give_up_write (clk w) MANUAL) (table w)"
    using res(4) by (simp_all add: give_up_by_hand_def)
  have "map executable_path (attempts (table w')) = map executable_path (attempts (table w))"
    unfolding t by (simp add: update_rows_def give_up_write_def)
  then have res': "resolve_task task (table w') = Inr path" using res(1) unfolding resolve_task_def by argo
  have none: "count_rows ?sel (table w') = 0"
    unfolding t by (auto simp: count_rows_def update_rows_def could_still_run_def still_runnable_def in_range_def
        give_up_write_def filter_empty_conv)
  have dry: "handle_give_up x task from_block to_block True w = (Inr n, w)"
    using res(1-3) n by (simp add: handle_give_up_def)
  have dry': "handle_give_up x task from_block to_block True w' = (Inr 0, w')"
    using res' res(2,3) none by (simp add: handle_give_up_def)
  have "sent w' = sent w" by (subst res(5)) simp
  moreover have "if CHR ''.'' \<in> set task then path = task
      else {p \<in> executable_path ` set (attempts (table w)). last_part p = task} = {path}"
    using resolve_task_unique [OF res(1)] res(1) by (auto simp: resolve_task_def)
  moreover have "attempts (table w') = map (\<lambda>r. if in_range path from_block to_block r \<and> (status r = PENDING \<or> status r = FAILED) \<and>
        give_up_reason r = None
      then r\<lparr>status := FAILED, next_retry_at := None, give_up_reason := Some MANUAL, updated_at := py_now (clk w)\<rparr>
      else r) (attempts (table w))"
    unfolding t by (auto simp: update_rows_def could_still_run_def still_runnable_def give_up_write_def)
  ultimately show ?thesis using res(2,3) dry dry' by blast
qed

theorem give_up_command_exact_witness:
  "\<exists>n w'. handle_give_up sample_ctx ''task'' (Some 90) None False
     (sample_world\<lparr>table := \<lparr>attempts = [sample_failed], next_id = 1\<rparr>\<rparr>) = (Inr n, w') \<and>
     handle_give_up sample_ctx ''task'' (Some 90) None True w' = (Inr 0, w')"
proof -
  let ?w = "sample_world\<lparr>table := \<lparr>attempts = [sample_failed], next_id = 1\<rparr>\<rparr>"
  obtain n w' where h: "handle_give_up sample_ctx ''task'' (Some 90) None False ?w = (Inr n, w')"
    by (simp add: handle_give_up_def resolve_task_def sample_failed_def new_attempt_def last_part_def
        sample_ctx_def sample_item_def item_path_def give_up_by_hand_def)
  from give_up_command_exact [OF h] h show ?thesis by blast
qed

section \<open>Deleting old attempts\<close>

text \<open>\<open>cleanup_old_tasks\<close>; the result is the number of deleted rows and the cutoff.\<close>

definition old_finished :: "instant \<Rightarrow> task_attempt \<Rightarrow> bool" where
  "old_finished cutoff r \<longleftrightarrow> (status r = SUCCESS \<or> status r = FAILED) \<and> updated_at r < cutoff"

definition cleanup_old_tasks :: "int \<Rightarrow> world \<Rightarrow> (nat \<times> instant) \<times> world" where
  "cleanup_old_tasks days w =
     (let cutoff = py_now (clk w) - of_int days * 86400;
          (deleted, d) = delete_rows (old_finished cutoff) (table w)
      in ((deleted, cutoff), w\<lparr>table := d\<rparr>))"

lemma db_ok_delete: "db_ok d \<Longrightarrow> db_ok (snd (delete_rows p d))"
  by (auto simp: db_ok_def delete_rows_def distinct_map intro: inj_on_subset)

text \<open>
  C34. What the clean-up deletes: it keeps every PENDING and RUNNING attempt and everything updated
  within the retention time, keeps the constraints of the table, and reports how many rows are gone.
  But it deletes every older FAILED attempt, also one that was not given up and whose retry is ahead.
\<close>

theorem cleanup_deletes_retryable_failures:
  assumes "db_ok (table w)" and "cleanup_old_tasks days w = ((n, cutoff), w')"
  shows "db_ok (table w') \<and> length (attempts (table w)) = length (attempts (table w')) + n \<and>
    (\<forall>r. r \<in> set (attempts (table w')) \<longleftrightarrow> r \<in> set (attempts (table w)) \<and>
      (status r = PENDING \<or> status r = RUNNING \<or> py_now (clk w) - of_int days * 86400 \<le> updated_at r)) \<and>
    (\<forall>r t. r \<in> set (attempts (table w)) \<and> status r = FAILED \<and> give_up_reason r = None \<and> next_retry_at r = Some t \<and>
      py_now (clk w) < t \<and> updated_at r < cutoff \<longrightarrow> r \<notin> set (attempts (table w')))"
proof -
  have c: "cutoff = py_now (clk w) - of_int days * 86400" and t: "table w' = snd (delete_rows (old_finished cutoff) (table w))"
    and n: "n = count_rows (old_finished cutoff) (table w)"
    using assms(2) by (auto simp: cleanup_old_tasks_def delete_rows_def Let_def)
  have rows: "attempts (table w') = filter (\<lambda>r. \<not> old_finished cutoff r) (attempts (table w))"
    by (simp add: t delete_rows_def)
  have "length (attempts (table w)) = length (attempts (table w')) + n"
    unfolding rows n count_rows_def using sum_length_filter_compl [of "old_finished cutoff" "attempts (table w)"] by simp
  moreover have keep: "\<not> old_finished cutoff r \<longleftrightarrow> status r = PENDING \<or> status r = RUNNING \<or> cutoff \<le> updated_at r" for r
    by (cases "status r") (auto simp: old_finished_def)
  moreover have "db_ok (table w')" unfolding t by (rule db_ok_delete [OF assms(1)])
  ultimately show ?thesis by (auto simp: rows c)
qed

theorem cleanup_deletes_retryable_failures_witness:
  "\<exists>n cutoff w'. cleanup_old_tasks 0 (sample_world\<lparr>table := \<lparr>attempts = [sample_failed], next_id = 1\<rparr>,
       clk := sample_clock\<lparr>py_now := 1001\<rparr>\<rparr>) = ((n, cutoff), w') \<and> give_up_reason sample_failed = None \<and>
     next_retry_at sample_failed = Some 1005 \<and> sample_failed \<notin> set (attempts (table w'))"
proof -
  let ?w = "sample_world\<lparr>table := \<lparr>attempts = [sample_failed], next_id = 1\<rparr>, clk := sample_clock\<lparr>py_now := 1001\<rparr>\<rparr>"
  obtain n cutoff w' where c: "cleanup_old_tasks 0 ?w = ((n, cutoff), w')" by (metis surj_pair)
  have "db_ok (table ?w)" by (simp add: db_ok_def sample_failed_def new_attempt_def)
  from cleanup_deletes_retryable_failures [OF this c] c show ?thesis
    by (simp add: sample_failed_def new_attempt_def cleanup_old_tasks_def delete_rows_def) 
qed

end
