(* ===== verification/Broker_Contacts.thy ===== *)
theory Broker_Contacts
  imports Celery_Config
begin

text \<open>
  The contacts with the message broker: RabbitMQ (\<open>_internal/contacts/rabbitmq.py\<close>), the mock for tests
  (\<open>_internal/contacts/mock.py\<close>), and how a contact is chosen and injected (\<open>_internal/contacts/broker.py\<close>).

  Kombu, the AMQP client and the server are outside this repository: an \<open>amqp_server\<close> says what opening a
  connection, declaring a queue and a passive declaration give. A contact object is its class and, for the
  mock, its attributes.
\<close>

section \<open>RabbitMQ\<close>

datatype amqp_error = KombuOperationalError | PreconditionFailed | NotFound | AmqpFailure exn

record amqp_server =
  amqp_connect :: "amqp_error option"
  amqp_declare :: "kombu_queue \<Rightarrow> amqp_error option"
  amqp_passive :: "string \<Rightarrow> amqp_error + (int \<times> int)"

text \<open>An error of the client that no handler of this repository catches.\<close>

fun amqp_exn :: "amqp_error \<Rightarrow> exn" where
  "amqp_exn KombuOperationalError = UserError ''OperationalError''"
| "amqp_exn PreconditionFailed = UserError ''PreconditionFailed''"
| "amqp_exn NotFound = UserError ''NotFound''"
| "amqp_exn (AmqpFailure e) = e"

definition rabbitmq_connection :: "amqp_server \<Rightarrow> app \<Rightarrow> unit res" where
  "rabbitmq_connection srv a =
     (case amqp_connect srv of
        None \<Rightarrow> Inr ()
      | Some KombuOperationalError \<Rightarrow> Inl (BrokerUnreachableError (app_name a))
      | Some e \<Rightarrow> Inl (amqp_exn e))"

definition rabbitmq_declare_queue :: "amqp_server \<Rightarrow> app \<Rightarrow> kombu_queue \<Rightarrow> unit res" where
  "rabbitmq_declare_queue srv a k =
     (case rabbitmq_connection srv a of
        Inl e \<Rightarrow> Inl e
      | Inr _ \<Rightarrow>
          (case amqp_declare srv k of
             None \<Rightarrow> Inr ()
           | Some PreconditionFailed \<Rightarrow> Inl (QueueArgumentsMismatchError (kq_name k))
           | Some e \<Rightarrow> Inl (amqp_exn e)))"

definition passive_queue_stats :: "amqp_server \<Rightarrow> string \<Rightarrow> (int \<times> int) res" where
  "passive_queue_stats srv name =
     (case amqp_passive srv name of
        Inr (messages, consumers) \<Rightarrow> Inr (messages, consumers)
      | Inl NotFound \<Rightarrow> Inr (0, 0)
      | Inl e \<Rightarrow> Inl (amqp_exn e))"

text \<open>The dictionary comprehension; the first error ends it.\<close>

fun stats_comprehension ::
  "(string \<Rightarrow> (int \<times> int) res) \<Rightarrow> string list \<Rightarrow> (string, int \<times> int) dict \<Rightarrow> (string, int \<times> int) dict res" where
  "stats_comprehension f [] acc = Inr acc"
| "stats_comprehension f (n # ns) acc =
     (case f n of Inl e \<Rightarrow> Inl e | Inr s \<Rightarrow> stats_comprehension f ns (AList.update n s acc))"

definition rabbitmq_queue_stats :: "amqp_server \<Rightarrow> app \<Rightarrow> string list \<Rightarrow> (string, int \<times> int) dict res" where
  "rabbitmq_queue_stats srv a names =
     (case rabbitmq_connection srv a of
        Inl e \<Rightarrow> Inl e
      | Inr _ \<Rightarrow> stats_comprehension (passive_queue_stats srv) names [])"

section \<open>The mock\<close>

record broker_call =
  call_operation :: string
  call_queues :: "string list"
  call_arguments :: "(string, pyval) dict"

record mock_contact =
  mismatches :: "(string, string) dict"
  mock_stats :: "(string, int \<times> int) dict"
  unreachable :: bool
  calls :: "broker_call list"
  declared :: "(string, kombu_queue) dict"

definition mock_contact_new :: "(string, string) dict option \<Rightarrow> (string, int \<times> int) dict option \<Rightarrow> bool \<Rightarrow> mock_contact" where
  "mock_contact_new mism sts unreach =
     \<lparr>mismatches = (case mism of None \<Rightarrow> [] | Some d \<Rightarrow> d), mock_stats = (case sts of None \<Rightarrow> [] | Some d \<Rightarrow> d),
      unreachable = unreach, calls = [], declared = []\<rparr>"

definition record_call :: "string \<Rightarrow> string list \<Rightarrow> (string, pyval) dict \<Rightarrow> mock_contact \<Rightarrow> mock_contact" where
  "record_call operation names args m =
     m\<lparr>calls := calls m @ [\<lparr>call_operation = operation, call_queues = names, call_arguments = args\<rparr>]\<rparr>"

definition mock_connect :: "app \<Rightarrow> mock_contact \<Rightarrow> unit res" where
  "mock_connect a m = (if unreachable m then Inl (BrokerUnreachableError (app_name a)) else Inr ())"

definition mock_queue_definition :: "derivation \<Rightarrow> app \<Rightarrow> queue \<Rightarrow> mock_contact \<Rightarrow> kombu_queue \<times> mock_contact" where
  "mock_queue_definition derive a q m =
     (let k = celery_definition a (q_name q) (rabbitmq_queue_arguments q)
      in (k, record_call ''queue_definition'' [q_name q] (declared_arguments derive k) m))"

definition mock_declare_queue :: "derivation \<Rightarrow> app \<Rightarrow> kombu_queue \<Rightarrow> mock_contact \<Rightarrow> unit res \<times> mock_contact" where
  "mock_declare_queue derive a k m =
     (let m1 = record_call ''declare_queue'' [kq_name k] (declared_arguments derive k) m
      in case mock_connect a m1 of
           Inl e \<Rightarrow> (Inl e, m1)
         | Inr _ \<Rightarrow>
             if map_of (mismatches m1) (kq_name k) \<noteq> None then (Inl (QueueArgumentsMismatchError (kq_name k)), m1)
             else (Inr (), m1\<lparr>declared := AList.update (kq_name k) k (declared m1)\<rparr>))"

definition mock_queue_stats :: "app \<Rightarrow> string list \<Rightarrow> mock_contact \<Rightarrow> (string, int \<times> int) dict res \<times> mock_contact" where
  "mock_queue_stats a names m =
     (let m1 = record_call ''queue_stats'' names [] m
      in case mock_connect a m1 of
           Inl e \<Rightarrow> (Inl e, m1)
         | Inr _ \<Rightarrow>
             (stats_comprehension (\<lambda>n. Inr (case map_of (mock_stats m1) n of Some s \<Rightarrow> s | None \<Rightarrow> (0, 0))) names [], m1))"

definition mock_reset :: "mock_contact \<Rightarrow> mock_contact" where
  "mock_reset m = m\<lparr>mismatches := [], mock_stats := [], unreachable := False, calls := [], declared := []\<rparr>"

section \<open>Contacts as one interface\<close>

datatype contact = RabbitMQContact | MockBrokerContact mock_contact

text \<open>The methods of \<open>BrokerContact\<close> on an object of either class.\<close>

fun contact_queue_definition :: "derivation \<Rightarrow> app \<Rightarrow> queue \<Rightarrow> contact \<Rightarrow> kombu_queue \<times> contact" where
  "contact_queue_definition derive a q RabbitMQContact = (queue_definition a q, RabbitMQContact)"
| "contact_queue_definition derive a q (MockBrokerContact m) = map_prod id MockBrokerContact (mock_queue_definition derive a q m)"

fun contact_declare_queue :: "derivation \<Rightarrow> amqp_server \<Rightarrow> app \<Rightarrow> kombu_queue \<Rightarrow> contact \<Rightarrow> unit res \<times> contact" where
  "contact_declare_queue derive srv a k RabbitMQContact = (rabbitmq_declare_queue srv a k, RabbitMQContact)"
| "contact_declare_queue derive srv a k (MockBrokerContact m) = map_prod id MockBrokerContact (mock_declare_queue derive a k m)"

fun contact_queue_stats :: "amqp_server \<Rightarrow> app \<Rightarrow> string list \<Rightarrow> contact \<Rightarrow> (string, int \<times> int) dict res \<times> contact" where
  "contact_queue_stats srv a names RabbitMQContact = (rabbitmq_queue_stats srv a names, RabbitMQContact)"
| "contact_queue_stats srv a names (MockBrokerContact m) = map_prod id MockBrokerContact (mock_queue_stats a names m)"

section \<open>Choosing a contact\<close>

type_synonym injected_contacts = "(nat, contact) dict"

text \<open>\<open>broker_contact_factory\<close> with the injected contacts: a contact for the app \<open>i\<close>.\<close>

definition contact_factory :: "injected_contacts \<Rightarrow> apps \<Rightarrow> nat \<Rightarrow> contact res" where
  "contact_factory injected as i =
     (case map_of injected i of
        Some c \<Rightarrow> Inr c
      | None \<Rightarrow>
          if app_driver (as i) = ''amqp'' then Inr RabbitMQContact
          else if app_driver (as i) = ''memory'' then Inr (MockBrokerContact (mock_contact_new None None False))
          else Inl (UnsupportedBrokerError (app_name (as i))))"

text \<open>
  \<open>broker_contact_factory(app).queue_stats(names)\<close>: the statistics of some queues of an app, as its contact,
  injected or not, reports them.
\<close>

type_synonym broker_stats = "nat \<Rightarrow> string list \<Rightarrow> (string, int \<times> int) dict res"

definition contact_stats :: "(nat \<Rightarrow> amqp_server) \<Rightarrow> injected_contacts \<Rightarrow> apps \<Rightarrow> broker_stats" where
  "contact_stats servers injected as i names =
     (case contact_factory injected as i of
        Inl e \<Rightarrow> Inl e | Inr c \<Rightarrow> fst (contact_queue_stats (servers i) (as i) names c))"

text \<open>
  The \<open>with\<close> block of \<open>use_broker_contact\<close>. The body returns or raises, and may inject further contacts;
  \<open>del\<close> of a missing key is a \<open>KeyError\<close>.
\<close>

definition use_broker_contact ::
  "nat \<Rightarrow> contact \<Rightarrow> (injected_contacts \<Rightarrow> 'a res \<times> injected_contacts) \<Rightarrow> injected_contacts \<Rightarrow> 'a res \<times> injected_contacts" where
  "use_broker_contact i c body injected =
     (let previous = map_of injected i
      in case body (AList.update i c injected) of
           (r, found) \<Rightarrow>
             (case previous of
                None \<Rightarrow> if map_of found i = None then (Inl (UserError ''KeyError''), found) else (r, AList.delete i found)
              | Some p \<Rightarrow> (r, AList.update i p found)))"

text \<open>Without injected contacts the factory is the one the installation is modelled with.\<close>

lemma contact_factory_plain:
  "(\<exists>c. contact_factory [] as i = Inr c) \<longleftrightarrow> broker_contact_factory (as i) = Inr ()"
  "contact_factory [] as i = Inl e \<longleftrightarrow> broker_contact_factory (as i) = Inl e"
  by (auto simp: contact_factory_def broker_contact_factory_def)

section \<open>Injection is scoped\<close>

text \<open>A body that leaves the injected contacts as it found them, whether it returns or raises.\<close>

definition scoped :: "(injected_contacts \<Rightarrow> 'a res \<times> injected_contacts) \<Rightarrow> bool" where
  "scoped body \<longleftrightarrow> (\<forall>injected. map_of (snd (body injected)) = map_of injected)"

lemma scoped_pure [simp]: "scoped (\<lambda>injected. (f injected, injected))"
  by (simp add: scoped_def)

lemma scoped_seq:
  "scoped b \<Longrightarrow> (\<And>v. scoped (c v)) \<Longrightarrow>
   scoped (\<lambda>injected. case b injected of (Inl e, found) \<Rightarrow> (Inl e, found) | (Inr v, found) \<Rightarrow> c v found)"
  by (auto simp: scoped_def split: prod.splits sum.splits) (metis snd_conv)+

text \<open>
  An injected contact is used inside its block only: for a body that leaves the contacts as it found
  them (reading a contact, any nesting and sequence of such blocks, an exception anywhere), the block
  returns or raises what the body does with the contact injected, every app has afterwards the contact
  it had before, and inside the block the factory gives the injected contact for its app, whatever the
  transport, and for every other app what it gave outside.
\<close>

theorem injection_is_scoped:
  assumes "scoped body"
  shows "scoped (use_broker_contact i c body) \<and>
    fst (use_broker_contact i c body injected) = fst (body (AList.update i c injected)) \<and>
    contact_factory (AList.update i c injected) as i = Inr c \<and>
    (\<forall>j. j \<noteq> i \<longrightarrow> contact_factory (AList.update i c injected) as j = contact_factory injected as j) \<and>
    (\<forall>j. contact_factory (snd (use_broker_contact i c body injected)) as j = contact_factory injected as j)"
proof -
  have body: "map_of (snd (body (AList.update i c env))) = (map_of env)(i \<mapsto> c)" for env
    using assms by (simp add: scoped_def update_conv')
  have one: "map_of (snd (use_broker_contact i c body env)) = map_of env \<and>
      fst (use_broker_contact i c body env) = fst (body (AList.update i c env))" for env
    using body [of env]
    by (cases "body (AList.update i c env)"; cases "map_of env i")
      (auto simp: use_broker_contact_def update_conv' delete_conv' fun_eq_iff)
  then have "contact_factory (snd (use_broker_contact i c body injected)) as j = contact_factory injected as j" for j
    by (simp add: contact_factory_def)
  then show ?thesis using one by (simp add: scoped_def contact_factory_def update_conv')
qed

definition sample_mock :: mock_contact where
  "sample_mock = mock_contact_new (Some [(''archive'', ''x-message-ttl'')]) (Some [(''live'', (3, 1))]) False"

theorem injection_is_scoped_witness:
  "scoped (use_broker_contact 0 (MockBrokerContact sample_mock)
     (use_broker_contact 0 RabbitMQContact (\<lambda>injected. (contact_factory injected (\<lambda>_. sample_app) 0, injected)))) \<and>
   fst (use_broker_contact 0 (MockBrokerContact sample_mock)
     (use_broker_contact 0 RabbitMQContact (\<lambda>injected. (contact_factory injected (\<lambda>_. sample_app) 0, injected))) []) = Inr RabbitMQContact"
proof -
  let ?read = "\<lambda>injected. (contact_factory injected (\<lambda>_. sample_app) 0, injected)"
  note inner = injection_is_scoped [OF scoped_pure [of "\<lambda>injected. contact_factory injected (\<lambda>_. sample_app) 0"], of 0 RabbitMQContact]
  from injection_is_scoped [of "use_broker_contact 0 RabbitMQContact ?read" 0 "MockBrokerContact sample_mock"] inner
  show ?thesis by (simp add: contact_factory_def update_conv')
qed

section \<open>The mock stands in for RabbitMQ\<close>

interpretation mock: broker_contact "\<lambda>q. fst (mock_queue_definition derive a q m)"
  by unfold_locales (simp add: mock_queue_definition_def celery_definition_def Let_def)

datatype broker_op = DefineQueue queue | DeclareQueue kombu_queue | ReadStats "string list"

datatype broker_answer = Definition kombu_queue | Declaration "unit res" | Stats "(string, int \<times> int) dict res"

fun contact_op :: "derivation \<Rightarrow> amqp_server \<Rightarrow> app \<Rightarrow> broker_op \<Rightarrow> contact \<Rightarrow> broker_answer \<times> contact" where
  "contact_op derive srv a (DefineQueue q) c = map_prod Definition id (contact_queue_definition derive a q c)"
| "contact_op derive srv a (DeclareQueue k) c = map_prod Declaration id (contact_declare_queue derive srv a k c)"
| "contact_op derive srv a (ReadStats names) c = map_prod Stats id (contact_queue_stats srv a names c)"

fun contact_ops :: "derivation \<Rightarrow> amqp_server \<Rightarrow> app \<Rightarrow> broker_op list \<Rightarrow> contact \<Rightarrow> broker_answer list \<times> contact" where
  "contact_ops derive srv a [] c = ([], c)"
| "contact_ops derive srv a (op # ops) c =
     (case contact_op derive srv a op c of (ans, c') \<Rightarrow>
        (case contact_ops derive srv a ops c' of (answers, c'') \<Rightarrow> (ans # answers, c'')))"

text \<open>The record the mock keeps of a call.\<close>

fun call_of :: "derivation \<Rightarrow> app \<Rightarrow> broker_op \<Rightarrow> broker_call" where
  "call_of derive a (DefineQueue q) = \<lparr>call_operation = ''queue_definition'', call_queues = [q_name q],
     call_arguments = declared_arguments derive (queue_definition a q)\<rparr>"
| "call_of derive a (DeclareQueue k) = \<lparr>call_operation = ''declare_queue'', call_queues = [kq_name k],
     call_arguments = declared_arguments derive k\<rparr>"
| "call_of derive a (ReadStats names) = \<lparr>call_operation = ''queue_stats'', call_queues = names, call_arguments = []\<rparr>"

text \<open>A mock told what a server does.\<close>

definition mirrors :: "mock_contact \<Rightarrow> amqp_server \<Rightarrow> bool" where
  "mirrors m srv \<longleftrightarrow> amqp_connect srv = (if unreachable m then Some KombuOperationalError else None) \<and>
     (\<forall>k. amqp_declare srv k = (if map_of (mismatches m) (kq_name k) = None then None else Some PreconditionFailed)) \<and>
     (\<forall>n. amqp_passive srv n = (case map_of (mock_stats m) n of None \<Rightarrow> Inl NotFound | Some s \<Rightarrow> Inr s))"

lemmas contact_defs = rabbitmq_connection_def rabbitmq_declare_queue_def rabbitmq_queue_stats_def mock_connect_def
  mock_declare_queue_def mock_queue_stats_def mock_queue_definition_def record_call_def Let_def

lemma mirrored_stats:
  "mirrors m srv \<Longrightarrow> passive_queue_stats srv = (\<lambda>n. Inr (case map_of (mock_stats m) n of Some s \<Rightarrow> s | None \<Rightarrow> (0, 0)))"
  by (auto simp: mirrors_def passive_queue_stats_def fun_eq_iff split: option.splits)

lemma mirrored_op:
  assumes "mirrors m srv" "contact_op derive srv a op (MockBrokerContact m) = (ans, c)"
  obtains m' where "c = MockBrokerContact m'" "mirrors m' srv" "fst (contact_op derive srv a op RabbitMQContact) = ans"
    "calls m' = calls m @ [call_of derive a op]"
    "declared m' = (case op of DeclareQueue k \<Rightarrow>
       if rabbitmq_declare_queue srv a k = Inr () then AList.update (kq_name k) k (declared m) else declared m | _ \<Rightarrow> declared m)"
proof (cases op)
  case (DefineQueue q)
  then show ?thesis using assms that by (auto simp: contact_defs queue_definition_def mirrors_def)
next
  case (DeclareQueue k)
  then show ?thesis using assms that by (auto simp: contact_defs mirrors_def split: if_splits)
next
  case (ReadStats names)
  have "mock_stats (record_call operation names' args m) = mock_stats m" for operation names' args by (simp add: record_call_def)
  then show ?thesis
    using ReadStats assms that mirrored_stats [OF assms(1)]
    by (cases "unreachable m") (auto simp: contact_defs mirrors_def)
qed

text \<open>
  C17. The mock stands in for RabbitMQ: told which queues mismatch, what the queues hold and whether the
  broker is unreachable, it answers every sequence of definitions, declarations and readings of
  statistics exactly as the RabbitMQ contact does against a server that behaves so. It records every
  call in order, and \<open>declared\<close> holds a queue just when the server accepted one of that name.
\<close>

theorem mock_stands_in_for_rabbitmq:
  assumes "mirrors m srv" and "contact_ops derive srv a ops (MockBrokerContact m) = (answers, c)"
  shows "fst (contact_ops derive srv a ops RabbitMQContact) = answers \<and>
    (\<exists>m'. c = MockBrokerContact m' \<and> calls m' = calls m @ map (call_of derive a) ops \<and>
      (\<forall>n. map_of (declared m') n \<noteq> None \<longleftrightarrow> map_of (declared m) n \<noteq> None \<or>
        (\<exists>k. DeclareQueue k \<in> set ops \<and> kq_name k = n \<and> rabbitmq_declare_queue srv a k = Inr ())))"
  using assms
proof (induction ops arbitrary: m answers c)
  case (Cons op ops)
  obtain ans c1 where one: "contact_op derive srv a op (MockBrokerContact m) = (ans, c1)" by fastforce
  obtain m1 where m1: "c1 = MockBrokerContact m1" "mirrors m1 srv" "fst (contact_op derive srv a op RabbitMQContact) = ans"
    "calls m1 = calls m @ [call_of derive a op]"
    "declared m1 = (case op of DeclareQueue k \<Rightarrow>
       if rabbitmq_declare_queue srv a k = Inr () then AList.update (kq_name k) k (declared m) else declared m | _ \<Rightarrow> declared m)"
    by (rule mirrored_op [OF Cons.prems(1) one])
  obtain rest where rest: "contact_ops derive srv a ops (MockBrokerContact m1) = (rest, c)" "answers = ans # rest"
    using Cons.prems(2) one m1(1) by (auto split: prod.splits)
  note IH = Cons.IH [OF m1(2) rest(1)]
  have "snd (contact_op derive srv a op RabbitMQContact) = RabbitMQContact" by (cases op) simp_all
  then have "fst (contact_ops derive srv a (op # ops) RabbitMQContact) = answers"
    using IH m1(3) rest(2) by (auto split: prod.splits)
  moreover have "map_of (declared m1) n \<noteq> None \<longleftrightarrow> map_of (declared m) n \<noteq> None \<or>
      (\<exists>k. op = DeclareQueue k \<and> kq_name k = n \<and> rabbitmq_declare_queue srv a k = Inr ())" for n
    using m1(5) by (cases op) (auto simp: update_conv')
  ultimately show ?case using IH m1(4) by auto
qed simp

definition sample_server :: amqp_server where
  "sample_server = \<lparr>amqp_connect = None, amqp_declare = (\<lambda>k. if kq_name k = ''archive'' then Some PreconditionFailed else None),
     amqp_passive = (\<lambda>n. if n = ''live'' then Inr (3, 1) else Inl NotFound)\<rparr>"

theorem mock_stands_in_for_rabbitmq_witness:
  "\<exists>c. contact_ops (\<lambda>args _. args) sample_server sample_app [ReadStats [''live'', ''old'']] (MockBrokerContact sample_mock) =
     ([Stats (Inr [(''live'', (3, 1)), (''old'', (0, 0))])], c) \<and>
   fst (contact_ops (\<lambda>args _. args) sample_server sample_app [ReadStats [''live'', ''old'']] RabbitMQContact) =
     [Stats (Inr [(''live'', (3, 1)), (''old'', (0, 0))])]"
proof -
  have "mirrors sample_mock sample_server"
    by (simp add: mirrors_def sample_mock_def sample_server_def mock_contact_new_def)
  moreover have "\<exists>c. contact_ops (\<lambda>args _. args) sample_server sample_app [ReadStats [''live'', ''old'']] (MockBrokerContact sample_mock) =
     ([Stats (Inr [(''live'', (3, 1)), (''old'', (0, 0))])], c)"
    by (simp add: contact_defs sample_mock_def mock_contact_new_def)
  ultimately show ?thesis using mock_stands_in_for_rabbitmq by blast
qed

text \<open>A reset mock is a new one.\<close>

lemma mock_reset_new: "mock_reset m = mock_contact_new None None False"
  by (simp add: mock_reset_def mock_contact_new_def)

end
