(* ===== verification/Chain_Client.thy ===== *)
theory Chain_Client
  imports Queue_Executor
begin

text \<open>
  The connections to the chain (\<open>_internal/providers/bittensor_client.py\<close>): which ones are open, which
  block a read returns, how long it takes, and what a failed read leaves behind.

  \<open>bittensor\<close> and \<open>asyncio\<close> are outside this repository. \<open>net\<close> is what the network answers during one
  call and after how many seconds: opening a client, reading the head, connecting the raw RPC, the hash of the
  finalized head and the number of a block over it, closing it. Errors while a subtensor is closed are logged
  and dropped, so they have no effect here.
\<close>

record net =
  opens :: "string \<Rightarrow> seconds \<times> unit res"
  head_block :: "seconds \<times> int res"
  rpc_connects :: "seconds \<times> unit res"
  finalised_head :: "seconds \<times> string res"
  block_number_of :: "string \<Rightarrow> seconds \<times> int res"
  rpc_closes :: "seconds \<times> unit res"

text \<open>An event loop is missing, usable or closed.\<close>

datatype event_loop = NoLoop | OpenLoop | ClosedLoop

record client =
  network :: string
  rpc_timeout :: seconds
  subtensor_open :: bool
  archive_open :: bool
  current_block_cache :: "int option"
  rpc_open :: bool
  rpc_loop :: event_loop

definition DEFAULT_RPC_TIMEOUT_SECONDS :: seconds where
  "DEFAULT_RPC_TIMEOUT_SECONDS = 30"

definition client_new :: "string \<Rightarrow> seconds option \<Rightarrow> client" where
  "client_new name timeout = \<lparr>network = name,
     rpc_timeout = (case timeout of None \<Rightarrow> DEFAULT_RPC_TIMEOUT_SECONDS | Some t \<Rightarrow> t),
     subtensor_open = False, archive_open = False, current_block_cache = None, rpc_open = False, rpc_loop = NoLoop\<rparr>"

text \<open>A call returns or raises, after some time, and leaves the client.\<close>

type_synonym 'a call = "client \<Rightarrow> 'a res \<times> seconds \<times> client"

definition and_then :: "'a call \<Rightarrow> ('a \<Rightarrow> 'b call) \<Rightarrow> 'b call" where
  "and_then f g c = (case f c of
     (Inl e, t, c1) \<Rightarrow> (Inl e, t, c1)
   | (Inr a, t, c1) \<Rightarrow> (case g a c1 of (r, u, c2) \<Rightarrow> (r, t + u, c2)))"

section \<open>Connections\<close>

text \<open>The properties \<open>subtensor\<close> and \<open>archive_subtensor\<close>, which open on first use.\<close>

definition subtensor :: "net \<Rightarrow> unit call" where
  "subtensor n c =
     (if subtensor_open c then (Inr (), 0, c)
      else (case opens n (network c) of
         (t, Inl e) \<Rightarrow> (Inl e, t, c) | (t, Inr _) \<Rightarrow> (Inr (), t, c\<lparr>subtensor_open := True\<rparr>)))"

definition archive_subtensor :: "net \<Rightarrow> unit call" where
  "archive_subtensor n c =
     (if archive_open c then (Inr (), 0, c)
      else (case opens n ''archive'' of
         (t, Inl e) \<Rightarrow> (Inl e, t, c) | (t, Inr _) \<Rightarrow> (Inr (), t, c\<lparr>archive_open := True\<rparr>)))"

definition set_subtensor :: "bool \<Rightarrow> client \<Rightarrow> client" where
  "set_subtensor given c = c\<lparr>subtensor_open := given\<rparr>"

definition set_archive_subtensor :: "bool \<Rightarrow> client \<Rightarrow> client" where
  "set_archive_subtensor given c = c\<lparr>archive_open := given\<rparr>"

text \<open>\<open>self.subtensor.block\<close>.\<close>

definition subtensor_block :: "net \<Rightarrow> int call" where
  "subtensor_block n = and_then (subtensor n) (\<lambda>_ c. case head_block n of (t, r) \<Rightarrow> (r, t, c))"

section \<open>Calls on the event loop\<close>

text \<open>
  A coroutine under \<open>asyncio.wait_for\<close> knows how many seconds are left. What it awaits is cancelled when they
  are used up; what it runs without awaiting is not, and only counts. \<open>Inl\<close> ends the coroutine.
\<close>

type_synonym 'a coroutine = "seconds \<Rightarrow> 'a call"

definition awaiting :: "seconds \<times> 'a res \<Rightarrow> 'a coroutine" where
  "awaiting answer left c =
     (case answer of (t, r) \<Rightarrow> if t > left then (Inl TimeoutError, max 0 left, c) else (r, t, c))"

definition and_await :: "'a coroutine \<Rightarrow> ('a \<Rightarrow> 'b coroutine) \<Rightarrow> 'b coroutine" where
  "and_await f g left c = (case f left c of
     (Inl e, t, c1) \<Rightarrow> (Inl e, t, c1)
   | (Inr a, t, c1) \<Rightarrow> (case g a (left - t) c1 of (r, u, c2) \<Rightarrow> (r, t + u, c2)))"

definition connected_rpc_substrate :: "net \<Rightarrow> unit coroutine" where
  "connected_rpc_substrate n left c =
     (if rpc_open c then (Inr (), 0, c)
      else and_await (\<lambda>_. subtensor n)
        (\<lambda>_. and_await (awaiting (rpc_connects n)) (\<lambda>_ _ c. (Inr (), 0, c\<lparr>rpc_open := True\<rparr>))) left c)"

definition read_finalized_block_number :: "net \<Rightarrow> int coroutine" where
  "read_finalized_block_number n =
     and_await (connected_rpc_substrate n)
       (\<lambda>_. and_await (awaiting (finalised_head n)) (\<lambda>block_hash. awaiting (block_number_of n block_hash)))"

definition run_rpc :: "'a coroutine \<Rightarrow> 'a call" where
  "run_rpc coro c =
     (let c1 = (if rpc_loop c = OpenLoop then c else c\<lparr>rpc_loop := OpenLoop\<rparr>) in coro (rpc_timeout c1) c1)"

text \<open>\<open>_close_rpc_substrate\<close> runs the close on the event loop and drops what it raises.\<close>

definition close_rpc_substrate :: "net \<Rightarrow> unit call" where
  "close_rpc_substrate n c =
     (if \<not> rpc_open c then (Inr (), 0, c)
      else (case run_rpc (awaiting (rpc_closes n)) c of (_, t, c1) \<Rightarrow> (Inr (), t, c1\<lparr>rpc_open := False\<rparr>)))"

definition get_block :: "net \<Rightarrow> bool \<Rightarrow> int call" where
  "get_block n fin c =
     (if \<not> fin then subtensor_block n c
      else (case run_rpc (read_finalized_block_number n) c of
         (Inr b, t, c1) \<Rightarrow> (Inr b, t, c1)
       | (Inl e, t, c1) \<Rightarrow> (case close_rpc_substrate n c1 of (_, u, c2) \<Rightarrow> (Inl e, t + u, c2))))"

section \<open>The client\<close>

definition close_client :: "net \<Rightarrow> client \<Rightarrow> client" where
  "close_client n c =
     (let c1 = snd (snd (close_rpc_substrate n c));
          c2 = (if rpc_loop c1 \<noteq> NoLoop then c1\<lparr>rpc_loop := NoLoop\<rparr> else c1);
          c3 = (if subtensor_open c2 then c2\<lparr>subtensor_open := False\<rparr> else c2);
          c4 = (if archive_open c3 then c3\<lparr>archive_open := False\<rparr> else c3)
      in c4\<lparr>current_block_cache := None\<rparr>)"

text \<open>The context manager: \<open>__exit__\<close> closes and lets exceptions through.\<close>

definition client_enter :: "client \<Rightarrow> client" where
  "client_enter c = c"

definition client_exit :: "net \<Rightarrow> client \<Rightarrow> client" where
  "client_exit n c = close_client n c"

definition with_client :: "net \<Rightarrow> 'a call \<Rightarrow> client \<Rightarrow> 'a res \<times> client" where
  "with_client n block c = (case block (client_enter c) of (r, _, c1) \<Rightarrow> (r, client_exit n c1))"

definition refresh_connections :: "net \<Rightarrow> client \<Rightarrow> client" where
  "refresh_connections n c = close_client n c"

definition get_for_block :: "int \<Rightarrow> unit call" where
  "get_for_block block c = (Inl NotImplementedError, 0, c)"

text \<open>\<open>get_subtensor_for_block\<close>: True is the archive network.\<close>

definition get_subtensor_for_block :: "net \<Rightarrow> int \<Rightarrow> bool call" where
  "get_subtensor_for_block n block =
     and_then
       (\<lambda>c. case current_block_cache c of
          Some h \<Rightarrow> (Inr h, 0, c)
        | None \<Rightarrow> and_then (subtensor_block n) (\<lambda>h c. (Inr h, 0, c\<lparr>current_block_cache := Some h\<rparr>)) c)
       (\<lambda>h. if h - block > ARCHIVE_BLOCK_THRESHOLD
          then and_then (archive_subtensor n) (\<lambda>_ c. (Inr True, 0, c))
          else and_then (subtensor n) (\<lambda>_ c. (Inr False, 0, c)))"

section \<open>Facts\<close>

lemmas call_defs = and_then_def and_await_def awaiting_def subtensor_def archive_subtensor_def subtensor_block_def
  connected_rpc_substrate_def read_finalized_block_number_def run_rpc_def close_rpc_substrate_def get_block_def

text \<open>Answers take no negative time.\<close>

definition net_ok :: "net \<Rightarrow> bool" where
  "net_ok n \<longleftrightarrow> (\<forall>name. 0 \<le> fst (opens n name)) \<and> 0 \<le> fst (head_block n) \<and> 0 \<le> fst (rpc_connects n) \<and>
     0 \<le> fst (finalised_head n) \<and> (\<forall>h. 0 \<le> fst (block_number_of n h)) \<and> 0 \<le> fst (rpc_closes n)"

text \<open>
  What a coroutine promises under \<open>wait_for\<close>: it keeps the settings and the loop, and it does not outlast the
  seconds left by more than the \<open>sync\<close> seconds it spends without awaiting.
\<close>

definition timely :: "(client \<Rightarrow> seconds) \<Rightarrow> 'a coroutine \<Rightarrow> bool" where
  "timely sync f \<longleftrightarrow> (\<forall>left c r t c'. f left c = (r, t, c') \<longrightarrow>
     network c' = network c \<and> rpc_timeout c' = rpc_timeout c \<and> rpc_loop c' = rpc_loop c \<and>
     0 \<le> sync c \<and> 0 \<le> t \<and> t \<le> sync c + max 0 left)"

lemma timelyD:
  assumes "timely sync f" "f left c = (r, t, c')"
  shows "network c' = network c" "rpc_timeout c' = rpc_timeout c" "rpc_loop c' = rpc_loop c"
    "0 \<le> t" "t \<le> sync c + max 0 left" "0 \<le> sync c"
  using assms unfolding timely_def by blast+

lemma timely_awaiting: "0 \<le> fst answer \<Longrightarrow> timely (\<lambda>_. 0) (awaiting answer)"
  by (auto simp: timely_def awaiting_def split: prod.splits if_splits)

lemma timely_and_await:
  assumes f: "timely sync f" and g: "\<And>a. timely (\<lambda>_. 0) (g a)"
  shows "timely sync (and_await f g)"
  unfolding timely_def
proof (intro allI impI)
  fix left c r t c' assume eq: "and_await f g left c = (r, t, c')"
  obtain v t1 c1 where v: "f left c = (v, t1, c1)" by (metis prod.exhaust)
  note one = timelyD [OF f v]
  show "network c' = network c \<and> rpc_timeout c' = rpc_timeout c \<and> rpc_loop c' = rpc_loop c \<and>
      0 \<le> sync c \<and> 0 \<le> t \<and> t \<le> sync c + max 0 left"
  proof (cases v)
    case (Inl e)
    then show ?thesis using eq v one by (simp add: and_await_def)
  next
    case (Inr a)
    obtain u c2 where u: "g a (left - t1) c1 = (r, u, c2)" "c' = c2" "t = t1 + u"
      using eq v Inr by (auto simp: and_await_def split: prod.splits)
    note two = timelyD [OF g u(1)]
    have "t \<le> sync c + max 0 left" using one(4-6) two(5) u(3) by (auto simp: max_def split: if_splits)
    then show ?thesis using one two u by simp
  qed
qed

text \<open>The time the connection to the regular network takes when a finalized read has to open it first.\<close>

definition open_time :: "net \<Rightarrow> client \<Rightarrow> seconds" where
  "open_time n c = (if rpc_open c \<or> subtensor_open c then 0 else fst (opens n (network c)))"

lemma timely_connected: "net_ok n \<Longrightarrow> timely (open_time n) (connected_rpc_substrate n)"
proof -
  assume ok: "net_ok n"
  let ?open = "\<lambda>c. if subtensor_open c then 0 else fst (opens n (network c))"
  have nn: "0 \<le> fst (opens n name)" for name using ok by (simp add: net_ok_def)
  have "timely ?open (\<lambda>_. subtensor n)"
    unfolding timely_def subtensor_def
    using nn by (auto split: if_splits prod.splits sum.splits intro: add_nonneg_nonneg) (metis fst_conv nn)+
  moreover have "timely (\<lambda>_. 0) (and_await (awaiting (rpc_connects n)) (\<lambda>_ _ c. (Inr (), 0, c\<lparr>rpc_open := True\<rparr>)))"
    using ok by (intro timely_and_await timely_awaiting) (simp_all add: net_ok_def timely_def)
  ultimately have open_first: "timely ?open (and_await (\<lambda>_. subtensor n)
      (\<lambda>_. and_await (awaiting (rpc_connects n)) (\<lambda>_ _ c. (Inr (), 0, c\<lparr>rpc_open := True\<rparr>))))"
    by (rule timely_and_await)
  show ?thesis
    unfolding timely_def
  proof (intro allI impI)
    fix left c r t c' assume "connected_rpc_substrate n left c = (r, t, c')"
    then show "network c' = network c \<and> rpc_timeout c' = rpc_timeout c \<and> rpc_loop c' = rpc_loop c \<and>
        0 \<le> open_time n c \<and> 0 \<le> t \<and> t \<le> open_time n c + max 0 left"
      using timelyD [OF open_first, of left c r t c']
      nn by (auto simp: connected_rpc_substrate_def open_time_def split: if_splits)
  qed
qed

lemma timely_read: "net_ok n \<Longrightarrow> timely (open_time n) (read_finalized_block_number n)"
  unfolding read_finalized_block_number_def
  by (intro timely_and_await timely_connected timely_awaiting) (simp_all add: net_ok_def)

lemma close_rpc_bounded:
  assumes "net_ok n" "0 \<le> rpc_timeout c" "close_rpc_substrate n c = (r, t, c')"
  shows "t \<le> rpc_timeout c \<and> \<not> rpc_open c' \<and> network c' = network c \<and> rpc_timeout c' = rpc_timeout c"
  using assms by (auto simp: close_rpc_substrate_def run_rpc_def awaiting_def Let_def split: if_splits prod.splits)

text \<open>A raw RPC connection needs a usable event loop.\<close>

definition client_ok :: "client \<Rightarrow> bool" where
  "client_ok c \<longleftrightarrow> (rpc_open c \<longrightarrow> rpc_loop c = OpenLoop)"

lemma rpc_open_after_read: "read_finalized_block_number n left c = (Inr b, t, c') \<Longrightarrow> rpc_open c'"
  by (auto simp: read_finalized_block_number_def connected_rpc_substrate_def and_await_def awaiting_def subtensor_def
      split: if_splits sum.splits prod.splits)

lemma client_ok_kept:
  "client_ok (client_new name timeout)" "client_ok (close_client n c)"
  "net_ok n \<Longrightarrow> client_ok c \<Longrightarrow> get_block n fin c = (r, t, c') \<Longrightarrow> client_ok c'"
proof -
  show "client_ok (client_new name timeout)" "client_ok (close_client n c)"
    by (auto simp: client_ok_def client_new_def close_client_def close_rpc_substrate_def Let_def split: prod.splits)
  assume ok: "net_ok n" "client_ok c" and get: "get_block n fin c = (r, t, c')"
  show "client_ok c'"
  proof (cases fin)
    case True
    obtain v u c1 where v: "run_rpc (read_finalized_block_number n) c = (v, u, c1)" by (metis prod.exhaust)
    then have "rpc_loop c1 = OpenLoop"
      using timelyD(3) [OF timely_read [OF ok(1)]] unfolding run_rpc_def Let_def by (auto split: if_splits)
    then show ?thesis
      using get True v by (auto simp: get_block_def client_ok_def close_rpc_substrate_def split: if_splits sum.splits prod.splits)
  qed (use get ok(2) in \<open>auto simp: get_block_def subtensor_block_def and_then_def subtensor_def client_ok_def
        split: if_splits sum.splits prod.splits\<close>)
qed

lemma closed_client: "close_client n c = client_new (network c) (Some (rpc_timeout c))"
  by (simp add: close_client_def client_new_def close_rpc_substrate_def run_rpc_def awaiting_def Let_def split: prod.splits)

text \<open>Leaving the block of a client closes it, whatever the block did.\<close>

lemma with_client_closes:
  "network (snd (snd (block c))) = network c \<Longrightarrow> rpc_timeout (snd (snd (block c))) = rpc_timeout c \<Longrightarrow>
   with_client n block c = (fst (block c), client_new (network c) (Some (rpc_timeout c)))"
  by (auto simp: with_client_def client_enter_def client_exit_def closed_client split: prod.splits)

text \<open>
  The head the choice of the network compares with is read once: until the connections are closed the
  choice for a block stays the same, however far the chain has moved.
\<close>

lemma archive_choice_is_frozen:
  assumes "current_block_cache c = Some h" "get_subtensor_for_block n block c = (Inr archive, t, c')"
  shows "(archive \<longleftrightarrow> h - block > ARCHIVE_BLOCK_THRESHOLD) \<and> current_block_cache c' = Some h"
  using assms
  by (auto simp: get_subtensor_for_block_def and_then_def archive_subtensor_def subtensor_def split: if_splits sum.splits prod.splits)

text \<open>A network where everything works and the finalized head is block \<open>b\<close>.\<close>

definition answers :: "net \<Rightarrow> int \<Rightarrow> bool" where
  "answers n b \<longleftrightarrow> (\<forall>name. opens n name = (0, Inr ())) \<and> rpc_connects n = (0, Inr ()) \<and>
     (\<exists>h. finalised_head n = (0, Inr h) \<and> block_number_of n h = (0, Inr b))"

section \<open>Properties\<close>

text \<open>
  C36. A stalled chain head does not park its reader. A finalized read, the clean-up after a failure
  included, takes at most twice \<open>rpc_timeout\<close>, plus the time to open the regular connection when that is not
  open yet. It keeps the raw RPC connection exactly when it succeeds, so the read after a failed one connects
  anew, and it returns the head once the network answers.
\<close>

theorem finalized_read_is_bounded:
  assumes "net_ok n" and "0 \<le> rpc_timeout c" and "get_block n True c = (r, t, c')"
  shows "t \<le> open_time n c + 2 * rpc_timeout c \<and> (rpc_open c' \<longleftrightarrow> (\<exists>b. r = Inr b)) \<and>
    (answers m b \<longrightarrow> fst (get_block m True c') = Inr b)"
proof -
  have next_read: "fst (get_block m True c1) = Inr b" if "answers m b" "0 \<le> rpc_timeout c1" for c1
    using that
    by (auto simp: answers_def get_block_def run_rpc_def read_finalized_block_number_def connected_rpc_substrate_def
        and_await_def awaiting_def subtensor_def Let_def)
  define c0 where "c0 = (if rpc_loop c = OpenLoop then c else c\<lparr>rpc_loop := OpenLoop\<rparr>)"
  have c0: "rpc_timeout c0 = rpc_timeout c" "open_time n c0 = open_time n c" by (simp_all add: c0_def open_time_def)
  obtain v t1 c1 where v: "read_finalized_block_number n (rpc_timeout c) c0 = (v, t1, c1)" by (metis prod.exhaust)
  have run: "run_rpc (read_finalized_block_number n) c = (v, t1, c1)"
    using v by (simp add: run_rpc_def Let_def c0_def split: if_splits)
  note time = timelyD [OF timely_read [OF assms(1)] v]
  show ?thesis
  proof (cases v)
    case (Inr b')
    then have "r = Inr b'" "t = t1" "c' = c1" using assms(3) run by (simp_all add: get_block_def)
    then show ?thesis using time(2,5) c0 assms(2) rpc_open_after_read v Inr next_read by auto
  next
    case (Inl e)
    obtain u t2 c2 where cl: "close_rpc_substrate n c1 = (u, t2, c2)" by (metis prod.exhaust)
    then have res: "r = Inl e" "t = t1 + t2" "c' = c2" using assms(3) run Inl by (simp_all add: get_block_def)
    have "t2 \<le> rpc_timeout c" "\<not> rpc_open c2" "rpc_timeout c2 = rpc_timeout c"
      using close_rpc_bounded [OF assms(1) _ cl] assms(2) time(2) c0(1) by simp_all
    then show ?thesis using time(5) c0 assms(2) res next_read by auto
  qed
qed

text \<open>A network that accepts the request and never answers.\<close>

definition stalled_net :: net where
  "stalled_net = \<lparr>opens = (\<lambda>_. (1, Inr ())), head_block = (1, Inr 100), rpc_connects = (1, Inr ()),
     finalised_head = (1000000, Inr ''h''), block_number_of = (\<lambda>_. (1, Inr 99)), rpc_closes = (1000000, Inr ())\<rparr>"

theorem finalized_read_is_bounded_witness:
  "fst (snd (get_block stalled_net True (client_new ''finney'' None))) \<le> 61 \<and>
   \<not> rpc_open (snd (snd (get_block stalled_net True (client_new ''finney'' None))))"
proof -
  let ?c = "client_new ''finney'' None"
  have ok: "net_ok stalled_net" "0 \<le> rpc_timeout ?c"
    by (simp_all add: net_ok_def stalled_net_def client_new_def DEFAULT_RPC_TIMEOUT_SECONDS_def)
  obtain r t c' where get: "get_block stalled_net True ?c = (r, t, c')" by (metis prod.exhaust)
  moreover have "fst (get_block stalled_net True ?c) = Inl TimeoutError" by code_simp
  moreover have "open_time stalled_net ?c = 1" "rpc_timeout ?c = 30"
    by (simp_all add: open_time_def stalled_net_def client_new_def DEFAULT_RPC_TIMEOUT_SECONDS_def)
  ultimately show ?thesis using finalized_read_is_bounded [OF ok get] by simp
qed

text \<open>The timeout does not cover the opening of the regular connection, which the coroutine does not await.\<close>

lemma opening_is_not_bounded:
  assumes "\<not> rpc_open c" "\<not> subtensor_open c" "opens n (network c) = (t, Inl e)"
  shows "fst (snd (get_block n True c)) \<ge> t"
  using assms
  by (auto simp: get_block_def run_rpc_def read_finalized_block_number_def connected_rpc_substrate_def and_await_def
      subtensor_def close_rpc_substrate_def Let_def)

end
