(* ===== verification/Scheduler.thy ===== *)
theory Scheduler
  imports Backfill_Scheduler Reconciler Broker_Contacts Chain_Client
begin

text \<open>
  The live scheduler (\<open>_internal/services/scheduler.py\<close>) and the queue monitor it runs
  (\<open>_internal/services/queue_monitor.py\<close>).

  The chain, the clock and the broker are outside this repository. One round of the loop sees a
  \<open>tick\<close>: what reading the head of each block source gives (once to resolve a starting block, once to
  poll), the monotonic time, the rows another process holds locked, and the broker's queue statistics.
  The loop runs over a list of ticks; \<open>KeyboardInterrupt\<close> ends the list.
\<close>

section \<open>Queue monitor\<close>

definition usage_dumpers :: "queue_usage list \<Rightarrow> block_dumper list" where
  "usage_dumpers usages = rev (remdups (rev (map u_dumper usages)))"

fun read_stats_of :: "broker_stats \<Rightarrow> queue_usage list \<Rightarrow> block_dumper list \<Rightarrow> (string, int \<times> int) dict \<Rightarrow>
   (string, int \<times> int) dict res" where
  "read_stats_of stats usages [] acc = Inr acc"
| "read_stats_of stats usages (d # ds) acc =
     (case stats (celery_app d) (map (\<lambda>u. q_name (u_queue u)) (filter (\<lambda>u. u_dumper u = d) usages)) of
        Inl e \<Rightarrow> Inl e
      | Inr s \<Rightarrow> read_stats_of stats usages ds (dict_update acc s))"

definition read_queue_stats :: "broker_stats \<Rightarrow> queue_usage list \<Rightarrow> (string, int \<times> int) dict res" where
  "read_queue_stats stats usages = read_stats_of stats usages (usage_dumpers usages) []"

fun publish_inflight :: "ctx \<Rightarrow> queue_usage list \<Rightarrow> unit action" where
  "publish_inflight x [] w = (Inr (), w)"
| "publish_inflight x (u # us) w =
     (if throttle (u_queue u) = None then publish_inflight x us w
      else (case read_inflight x (u_queue u) w of
        (Inl e, w') \<Rightarrow> (Inl e, w') | (Inr _, w') \<Rightarrow> publish_inflight x us w'))"

text \<open>A queue the broker did not report is a \<open>KeyError\<close>; the warning about missing consumers is a log line.\<close>

fun publish_stats :: "(string, int \<times> int) dict \<Rightarrow> queue_usage list \<Rightarrow> unit action" where
  "publish_stats stats [] w = (Inr (), w)"
| "publish_stats stats (u # us) w =
     (case map_of stats (q_name (u_queue u)) of
        None \<Rightarrow> (Inl (ValueError ''KeyError''), w)
      | Some (waiting, consumers) \<Rightarrow>
          publish_stats stats us
            (set_queue_consumers (q_name (u_queue u)) consumers (set_queue_messages (q_name (u_queue u)) waiting w)))"

definition monitor_check :: "ctx \<Rightarrow> dumper_registry \<Rightarrow> apps \<Rightarrow> (nat \<Rightarrow> amqp_server) \<Rightarrow> injected_contacts \<Rightarrow> unit action" where
  "monitor_check x reg as servers injected w =
     (let usages = queue_usages reg (registry x) in
      case publish_inflight x usages w of
        (Inl e, w1) \<Rightarrow> (Inl e, w1)
      | (Inr _, w1) \<Rightarrow>
          (case read_queue_stats (contact_stats servers injected as) usages of
             Inl e \<Rightarrow> (Inl e, w1) | Inr s \<Rightarrow> publish_stats s usages w1))"

section \<open>Scheduler state\<close>

record scheduler =
  last_processed_blocks :: "(block_source, int) dict"
  observed_blocks :: "(block_source, int) dict"
  start_from_block :: "pyval option"
  lookback_enabled :: bool
  stale_task_timeout :: "seconds option"
  stale_task_sweep_interval :: seconds
  stale_task_batch_size :: int
  last_reconcile_at :: "instant option"
  poll_interval :: seconds
  sched_client :: client
  sched_running :: bool

text \<open>
  What one round sees: the readings of the heads, the clock, the rows others hold, the brokers and the injected contacts,
  whether Ctrl+C arrives while it sleeps, and the network the client is closed on then.
\<close>

record tick =
  start_head :: "block_source \<Rightarrow> int res"
  poll_head :: "block_source \<Rightarrow> int res"
  monotonic :: instant
  locked_rows :: "nat \<Rightarrow> bool"
  broker_servers :: "nat \<Rightarrow> amqp_server"
  contacts_in_place :: injected_contacts
  interrupt :: bool
  closing_net :: net

text \<open>
  \<open>DefaultBlockStateResolver.get_starting_block\<close>. A \<open>bool\<close> is an \<open>int\<close>, and a recorded block 0 is falsy.
\<close>

definition get_starting_block ::
  "pyval option \<Rightarrow> registry_item list \<Rightarrow> int res \<Rightarrow> db \<Rightarrow> int res" where
  "get_starting_block setting items reading d =
     (case setting of
        Some (PyStr s) \<Rightarrow>
          if s = ''current'' then reading
          else (case get_the_latest_executed_block_number (Some (map item_path items)) d of
            Some b \<Rightarrow> if b \<noteq> 0 then Inr b else reading | None \<Rightarrow> reading)
      | Some (PyNum (PInt n)) \<Rightarrow> Inr n
      | Some (PyBool b) \<Rightarrow> Inr (of_bool b)
      | _ \<Rightarrow> (case get_the_latest_executed_block_number (Some (map item_path items)) d of
            Some b \<Rightarrow> if b \<noteq> 0 then Inr b else reading | None \<Rightarrow> reading))"

fun group_by_block_source :: "registry_item list \<Rightarrow> (block_source, registry_item list) dict \<Rightarrow>
   (block_source, registry_item list) dict" where
  "group_by_block_source [] groups = groups"
| "group_by_block_source (item # items) groups =
     group_by_block_source items
       (AList.update (block_source item) ((case map_of groups (block_source item) of None \<Rightarrow> [] | Some g \<Rightarrow> g) @ [item]) groups)"

definition ensure_starting_block ::
  "tick \<Rightarrow> block_source \<Rightarrow> registry_item list \<Rightarrow> db \<Rightarrow> scheduler \<Rightarrow> bool \<times> scheduler" where
  "ensure_starting_block t source items d sc =
     (if map_of (last_processed_blocks sc) source \<noteq> None then (True, sc)
      else (case get_starting_block (start_from_block sc) items (start_head t source) d of
        Inl _ \<Rightarrow> (False, sc)
      | Inr b \<Rightarrow> (True, sc\<lparr>last_processed_blocks := AList.update source b (last_processed_blocks sc)\<rparr>)))"

text \<open>One item of \<open>_fill_lookback\<close>; an exception costs the rest of the item's window only.\<close>

definition fill_lookback_item :: "ctx \<Rightarrow> int \<Rightarrow> registry_item \<Rightarrow> world \<Rightarrow> world" where
  "fill_lookback_item x head item w =
     (case backfilling_lookback item of
        None \<Rightarrow> w
      | Some lookback \<Rightarrow>
          let from_block = max 0 (head - lookback); to_block = head - 1
          in if to_block < from_block then w else snd (process_item_range x item from_block to_block head w))"

definition fill_lookback :: "ctx \<Rightarrow> bool \<Rightarrow> int \<Rightarrow> registry_item list \<Rightarrow> world \<Rightarrow> world" where
  "fill_lookback x enabled head items w = (if \<not> enabled then w else fold (fill_lookback_item x head) items w)"

definition poll_block_source ::
  "ctx \<Rightarrow> tick \<Rightarrow> block_source \<times> registry_item list \<Rightarrow> scheduler \<times> world \<Rightarrow> scheduler \<times> world" where
  "poll_block_source x t g s =
     (case (g, s) of ((source, items), (sc, w)) \<Rightarrow>
        (case ensure_starting_block t source items (table w) sc of
           (False, sc1) \<Rightarrow> (sc1, w)
         | (True, sc1) \<Rightarrow>
             (case poll_head t source of
                Inl _ \<Rightarrow> (sc1, w)
              | Inr current \<Rightarrow>
                  let sc2 = sc1\<lparr>observed_blocks := AList.update source current (observed_blocks sc1)\<rparr>
                  in if current \<le> the (map_of (last_processed_blocks sc2) source) then (sc2, w)
                     else
                       let timer = timer_enter w (BlockProcessingTimer ''realtime'' (bs_name source));
                           w1 = timer_exit (measured x ''realtime'' current) timer (process_block x current (Some items) w);
                           w2 = fill_lookback x (lookback_enabled sc2) current items w1;
                           w3 = increment_blocks_processed ''realtime'' (bs_name source)
                             (set_current_block ''realtime'' current (bs_name source) w2)
                       in (sc2\<lparr>last_processed_blocks := AList.update source current (last_processed_blocks sc2)\<rparr>, w3))))"

definition highest_observed :: "scheduler \<Rightarrow> int option" where
  "highest_observed sc = max_of (map snd (observed_blocks sc))"

definition report_block_lag :: "scheduler \<Rightarrow> world \<Rightarrow> world" where
  "report_block_lag sc w =
     (case highest_observed sc of
        None \<Rightarrow> w
      | Some head \<Rightarrow>
          fold (\<lambda>(source, last_block). set_block_lag ''realtime'' (max 0 (head - last_block)) (bs_name source))
            (last_processed_blocks sc) w)"

definition recover_block_task_attempts :: "ctx \<Rightarrow> (nat \<Rightarrow> bool) \<Rightarrow> seconds \<Rightarrow> int \<Rightarrow> int option \<Rightarrow> world \<Rightarrow> world" where
  "recover_block_task_attempts x locked stale_after limit head w =
     snd (reconcile_stuck_tasks x locked stale_after limit head w)"

definition recover_block_dumper_attempts ::
  "ctx \<Rightarrow> (nat \<Rightarrow> bool) \<Rightarrow> seconds option \<Rightarrow> int \<Rightarrow> int option \<Rightarrow> world \<Rightarrow> world" where
  "recover_block_dumper_attempts x locked stale_after limit head w =
     snd (reconcile x locked stale_after limit head w)"

definition maybe_reconcile_stuck_tasks ::
  "ctx \<Rightarrow> dumper_registry \<Rightarrow> apps \<Rightarrow> tick \<Rightarrow> scheduler \<times> world \<Rightarrow> scheduler \<times> world" where
  "maybe_reconcile_stuck_tasks x reg as t s =
     (case s of (sc, w) \<Rightarrow>
        if (case last_reconcile_at sc of None \<Rightarrow> False | Some prev \<Rightarrow> monotonic t - prev < stale_task_sweep_interval sc)
        then (sc, w)
        else
          let sc1 = sc\<lparr>last_reconcile_at := Some (monotonic t)\<rparr>;
              head = highest_observed sc1;
              w1 = snd (monitor_check x reg as (broker_servers t) (contacts_in_place t) w);
              w2 = (case stale_task_timeout sc1 of None \<Rightarrow> w1
                | Some timeout \<Rightarrow> recover_block_task_attempts x (locked_rows t) timeout (stale_task_batch_size sc1) head w1)
          in (sc1, recover_block_dumper_attempts x (locked_rows t) (stale_task_timeout sc1) (stale_task_batch_size sc1) head w2))"

text \<open>One round of the loop of \<open>start\<close>, and the loop.\<close>

definition scheduler_round ::
  "ctx \<Rightarrow> dumper_registry \<Rightarrow> apps \<Rightarrow> (block_source \<times> registry_item list) list \<Rightarrow> tick \<Rightarrow> scheduler \<times> world \<Rightarrow> scheduler \<times> world" where
  "scheduler_round x reg as groups t s =
     (case fold (poll_block_source x t) groups s of
        (sc, w) \<Rightarrow> maybe_reconcile_stuck_tasks x reg as t (sc, report_block_lag sc w))"

definition scheduler_stop :: "net \<Rightarrow> scheduler \<Rightarrow> scheduler" where
  "scheduler_stop n sc = sc\<lparr>sched_running := False, sched_client := close_client n (sched_client sc)\<rparr>"

fun scheduler_loop ::
  "ctx \<Rightarrow> dumper_registry \<Rightarrow> apps \<Rightarrow> (block_source \<times> registry_item list) list \<Rightarrow> tick list \<Rightarrow> scheduler \<times> world \<Rightarrow> scheduler \<times> world" where
  "scheduler_loop x reg as groups [] s = s"
| "scheduler_loop x reg as groups (t # ts) s =
     (if \<not> sched_running (fst s) then s
      else (case scheduler_round x reg as groups t s of
        (sc, w) \<Rightarrow> if interrupt t then (scheduler_stop (closing_net t) sc, w) else scheduler_loop x reg as groups ts (sc, w)))"

definition scheduler_start ::
  "ctx \<Rightarrow> dumper_registry \<Rightarrow> apps \<Rightarrow> tick \<Rightarrow> tick list \<Rightarrow> scheduler \<times> world \<Rightarrow> scheduler \<times> world" where
  "scheduler_start x reg as t0 ticks s =
     (let items = get_functions (registry x);
          groups = group_by_block_source items [];
          sc = fold (\<lambda>(source, items) sc. snd (ensure_starting_block t0 source items (table (snd s)) sc)) groups
            ((fst s)\<lparr>last_processed_blocks := [], sched_running := True\<rparr>)
      in scheduler_loop x reg as groups ticks (sc, set_registered_tasks (length items) (snd s)))"

text \<open>Rounds after an interrupt do not happen; a run without one goes through all of its rounds.\<close>

lemma poll_keeps_running: "sched_running (fst (poll_block_source x t g s)) = sched_running (fst s)"
  by (auto simp: poll_block_source_def ensure_starting_block_def case_prod_beta Let_def split: prod.splits sum.splits option.splits if_splits)

lemma round_keeps_running:
  "sched_running (fst (scheduler_round x reg as groups t s)) = sched_running (fst s)"
proof -
  have "sched_running (fst (fold (poll_block_source x t) gs s)) = sched_running (fst s)" for gs
    by (induction gs arbitrary: s) (simp_all add: poll_keeps_running)
  then show ?thesis
    by (auto simp: scheduler_round_def maybe_reconcile_stuck_tasks_def Let_def case_prod_beta split: prod.splits sum.splits option.splits if_splits)
qed

lemma scheduler_loop_all:
  assumes "sched_running (fst s)" "\<forall>t \<in> set ts. \<not> interrupt t"
  shows "scheduler_loop x reg as groups ts s = fold (scheduler_round x reg as groups) ts s \<and>
    sched_running (fst (fold (scheduler_round x reg as groups) ts s))"
  using assms
proof (induction ts arbitrary: s)
  case (Cons t ts)
  then show ?case using round_keeps_running [of x reg as groups t s] by (auto split: prod.splits)
qed simp

lemma scheduler_loop_interrupted:
  assumes "sched_running (fst s)" "\<forall>t \<in> set ts. \<not> interrupt t" "interrupt t"
  shows "\<exists>sc w. fold (scheduler_round x reg as groups) (ts @ [t]) s = (sc, w) \<and>
    scheduler_loop x reg as groups (ts @ t # rest) s = (scheduler_stop (closing_net t) sc, w)"
  using assms(1,2)
proof (induction ts arbitrary: s)
  case Nil
  then show ?case using assms(3) by (auto split: prod.splits)
next
  case (Cons u us)
  then show ?case using round_keeps_running [of x reg as groups u s] by (auto split: prod.splits)
qed

lemma stopped_scheduler:
  "sched_client (scheduler_stop n sc) = client_new (network (sched_client sc)) (Some (rpc_timeout (sched_client sc)))"
  by (simp add: scheduler_stop_def closed_client)

section \<open>Rows stay\<close>

interpretation row_loop: submit_loop "\<lambda>s t. keeps_rows (table (v s)) (table (v t))" "\<lambda>_ _ _. True" for v :: "'s \<Rightarrow> world"
  by unfold_locales (auto intro: keeps_rows_trans)

lemma window_submit_block_keeps:
  assumes "window_submit_block x item args ex head block w = (r, w')"
  shows "keeps_rows (table w) (table w')"
  using assms
proof (cases rule: window_submit_block_cases)
  case (submitted archive queue e w1)
  then show ?thesis using celery_execute_keeps_rows [OF submitted(4)] by (cases archive) simp_all
qed simp

lemma lookback_submit_keeps:
  assumes "lookback_submit x item args ex head block s = (r, s')"
  shows "keeps_rows (table (snd s)) (table (snd s'))"
proof -
  obtain v g' h' w' rest where q: "queue_submit_block x item args ex (\<lambda>h. (head, h)) block [] (Some (fst s)) () (snd s) =
      (v, g', h', w', rest)" by (metis surj_pair)
  then have s': "snd s' = w'" using assms by (auto simp: lookback_submit_def)
  from q show ?thesis
  proof (cases rule: queue_submit_block_cases)
    case closed
    then show ?thesis using s' by simp
  next
    case (refused gt)
    then show ?thesis using row_keeping.admit_keeps [OF refused(3)] s' by simp
  next
    case (admitted gt w1 n e)
    have "keeps_rows (table (snd s)) (table w1)" using row_keeping.admit_keeps [OF admitted(3)] by simp
    moreover have "keeps_rows (table w1) (table w')"
      using submitsD [OF execute_submits] admitted(5) by (metis snd_conv)
    ultimately show ?thesis using s' keeps_rows_trans by metis
  qed
qed

lemma each_args_range_keeps:
  fixes v :: "'s \<Rightarrow> world"
  assumes "\<And>args ex b s r s'. f args ex b s = (r, s') \<Longrightarrow> keeps_rows (table (v s)) (table (v s'))"
    and run: "each_args (\<lambda>args n s. submit_range (f args (ex args s)) bs n s) as n s = (r, s')"
  shows "keeps_rows (table (v s)) (table (v s'))"
proof (rule conjunct1 [OF row_loop.each_args_inv [where v = v, OF run]])
  fix a n t r t'
  assume "submit_range (f a (ex a t)) bs n t = (r, t')"
  from row_loop.submit_range_inv [where v = v, OF this] assms(1)
  show "keeps_rows (table (v t)) (table (v t')) \<and> (\<forall>m. r = Inr m \<longrightarrow> n \<le> m \<and> True)" by blast
qed

lemma process_item_range_keeps:
  "keeps_rows (table w) (table (snd (process_item_range x item f t head w)))"
proof (cases "live_queue item = None")
  case True
  let ?ex = "\<lambda>args w. skip_blocks item args f t (table w)"
  obtain r w' where run: "each_args (\<lambda>args n w. submit_range ((\<lambda>args ex. window_submit_block x item args ex head) args (?ex args w))
      [f..t] n w) (get_execution_args item) 0 w = (r, w')" by fastforce
  have "keeps_rows (table (id w)) (table (id w'))"
    by (rule each_args_range_keeps [where f = "\<lambda>args ex. window_submit_block x item args ex head" and ex = ?ex
          and v = id, OF _ run]) (use window_submit_block_keeps in auto)
  then show ?thesis using True run by (simp add: process_item_range_def)
next
  case False
  let ?ex = "\<lambda>args s. skip_blocks item args f t (table (snd s))"
  obtain r s' where run: "each_args (\<lambda>args n s. submit_range ((\<lambda>args ex. lookback_submit x item args ex head) args (?ex args s))
      [f..t] n s) (get_execution_args item) 0 (new_gate False, w) = (r, s')" by (meson surj_pair)
  have "keeps_rows (table (snd (new_gate False, w))) (table (snd s'))"
    by (rule each_args_range_keeps [where f = "\<lambda>args ex. lookback_submit x item args ex head" and ex = ?ex
          and v = snd, OF _ run]) (use lookback_submit_keeps in auto)
  then show ?thesis using False run by (simp add: process_item_range_def queue_process_item_range_def)
qed

lemma fill_lookback_item_keeps: "keeps_rows (table w) (table (fill_lookback_item x head item w))"
  using process_item_range_keeps by (auto simp: fill_lookback_item_def Let_def split: option.splits)

lemma fill_lookback_keeps: "keeps_rows (table w) (table (fill_lookback x enabled head items w))"
proof -
  have "keeps_rows (table w) (table (fold (fill_lookback_item x head) items w))"
  proof (induction items arbitrary: w)
    case (Cons item items)
    have "keeps_rows (table w) (table (fill_lookback_item x head item w))" by (rule fill_lookback_item_keeps)
    also have "keeps_rows \<dots> (table (fold (fill_lookback_item x head) items (fill_lookback_item x head item w)))"
      by (rule Cons.IH)
    finally show ?case by simp
  qed simp
  then show ?thesis by (simp add: fill_lookback_def)
qed

lemma process_block_keeps: "keeps_rows (table w) (table (process_block x block (Some items) w))"
proof -
  have "submits (fold (\<lambda>item. process_registry_item x item block) items)"
    by (rule submits_fold) (rule process_registry_item_submits)
  then show ?thesis using submitsD by (simp add: process_block_def)
qed

lemma process_block_row:
  assumes "db_ok (table w)" "called_for items block path args"
  shows "find_key block path (serialize_args args) (table (process_block x block (Some items) w)) \<noteq> None"
proof -
  obtain item where item: "item \<in> set items" "item_path item = path" "args \<in> set (get_execution_args item)"
      "match_condition item block args = Inr True" using assms(2) unfolding called_for_def by blast
  have "find_key block path (serialize_args args) (table (process_registry_item x item block w)) \<noteq> None"
    if "db_ok (table w)" for w
    unfolding process_registry_item_def
    by (rule fold_row [OF process_args_submits that item(3)]) (use process_args_row item(2,4) in blast)
  then show ?thesis
    unfolding process_block_def by (simp add: fold_row [OF process_registry_item_submits assms(1) item(1)])
qed

section \<open>Filling the window\<close>

text \<open>
  Loops whose calls return and keep rows: every element with \<open>P\<close> has its row (\<open>key\<close>) afterwards.
\<close>

definition recorded :: "int \<times> string \<times> string \<Rightarrow> world \<Rightarrow> bool" where
  "recorded k w \<longleftrightarrow> k \<in> attempt_key ` set (attempts (table w))"

lemma recorded_keeps: "recorded k w \<Longrightarrow> keeps_rows (table w) (table w') \<Longrightarrow> db_ok (table w) \<Longrightarrow> recorded k w'"
  by (auto simp: recorded_def keeps_rows_def)

lemma submit_range_fills:
  assumes "db_ok (table s)" "keeps_rows (table s) (table u)"
    and "\<And>b t. b \<in> set bs \<Longrightarrow> keeps_rows (table s) (table t) \<Longrightarrow>
      \<exists>v t'. f b t = (Inr v, t') \<and> keeps_rows (table t) (table t') \<and> (P b \<longrightarrow> recorded (key b) t')"
  shows "\<exists>m t. submit_range f bs n u = (Inr m, t) \<and> keeps_rows (table u) (table t) \<and>
    (\<forall>b \<in> set bs. P b \<longrightarrow> recorded (key b) t)"
  using assms(2,3)
proof (induction bs arbitrary: n u)
  case (Cons b bs)
  obtain v t where t: "f b u = (Inr v, t)" "keeps_rows (table u) (table t)" "P b \<longrightarrow> recorded (key b) t"
    using Cons.prems(2) [of b u] Cons.prems(1) by auto
  have st: "keeps_rows (table s) (table t)" using Cons.prems(1) t(2) by (rule keeps_rows_trans)
  obtain m t' where t': "submit_range f bs (n + of_bool v) t = (Inr m, t')" "keeps_rows (table t) (table t')"
      "\<forall>b \<in> set bs. P b \<longrightarrow> recorded (key b) t'"
    using Cons.IH [OF st Cons.prems(2)] by fastforce
  have "submit_range f (b # bs) n u = (Inr m, t')" using t(1) t'(1) by (cases v) simp_all
  moreover have "P b \<longrightarrow> recorded (key b) t'"
    using t(3) recorded_keeps t'(2) keeps_rows_db_ok [OF st assms(1)] by blast
  ultimately show ?case using t'(2,3) keeps_rows_trans [OF t(2) t'(2)] by auto
qed simp

lemma each_args_fills:
  assumes "db_ok (table s)" "keeps_rows (table s) (table u)"
    and "\<And>a n t. a \<in> set as \<Longrightarrow> keeps_rows (table s) (table t) \<Longrightarrow>
      \<exists>m t'. f a n t = (Inr m, t') \<and> keeps_rows (table t) (table t') \<and> (\<forall>k \<in> K a. recorded k t')"
  shows "\<exists>m t. each_args f as n u = (Inr m, t) \<and> keeps_rows (table u) (table t) \<and>
    (\<forall>a \<in> set as. \<forall>k \<in> K a. recorded k t)"
  using assms(2,3)
proof (induction as arbitrary: n u)
  case (Cons a as)
  obtain m t where t: "f a n u = (Inr m, t)" "keeps_rows (table u) (table t)" "\<forall>k \<in> K a. recorded k t"
    using Cons.prems(2) [of a u n] Cons.prems(1) by auto
  have st: "keeps_rows (table s) (table t)" using Cons.prems(1) t(2) by (rule keeps_rows_trans)
  obtain m' t' where t': "each_args f as m t = (Inr m', t')" "keeps_rows (table t) (table t')"
      "\<forall>a \<in> set as. \<forall>k \<in> K a. recorded k t'"
    using Cons.IH [OF st Cons.prems(2)] by fastforce
  have "\<forall>k \<in> K a. recorded k t'" using t(3) recorded_keeps t'(2) keeps_rows_db_ok [OF st assms(1)] by blast
  then show ?case using t(1) t' keeps_rows_trans [OF t(2) t'(2)] by auto
qed simp

lemma skip_blocks_recorded:
  "b \<in> skip_blocks item args from_block to_block (table w) \<Longrightarrow> recorded (b, item_path item, serialize_args args) w"
  by (auto simp: skip_blocks_def executed_block_numbers_def inflight_block_numbers_def recorded_def attempt_key_def)

text \<open>One submission of the window, with a broker that takes the message and a condition that does not raise.\<close>

lemma window_submit_block_fills:
  assumes "db_ok (table w)" "\<forall>m. broker_accepts x m" "match_condition item block args = Inr c"
    and "block \<in> ex \<Longrightarrow> recorded (block, item_path item, serialize_args args) w"
  shows "\<exists>v w'. window_submit_block x item args ex head block w = (Inr v, w') \<and> keeps_rows (table w) (table w') \<and>
    (c \<longrightarrow> recorded (block, item_path item, serialize_args args) w')"
proof -
  obtain r w' where run: "window_submit_block x item args ex head block w = (r, w')" by fastforce
  have keeps: "keeps_rows (table w) (table w')" using run by (rule window_submit_block_keeps)
  show ?thesis
  proof (cases "block \<in> ex \<or> \<not> c")
    case True
    then have "window_submit_block x item args ex head block w = (Inr False, w)"
      using assms(3) by (auto simp: window_submit_block_def)
    then show ?thesis using assms(4) True by auto
  next
    case False
    then obtain archive queue e w1 where e: "celery_execute x item block args archive queue w1 = (e, w')"
        "table w1 = table w" "r = (case e of Inl e \<Rightarrow> Inl e | Inr _ \<Rightarrow> Inr True)"
      using run assms(3) by (auto simp: window_submit_block_def Let_def split: prod.splits sum.splits)
    have "\<exists>u. e = Inr u"
      using e(1) assms(2) by (auto simp: celery_execute_alone apply_async_def Let_def split: prod.splits if_splits)
    moreover have "recorded (block, item_path item, serialize_args args) w'"
      using celery_execute_row [OF _ e(1)] assms(1) e(2) by (simp add: recorded_def has_row [symmetric])
    ultimately show ?thesis using run keeps e(3) by auto
  qed
qed

text \<open>
  C14. The lookback keeps the trailing window filled: for a \<open>@block_task\<close> task with a lookback of \<open>n\<close>
  blocks, when its condition does not raise in the window and the broker takes the messages, then after
  \<open>_fill_lookback\<close> at the head \<open>h\<close> every block of \<open>[max 0 (h - n), h - 1]\<close> and every arguments the
  condition selects have an attempt.
\<close>

theorem lookback_fills_window:
  assumes "db_ok (table w)" and "live_queue item = None" and "backfilling_lookback item = Some n"
    and "\<forall>m. broker_accepts x m"
    and "\<And>b args. args \<in> set (get_execution_args item) \<Longrightarrow> \<exists>c. match_condition item b args = Inr c"
    and "max 0 (h - n) \<le> b" and "b < h"
    and "args \<in> set (get_execution_args item)" and "match_condition item b args = Inr True"
  shows "find_key b (item_path item) (serialize_args args) (table (fill_lookback x True h [item] w)) \<noteq> None"
proof -
  let ?from = "max 0 (h - n)" and ?to = "h - 1"
  let ?f = "\<lambda>args m w. submit_range
      (window_submit_block x item args (skip_blocks item args ?from ?to (table w)) h) [?from..?to] m w"
  let ?K = "\<lambda>args. {(b, item_path item, serialize_args args) | b. b \<in> {?from..?to} \<and> match_condition item b args = Inr True}"
  have one: "\<exists>m t'. ?f a k t = (Inr m, t') \<and> keeps_rows (table t) (table t') \<and> (\<forall>j \<in> ?K a. recorded j t')"
    if a: "a \<in> set (get_execution_args item)" and t: "keeps_rows (table w) (table t)" for a k t
  proof -
    have ok: "db_ok (table t)" using keeps_rows_db_ok [OF t assms(1)] .
    have "\<exists>v u'. window_submit_block x item a (skip_blocks item a ?from ?to (table t)) h b u = (Inr v, u') \<and>
        keeps_rows (table u) (table u') \<and>
        (match_condition item b a = Inr True \<longrightarrow> recorded (b, item_path item, serialize_args a) u')"
      if "keeps_rows (table t) (table u)" for b u
    proof -
      obtain c where c: "match_condition item b a = Inr c" using assms(5) [OF a] by blast
      have "recorded (b, item_path item, serialize_args a) u" if "b \<in> skip_blocks item a ?from ?to (table t)"
        using recorded_keeps [OF skip_blocks_recorded [OF that] \<open>keeps_rows (table t) (table u)\<close> ok] .
      from window_submit_block_fills [OF keeps_rows_db_ok [OF that ok] assms(4) c this, where head = h] c
      show ?thesis by simp
    qed
    from submit_range_fills [OF ok keeps_rows_refl this, where bs = "[?from..?to]" and n = k] show ?thesis by fastforce
  qed
  obtain m t where t: "each_args ?f (get_execution_args item) 0 w = (Inr m, t)"
      "\<forall>a \<in> set (get_execution_args item). \<forall>j \<in> ?K a. recorded j t"
    using each_args_fills [OF assms(1) keeps_rows_refl, where f = ?f and K = ?K, OF one] by blast
  have "\<not> ?to < ?from" using assms(6,7) by linarith
  then have "fill_lookback x True h [item] w = t"
    using t(1) assms(2,3) by (simp add: fill_lookback_def fill_lookback_item_def process_item_range_def Let_def)
  moreover have "recorded (b, item_path item, serialize_args args) t"
    using t(2) assms(6-9) by fastforce
  ultimately show ?thesis by (simp add: recorded_def has_row [symmetric])
qed

definition sample_lookback_task :: registry_item where
  "sample_lookback_task = sample_item\<lparr>live_queue := None, backfilling_lookback := Some 300\<rparr>"

theorem lookback_fills_window_witness:
  "find_key 900 ''app.task'' (serialize_args []) (table (fill_lookback sample_ctx True 1000 [sample_lookback_task] sample_world)) \<noteq> None"
proof -
  have "item_path sample_lookback_task = ''app.task''" "get_execution_args sample_lookback_task = [[]]"
    "match_condition sample_lookback_task b a = Inr True" for b a
    by (simp_all add: sample_lookback_task_def sample_item_def item_path_def get_execution_args_def match_condition_def)
  note facts = this
  have "db_ok (table sample_world)" "live_queue sample_lookback_task = None" "backfilling_lookback sample_lookback_task = Some 300"
    "\<forall>m. broker_accepts sample_ctx m"
    by (simp_all add: sample_world_def sample_lookback_task_def sample_ctx_def)
  from lookback_fills_window [OF this, of 1000 900 "[]"] facts show ?thesis by (auto intro: exI [of _ True])
qed

section \<open>Polling the heads\<close>

lemma poll_keeps: "keeps_rows (table (snd s)) (table (snd (poll_block_source x t g s)))"
proof -
  obtain source items sc w where [simp]: "g = (source, items)" "s = (sc, w)" by (metis surj_pair)
  have "keeps_rows (table w) (table (fill_lookback x e c items (timer_exit d tm (process_block x c (Some items) w))))" for e c d tm
    using keeps_rows_trans [OF process_block_keeps fill_lookback_keeps [of "timer_exit d tm _", simplified]] .
  then show ?thesis
    by (auto simp: poll_block_source_def Let_def split: prod.splits bool.splits sum.splits)
qed

lemma polls_keep: "keeps_rows (table (snd s)) (table (snd (fold (poll_block_source x t) groups s)))"
proof (induction groups arbitrary: s)
  case (Cons g groups)
  have "keeps_rows (table (snd s)) (table (snd (poll_block_source x t g s)))" by (rule poll_keeps)
  also have "keeps_rows \<dots> (table (snd (fold (poll_block_source x t) groups (poll_block_source x t g s))))"
    by (rule Cons.IH)
  finally show ?case by simp
qed simp

lemma ensure_known:
  "map_of (last_processed_blocks sc) source = Some n \<Longrightarrow> ensure_starting_block t source items d sc = (True, sc)"
  by (simp add: ensure_starting_block_def)

lemma poll_other_cursor:
  assumes "fst g \<noteq> source"
  shows "map_of (last_processed_blocks (fst (poll_block_source x t g s))) source = map_of (last_processed_blocks (fst s)) source"
  using assms
  by (cases g; cases s)
    (auto simp: poll_block_source_def ensure_starting_block_def update_conv' Let_def split: if_splits sum.splits)

lemma poll_own_cursor:
  assumes "map_of (last_processed_blocks sc) source = Some n"
  shows "map_of (last_processed_blocks (fst (poll_block_source x t (source, items) (sc, w)))) source =
    Some (case poll_head t source of Inr b \<Rightarrow> max n b | Inl _ \<Rightarrow> n)"
  using assms by (auto simp: poll_block_source_def ensure_known update_conv' max_def Let_def split: sum.splits)

lemma polls_other_cursor:
  "source \<notin> fst ` set groups \<Longrightarrow>
   map_of (last_processed_blocks (fst (fold (poll_block_source x t) groups s))) source =
   map_of (last_processed_blocks (fst s)) source"
  by (induction groups arbitrary: s) (auto simp: poll_other_cursor)

lemma poll_row:
  assumes "db_ok (table w)" "map_of (last_processed_blocks sc) source = Some n" "poll_head t source = Inr b" "n < b"
    and "called_for items b path args"
  shows "find_key b path (serialize_args args) (table (snd (poll_block_source x t (source, items) (sc, w)))) \<noteq> None"
proof -
  have "find_key b path (serialize_args args) (table (fill_lookback x (lookback_enabled sc) b items
      (timer_exit d tm (process_block x b (Some items) w)))) \<noteq> None" for d tm
    using keeps_rows_find [OF fill_lookback_keeps [of "timer_exit d tm _", simplified] _ process_block_row [OF assms(1,5)]]
      keeps_rows_db_ok [OF process_block_keeps assms(1)] by blast
  then show ?thesis
    using assms(2-4) by (simp add: poll_block_source_def ensure_known Let_def)
qed

text \<open>
  C35. The chain heads advance independently: in one round over the block sources, the cursor of a
  source moves to the block read from it if that is newer, and otherwise stays, whatever the reads of
  the other sources gave; it never moves back. For a newer block every task of this source whose
  condition holds has its attempt by the end of the round.
\<close>

theorem heads_advance_independently:
  assumes "distinct (map fst groups)" and "(source, items) \<in> set groups"
    and "map_of (last_processed_blocks sc) source = Some n" and "db_ok (table w)"
    and "fold (poll_block_source x t) groups (sc, w) = (sc', w')"
  shows "map_of (last_processed_blocks sc') source = Some (case poll_head t source of Inr b \<Rightarrow> max n b | Inl _ \<Rightarrow> n) \<and>
    (\<forall>b path args. poll_head t source = Inr b \<and> n < b \<and> called_for items b path args \<longrightarrow>
      find_key b path (serialize_args args) (table w') \<noteq> None)"
proof -
  obtain before after where groups: "groups = before @ (source, items) # after"
    using assms(2) by (meson split_list)
  have others: "source \<notin> fst ` set before" "source \<notin> fst ` set after" using assms(1) groups by auto
  obtain sc1 w1 where one: "fold (poll_block_source x t) before (sc, w) = (sc1, w1)" by fastforce
  obtain sc2 w2 where two: "poll_block_source x t (source, items) (sc1, w1) = (sc2, w2)" by fastforce
  have three: "fold (poll_block_source x t) after (sc2, w2) = (sc', w')" using assms(5) groups one two by simp
  have c1: "map_of (last_processed_blocks sc1) source = Some n"
    using polls_other_cursor [OF others(1), of x t "(sc, w)"] one assms(3) by simp
  have ok1: "db_ok (table w1)"
    using keeps_rows_db_ok [OF polls_keep [of "(sc, w)" x t before]] one assms(4) by simp
  have ok2: "db_ok (table w2)"
    using keeps_rows_db_ok [OF poll_keeps [of "(sc1, w1)" x t "(source, items)"]] two ok1 by simp
  have "map_of (last_processed_blocks sc') source = map_of (last_processed_blocks sc2) source"
    using polls_other_cursor [OF others(2), of x t "(sc2, w2)"] three by simp
  then have "map_of (last_processed_blocks sc') source = Some (case poll_head t source of Inr b \<Rightarrow> max n b | Inl _ \<Rightarrow> n)"
    using poll_own_cursor [OF c1, of x t items w1] two by simp
  moreover have "find_key b path (serialize_args args) (table w') \<noteq> None"
    if "poll_head t source = Inr b" "n < b" "called_for items b path args" for b path args
  proof -
    have "find_key b path (serialize_args args) (table w2) \<noteq> None"
      using poll_row [OF ok1 c1 that, of x] two by simp
    then show ?thesis
      using keeps_rows_find [OF polls_keep [of "(sc2, w2)" x t after]] three ok2 by simp
  qed
  ultimately show ?thesis by blast
qed

definition sample_scheduler :: scheduler where
  "sample_scheduler = \<lparr>last_processed_blocks = [(LATEST_BLOCK_SOURCE, 99), (FINALIZED_BLOCK_SOURCE, 80)],
     observed_blocks = [], start_from_block = None, lookback_enabled = True, stale_task_timeout = Some 3600,
     stale_task_sweep_interval = 60, stale_task_batch_size = 100, last_reconcile_at = None,
     poll_interval = 5, sched_client = client_new ''finney'' None, sched_running = True\<rparr>"

text \<open>A round in which the finalized head cannot be read.\<close>

definition sample_tick :: tick where
  "sample_tick = \<lparr>start_head = (\<lambda>_. Inr 0),
     poll_head = (\<lambda>source. if finalized source then Inl ChainReadError else Inr 100),
     monotonic = 5, locked_rows = (\<lambda>_. False), broker_servers = (\<lambda>_. sample_server), contacts_in_place = [], interrupt = False,
     closing_net = stalled_net\<rparr>"

theorem heads_advance_independently_witness:
  "\<exists>sc' w'. fold (poll_block_source sample_ctx sample_tick) [(FINALIZED_BLOCK_SOURCE, []), (LATEST_BLOCK_SOURCE, [sample_item])]
      (sample_scheduler, sample_world) = (sc', w') \<and>
     map_of (last_processed_blocks sc') LATEST_BLOCK_SOURCE = Some 100 \<and>
     find_key 100 ''app.task'' (serialize_args []) (table w') \<noteq> None"
proof -
  let ?groups = "[(FINALIZED_BLOCK_SOURCE, []), (LATEST_BLOCK_SOURCE, [sample_item])]"
  obtain sc' w' where run: "fold (poll_block_source sample_ctx sample_tick) ?groups (sample_scheduler, sample_world) = (sc', w')"
    by fastforce
  have "distinct (map fst ?groups)" "(LATEST_BLOCK_SOURCE, [sample_item]) \<in> set ?groups"
    "map_of (last_processed_blocks sample_scheduler) LATEST_BLOCK_SOURCE = Some 99" "db_ok (table sample_world)"
    "poll_head sample_tick LATEST_BLOCK_SOURCE = Inr 100"
    by (simp_all add: LATEST_BLOCK_SOURCE_def FINALIZED_BLOCK_SOURCE_def sample_scheduler_def sample_world_def sample_tick_def)
  moreover have "called_for [sample_item] 100 ''app.task'' []"
    by (simp add: called_for_def sample_item_def item_path_def get_execution_args_def match_condition_def)
  ultimately show ?thesis
    using heads_advance_independently [OF _ _ _ _ run, of LATEST_BLOCK_SOURCE "[sample_item]" 99] run by fastforce
qed

end
