(* ===== verification/Time_Limits.thy ===== *)
theory Time_Limits
  imports Queue_Policy
begin

text \<open>
  Time limits of \<open>BlockDumper\<close> tasks (\<open>_internal/services/time_limits.py\<close>): where a limit comes
  from, the default hard limit, and the check that every soft limit stays below the hard limit it
  runs under.
\<close>

section \<open>Python values\<close>

text \<open>Truth of a value, as \<open>if value:\<close> tests it.\<close>

fun py_truth :: "pyval \<Rightarrow> bool" where
  "py_truth PyNone = False"
| "py_truth (PyBool b) = b"
| "py_truth (PyNum n) = (num n \<noteq> 0)"
| "py_truth (PyStr s) = (s \<noteq> [])"
| "py_truth _ = True"

text \<open>The value of an object in arithmetic; a \<open>bool\<close> is 0 or 1.\<close>

fun py_arith :: "pyval \<Rightarrow> rat option" where
  "py_arith (PyNum n) = Some (num n)"
| "py_arith (PyBool b) = Some (if b then 1 else 0)"
| "py_arith _ = None"

text \<open>\<open>value + seconds\<close> for a number of seconds.\<close>

definition py_add :: "pyval \<Rightarrow> seconds \<Rightarrow> seconds res" where
  "py_add v s = (case py_arith v of None \<Rightarrow> Inl (TypeError ''+'') | Some a \<Rightarrow> Inr (a + s))"

text \<open>\<open>a >= b\<close>: numbers, strings and \<open>datetime\<close>s compare among themselves.\<close>

definition py_ge :: "pyval \<Rightarrow> pyval \<Rightarrow> bool res" where
  "py_ge a b =
     (case (py_arith a, py_arith b) of
        (Some m, Some n) \<Rightarrow> Inr (n \<le> m)
      | _ \<Rightarrow> (case (a, b) of
          (PyStr s, PyStr t) \<Rightarrow> Inr (t \<le> s)
        | (PyTime s, PyTime t) \<Rightarrow> Inr (t \<le> s)
        | _ \<Rightarrow> Inl (TypeError ''>='')))"

section \<open>Where a limit comes from\<close>

record time_limit_value =
  tl_seconds :: pyval
  tl_source :: string

text \<open>What the limits read of a Celery app: its task class and its config.\<close>

record celery_limits =
  app_task :: pyval
  task_time_limit :: pyval
  task_soft_time_limit :: pyval

datatype limit_name = Hard | Soft

fun limit_key :: "limit_name \<Rightarrow> string" where
  "limit_key Hard = ''time_limit''"
| "limit_key Soft = ''soft_time_limit''"

text \<open>\<open>getattr(base, name)\<close> with the class's name.\<close>

fun class_limit :: "pyval \<Rightarrow> limit_name \<Rightarrow> (string \<times> pynum option) res" where
  "class_limit (PyTaskClass c hard soft) Hard = Inr (c, hard)"
| "class_limit (PyTaskClass c hard soft) Soft = Inr (c, soft)"
| "class_limit _ n = Inl (AttributeError (limit_key n))"

text \<open>\<open>celery_kwargs.get("base") or app.Task\<close>.\<close>

definition base_class :: "celery_limits \<Rightarrow> (string, pyval) dict \<Rightarrow> pyval" where
  "base_class app kwargs =
     (case map_of kwargs ''base'' of None \<Rightarrow> app_task app | Some b \<Rightarrow> if py_truth b then b else app_task app)"

definition task_attribute_limit ::
  "celery_limits \<Rightarrow> (string, pyval) dict \<Rightarrow> limit_name \<Rightarrow> time_limit_value option res" where
  "task_attribute_limit app kwargs name =
     (case map_of kwargs (limit_key name) of
        Some v \<Rightarrow> Inr (if py_truth v then Some \<lparr>tl_seconds = v, tl_source = ''celery_kwargs''\<rparr> else None)
      | None \<Rightarrow>
          (case class_limit (base_class app kwargs) name of
             Inl e \<Rightarrow> Inl e
           | Inr (c, None) \<Rightarrow> Inr None
           | Inr (c, Some l) \<Rightarrow>
               Inr (if num l \<noteq> 0 then Some \<lparr>tl_seconds = PyNum l, tl_source = c @ ''.'' @ limit_key name\<rparr> else None)))"

definition config_limit :: "celery_limits \<Rightarrow> limit_name \<Rightarrow> time_limit_value option" where
  "config_limit app name =
     (let seconds = (case name of Hard \<Rightarrow> task_time_limit app | Soft \<Rightarrow> task_soft_time_limit app)
      in if py_truth seconds then Some \<lparr>tl_seconds = seconds, tl_source = ''Celery's task_'' @ limit_key name\<rparr>
         else None)"

definition queue_limit :: "pynum option \<Rightarrow> time_limit_value option" where
  "queue_limit seconds = map_option (\<lambda>l. \<lparr>tl_seconds = PyNum l, tl_source = ''Queue''\<rparr>) seconds"

fun first_set :: "'a option list \<Rightarrow> 'a option" where
  "first_set [] = None"
| "first_set (Some l # ls) = Some l"
| "first_set (None # ls) = first_set ls"

section \<open>The default hard limit\<close>

definition has_default_hard_limit :: "settings \<Rightarrow> celery_limits \<Rightarrow> (string, pyval) dict \<Rightarrow> bool res" where
  "has_default_hard_limit s app kwargs =
     (case stale_task_settings s of
        Inl e \<Rightarrow> Inl e
      | Inr (timeout, _, _) \<Rightarrow>
          if timeout = None \<or> map_of kwargs ''time_limit'' \<noteq> None then Inr False
          else (case task_attribute_limit app kwargs Hard of
             Inl e \<Rightarrow> Inl e
           | Inr l \<Rightarrow> Inr (l = None \<and> config_limit app Hard = None)))"

text \<open>\<open>limit + margin for limit in soft_limits if limit\<close>.\<close>

fun soft_limits_with_margin :: "seconds \<Rightarrow> pyval list \<Rightarrow> seconds list res" where
  "soft_limits_with_margin margin [] = Inr []"
| "soft_limits_with_margin margin (v # vs) =
     (if \<not> py_truth v then soft_limits_with_margin margin vs
      else (case py_add v margin of
         Inl e \<Rightarrow> Inl e
       | Inr a \<Rightarrow> (case soft_limits_with_margin margin vs of Inl e \<Rightarrow> Inl e | Inr as \<Rightarrow> Inr (a # as))))"

definition opt_value :: "pynum option \<Rightarrow> pyval" where
  "opt_value l = (case l of None \<Rightarrow> PyNone | Some n \<Rightarrow> PyNum n)"

definition soft_limit_values :: "queue option list \<Rightarrow> time_limit_value option list \<Rightarrow> pyval list" where
  "soft_limit_values queues limits =
     map (\<lambda>q. opt_value (soft_time_limit q))
       (filter (\<lambda>q. time_limit q = None) (List.map_filter (\<lambda>q. q) queues)) @
     map tl_seconds (List.map_filter (\<lambda>l. l) limits)"

text \<open>\<open>None\<close> is the empty dictionary, \<open>Some t\<close> is \<open>{"time_limit": t}\<close>.\<close>

definition default_time_limit_options ::
  "settings \<Rightarrow> celery_limits \<Rightarrow> (string, pyval) dict \<Rightarrow> queue option list \<Rightarrow> seconds option res" where
  "default_time_limit_options s app kwargs queues =
     (case stale_task_settings s of
        Inl e \<Rightarrow> Inl e
      | Inr (None, _, _) \<Rightarrow> Inr None
      | Inr (Some timeout, _, _) \<Rightarrow>
          (case has_default_hard_limit s app kwargs of
             Inl e \<Rightarrow> Inl e
           | Inr False \<Rightarrow> Inr None
           | Inr True \<Rightarrow>
               (case recovery_margin_seconds s of
                  Inl e \<Rightarrow> Inl e
                | Inr margin \<Rightarrow>
                    (case task_attribute_limit app kwargs Soft of
                       Inl e \<Rightarrow> Inl e
                     | Inr soft \<Rightarrow>
                         (case soft_limits_with_margin margin
                                 (soft_limit_values queues [soft, config_limit app Soft]) of
                            Inl e \<Rightarrow> Inl e
                          | Inr ls \<Rightarrow> Inr (Some (fold max ls timeout)))))))"

section \<open>The check\<close>

text \<open>
  One round of the loop: \<open>soft.seconds >= hard.seconds\<close> raises. \<open>format_number\<close> in the message
  calls \<open>float\<close>, which raises \<open>TypeError\<close> for a \<open>datetime\<close> and \<open>ValueError\<close> for a
  string that is no number.
\<close>

definition check_limit_pair :: "time_limit_value option \<Rightarrow> time_limit_value option \<Rightarrow> unit res" where
  "check_limit_pair soft hard =
     (case (soft, hard) of
        (Some s, Some h) \<Rightarrow>
          (case py_ge (tl_seconds s) (tl_seconds h) of
             Inl e \<Rightarrow> Inl e
           | Inr False \<Rightarrow> Inr ()
           | Inr True \<Rightarrow> (case tl_seconds s of
               PyTime _ \<Rightarrow> Inl (TypeError ''float'')
             | _ \<Rightarrow> Inl (ValueError ''soft_time_limit must be lower than time_limit'')))
      | _ \<Rightarrow> Inr ())"

fun check_limit_pairs ::
  "time_limit_value option \<Rightarrow> time_limit_value option \<Rightarrow>
    (time_limit_value option \<times> time_limit_value option) list \<Rightarrow> unit res" where
  "check_limit_pairs task_soft task_hard [] = Inr ()"
| "check_limit_pairs task_soft task_hard ((soft, hard) # rest) =
     (case check_limit_pair (first_set [soft, task_soft]) (first_set [hard, task_hard]) of
        Inl e \<Rightarrow> Inl e
      | Inr _ \<Rightarrow> check_limit_pairs task_soft task_hard rest)"

text \<open>\<open>{queue.name: queue for queue in queues}\<close>.\<close>

definition queues_by_name :: "queue list \<Rightarrow> (string, queue) dict" where
  "queues_by_name queues = dict_update [] (map (\<lambda>q. (q_name q, q)) queues)"

definition check_time_limits ::
  "celery_limits \<Rightarrow> (string, pyval) dict \<Rightarrow> queue list \<Rightarrow> seconds option \<Rightarrow> unit res" where
  "check_time_limits app kwargs queues default_time_limit =
     (let default = (case default_time_limit of
            None \<Rightarrow> None
          | Some t \<Rightarrow> if t \<noteq> 0 then Some \<lparr>tl_seconds = PyNum (PFloat t), tl_source = ''the default hard limit''\<rparr>
              else None)
      in case task_attribute_limit app kwargs Soft of
        Inl e \<Rightarrow> Inl e
      | Inr attr_soft \<Rightarrow>
          (case task_attribute_limit app kwargs Hard of
             Inl e \<Rightarrow> Inl e
           | Inr attr_hard \<Rightarrow>
               check_limit_pairs (first_set [attr_soft, config_limit app Soft])
                 (first_set [attr_hard, default, config_limit app Hard])
                 (map (\<lambda>(n, q). (queue_limit (soft_time_limit q), queue_limit (time_limit q))) (queues_by_name queues)
                  @ [(None, None)])))"

section \<open>The limits a worker applies\<close>

text \<open>\<open>a or b\<close>.\<close>

definition value_or :: "pyval \<Rightarrow> pyval \<Rightarrow> pyval" where
  "value_or a b = (if py_truth a then a else b)"

text \<open>
  The attribute of a task created with \<open>options\<close>, and the limit a worker applies to a message that
  carries \<open>message\<close>: the message, else the task's attribute, else the config. A value that is not
  true means no limit.
\<close>

definition attribute_value :: "celery_limits \<Rightarrow> (string, pyval) dict \<Rightarrow> limit_name \<Rightarrow> pyval" where
  "attribute_value app options name =
     (case map_of options (limit_key name) of
        Some v \<Rightarrow> v
      | None \<Rightarrow> (case class_limit (base_class app options) name of Inl _ \<Rightarrow> PyNone | Inr (_, l) \<Rightarrow> opt_value l))"

definition worker_limit ::
  "celery_limits \<Rightarrow> (string, pyval) dict \<Rightarrow> pynum option \<Rightarrow> limit_name \<Rightarrow> pyval" where
  "worker_limit app options message name =
     value_or (opt_value message) (value_or (attribute_value app options name)
       (case name of Hard \<Rightarrow> task_time_limit app | Soft \<Rightarrow> task_soft_time_limit app))"

definition limits_in_order :: "celery_limits \<Rightarrow> (string, pyval) dict \<Rightarrow> queue option \<Rightarrow> bool" where
  "limits_in_order app options q \<longleftrightarrow>
     (let soft = worker_limit app options (Option.bind q soft_time_limit) Soft;
          hard = worker_limit app options (Option.bind q time_limit) Hard
      in py_truth soft \<longrightarrow> py_truth hard \<longrightarrow> py_ge soft hard = Inr False)"

text \<open>A \<open>TimeLimit | None\<close> of the check and the value a worker reads.\<close>

definition stands_for :: "time_limit_value option \<Rightarrow> pyval \<Rightarrow> bool" where
  "stands_for l v \<longleftrightarrow> (case l of None \<Rightarrow> \<not> py_truth v | Some t \<Rightarrow> tl_seconds t = v \<and> py_truth v)"

lemma stands_for_first_set:
  "stands_for l v \<Longrightarrow> stands_for m w \<Longrightarrow> stands_for (first_set [l, m]) (value_or v w)"
  by (cases l; cases m) (auto simp: stands_for_def value_or_def)

lemma stands_for_attribute:
  "task_attribute_limit app options n = Inr l \<Longrightarrow> stands_for l (attribute_value app options n)"
  by (auto simp: task_attribute_limit_def attribute_value_def stands_for_def opt_value_def
      split: option.splits sum.splits prod.splits if_splits)

lemma stands_for_config:
  "stands_for (config_limit app n)
     (case n of Hard \<Rightarrow> task_time_limit app | Soft \<Rightarrow> task_soft_time_limit app)"
  by (cases n) (simp_all add: config_limit_def stands_for_def Let_def)

lemma stands_for_queue:
  "(\<And>l. m = Some l \<Longrightarrow> num l > 0) \<Longrightarrow> stands_for (queue_limit m) (opt_value m)"
  by (cases m) (auto simp: queue_limit_def stands_for_def opt_value_def)

lemma check_limit_pair_ge:
  assumes "check_limit_pair s h = Inr ()" "stands_for s v" "stands_for h w" "py_truth v" "py_truth w"
  shows "py_ge v w = Inr False"
  using assms
  by (cases s; cases h) (auto simp: check_limit_pair_def stands_for_def split: sum.splits bool.splits pyval.splits)

lemma check_limit_pairs_all:
  "check_limit_pairs ts th ps = Inr () \<longleftrightarrow>
    (\<forall>(s, h) \<in> set ps. check_limit_pair (first_set [s, ts]) (first_set [h, th]) = Inr ())"
  by (induction ts th ps rule: check_limit_pairs.induct) (auto split: sum.splits)

text \<open>Equal Python numbers compare alike.\<close>

definition same_value :: "pyval \<Rightarrow> pyval \<Rightarrow> bool" where
  "same_value v w \<longleftrightarrow> v = w \<or> (\<exists>m n. v = PyNum m \<and> w = PyNum n \<and> num m = num n)"

lemma same_value_truth: "same_value v w \<Longrightarrow> py_truth v = py_truth w"
  by (auto simp: same_value_def)

lemma py_ge_cong: "same_value v v' \<Longrightarrow> same_value w w' \<Longrightarrow> py_ge v w = py_ge v' w'"
  unfolding same_value_def by (elim disjE exE conjE; cases v'; cases w') (simp_all add: py_ge_def)

lemma worker_limit_cong:
  assumes "same_num a b"
  shows "same_value (worker_limit app options a n) (worker_limit app options b n)"
proof (cases a)
  case None
  with assms have "b = None" by (simp add: same_num_def)
  with None show ?thesis by (simp add: same_value_def)
next
  case (Some m)
  with assms obtain m' where "b = Some m'" "num m = num m'" by (cases b) (auto simp: same_num_def)
  with Some show ?thesis by (auto simp: worker_limit_def same_value_def opt_value_def value_or_def)
qed

lemma limits_in_order_cong:
  assumes "same_queue q r" "limits_in_order app options (Some r)"
  shows "limits_in_order app options (Some q)"
proof -
  have soft: "same_value (worker_limit app options (soft_time_limit q) Soft)
      (worker_limit app options (soft_time_limit r) Soft)"
    and hard: "same_value (worker_limit app options (time_limit q) Hard) (worker_limit app options (time_limit r) Hard)"
    using assms(1) worker_limit_cong by (auto simp: same_queue_def)
  show ?thesis
    using assms(2) same_value_truth [OF soft] same_value_truth [OF hard] py_ge_cong [OF soft hard]
    by (simp add: limits_in_order_def Let_def)
qed

lemma queues_by_name_complete:
  assumes "q \<in> set qs"
  obtains q' where "(q_name q, q') \<in> set (queues_by_name qs)" "q' \<in> set qs" "q_name q' = q_name q"
proof -
  have "fst ` set (queues_by_name qs) = q_name ` set qs"
    by (simp add: queues_by_name_def dict_update_keys image_image)
  then have "q_name q \<in> fst ` set (queues_by_name qs)" using assms by simp
  then obtain q' where q': "(q_name q, q') \<in> set (queues_by_name qs)" by auto
  moreover have "set (queues_by_name qs) \<subseteq> (\<lambda>q. (q_name q, q)) ` set qs"
    using set_dict_update [of "[]" "map (\<lambda>q. (q_name q, q)) qs"] by (simp add: queues_by_name_def)
  ultimately have "(q_name q, q') \<in> (\<lambda>q. (q_name q, q)) ` set qs" by blast
  then show ?thesis using that [OF q'] by auto
qed

text \<open>
  What \<^const>\<open>check_time_limits\<close> accepts, for a worker: each listed queue, and messages without queue
  limits, have their limits in order. The options of the task may add the default hard limit and
  replace the base class by one with the same limits.
\<close>

definition effective_options :: "celery_limits \<Rightarrow> (string, pyval) dict \<Rightarrow> seconds option \<Rightarrow> (string, pyval) dict \<Rightarrow> bool" where
  "effective_options app kwargs dflt options \<longleftrightarrow>
     attribute_value app options Soft = attribute_value app kwargs Soft \<and>
     attribute_value app options Hard =
       (case dflt of Some t \<Rightarrow> if py_truth (attribute_value app kwargs Hard) \<or> t = 0 then attribute_value app kwargs Hard
          else PyNum (PFloat t) | None \<Rightarrow> attribute_value app kwargs Hard)"

lemma check_time_limits_sound:
  assumes "check_time_limits app kwargs queues dflt = Inr ()" and "effective_options app kwargs dflt options"
  shows "limits_in_order app options None \<and>
    (\<forall>(n, q) \<in> set (queues_by_name queues). valid_queue q \<longrightarrow> limits_in_order app options (Some q))"
proof -
  let ?d = "case dflt of None \<Rightarrow> None | Some t \<Rightarrow> if t \<noteq> 0
      then Some \<lparr>tl_seconds = PyNum (PFloat t), tl_source = ''the default hard limit''\<rparr> else None"
  obtain s h where s: "task_attribute_limit app kwargs Soft = Inr s" and h: "task_attribute_limit app kwargs Hard = Inr h"
    and pairs: "check_limit_pairs (first_set [s, config_limit app Soft]) (first_set [h, ?d, config_limit app Hard])
      (map (\<lambda>(n, q). (queue_limit (soft_time_limit q), queue_limit (time_limit q))) (queues_by_name queues)
        @ [(None, None)]) = Inr ()"
    using assms(1) by (auto simp: check_time_limits_def Let_def split: sum.splits)
  have soft: "stands_for (first_set [s, config_limit app Soft])
      (value_or (attribute_value app options Soft) (task_soft_time_limit app))"
    using stands_for_first_set [OF stands_for_attribute [OF s] stands_for_config [of app Soft]] assms(2)
    by (simp add: effective_options_def)
  have hard: "stands_for (first_set [h, ?d, config_limit app Hard])
      (value_or (attribute_value app options Hard) (task_time_limit app))"
    using stands_for_attribute [OF h] stands_for_config [of app Hard] assms(2)
    by (cases h; cases dflt) (auto simp: effective_options_def stands_for_def value_or_def split: option.splits if_splits)
  have order: "limits_in_order app options q"
    if "check_limit_pair (first_set [a, first_set [s, config_limit app Soft]])
        (first_set [b, first_set [h, ?d, config_limit app Hard]]) = Inr ()"
      "stands_for a (opt_value (Option.bind q soft_time_limit))" "stands_for b (opt_value (Option.bind q time_limit))"
    for a b q
    using check_limit_pair_ge [OF that(1) stands_for_first_set [OF that(2) soft] stands_for_first_set [OF that(3) hard]]
    by (simp add: limits_in_order_def worker_limit_def Let_def)
  show ?thesis
  proof (intro conjI ballI, safe)
    show "limits_in_order app options None"
      using pairs order [of None None None] by (simp add: check_limit_pairs_all stands_for_def opt_value_def)
  next
    fix n q assume "(n, q) \<in> set (queues_by_name queues)" "valid_queue q"
    moreover from this pairs have "check_limit_pair (first_set [queue_limit (soft_time_limit q), first_set [s, config_limit app Soft]])
        (first_set [queue_limit (time_limit q), first_set [h, ?d, config_limit app Hard]]) = Inr ()"
      by (auto simp: check_limit_pairs_all)
    ultimately show "limits_in_order app options (Some q)"
      using order stands_for_queue by (simp add: valid_queue_def)
  qed
qed

end
