(* ===== verification/Block_Dumper.thy ===== *)
theory Block_Dumper
  imports Time_Limits Task_Runner
begin

text \<open>
  Registering tasks on a \<open>BlockDumper\<close> (\<open>_internal/services/block_dumper.py\<close>): the checks of
  \<open>block_task\<close>, the registration of the queues, and the options the Celery task is created with.
  Celery itself is outside this repository: a created task is known here by its name and options.
\<close>

section \<open>BlockDumper\<close>

text \<open>\<open>BlockDumper(celery_app, block_time_seconds=...)\<close>; \<open>i\<close> is the identity of the new object.\<close>

definition block_dumper_new ::
  "bool \<Rightarrow> nat \<Rightarrow> nat \<Rightarrow> string \<Rightarrow> pyval \<Rightarrow> dumper_registry \<Rightarrow> dumper_registry res" where
  "block_dumper_new ready i app main block_time reg =
     (if \<not> is_positive_number block_time then Inl (ValueError ''block_time_seconds must be a positive number'')
      else register_dumper ready \<lparr>dumper_id = i, celery_app = app, app_main = main,
        bd_block_time = num (get_num block_time), bd_queues = []\<rparr> reg)"

text \<open>The arguments of \<open>block_task\<close>, which Python does not type-check.\<close>

datatype queue_arg = NoQueue | AQueue queue | NotAQueue

datatype condition_arg = NoCondition | ACallable "int \<Rightarrow> jdict \<Rightarrow> bool res" | NotCallable

record task_call =
  tc_live_queue :: queue_arg
  tc_backfill_queue :: queue_arg
  tc_condition :: condition_arg
  tc_args :: "jdict list option"
  tc_finalized :: bool
  tc_lookback :: "int option"
  tc_celery_kwargs :: "(string, pyval) dict option"

fun given_queue :: "queue_arg \<Rightarrow> queue option" where
  "given_queue (AQueue q) = Some q"
| "given_queue _ = None"

definition effective_condition :: "condition_arg \<Rightarrow> int \<Rightarrow> jdict \<Rightarrow> bool res" where
  "effective_condition c = (case c of ACallable f \<Rightarrow> f | _ \<Rightarrow> (\<lambda>_ _. Inr True))"

text \<open>\<open>celery_kwargs or {}\<close>.\<close>

definition task_options :: "task_call \<Rightarrow> (string, pyval) dict" where
  "task_options c = (case tc_celery_kwargs c of None \<Rightarrow> [] | Some k \<Rightarrow> k)"

definition call_queues :: "task_call \<Rightarrow> queue list" where
  "call_queues c = List.map_filter given_queue [tc_live_queue c, tc_backfill_queue c]"

text \<open>The checks \<open>block_task\<close> makes before it registers anything; the result is the default hard limit.\<close>

definition check_call :: "settings \<Rightarrow> celery_limits \<Rightarrow> task_call \<Rightarrow> seconds option res" where
  "check_call s app c =
     (if tc_live_queue c = NotAQueue \<or> tc_backfill_queue c = NotAQueue
        then Inl (ValueError ''BlockDumper queues must be Queue instances'')
      else if tc_lookback c \<noteq> None \<and> tc_backfill_queue c = NoQueue
        then Inl (ValueError ''backfilling_lookback requires backfill_queue'')
      else if tc_condition c = NotCallable then Inl (TypeError ''condition must be a callable.'')
      else (case check_recovery_settings s of
         Inl e \<Rightarrow> Inl e
       | Inr _ \<Rightarrow>
           (case default_time_limit_options s app (task_options c)
                   [given_queue (tc_live_queue c), given_queue (tc_backfill_queue c)] of
              Inl e \<Rightarrow> Inl e
            | Inr limit \<Rightarrow>
                (case check_time_limits app (task_options c) (call_queues c) limit of
                   Inl e \<Rightarrow> Inl e
                 | Inr _ \<Rightarrow> Inr limit))))"

text \<open>\<open>self._queues.update(...)\<close>.\<close>

definition add_queues :: "nat \<Rightarrow> queue list \<Rightarrow> dumper_registry \<Rightarrow> dumper_registry" where
  "add_queues i qs reg = reg\<lparr>dr_dumpers := map (\<lambda>d. if dumper_id d = i
     then d\<lparr>bd_queues := dict_update (bd_queues d) (queues_by_name qs)\<rparr> else d) (dr_dumpers reg)\<rparr>"

definition register_call ::
  "settings \<Rightarrow> celery_limits \<Rightarrow> block_dumper \<Rightarrow> task_call \<Rightarrow> dumper_registry \<Rightarrow> seconds option res \<times> dumper_registry" where
  "register_call s app self c reg =
     (case check_call s app c of
        Inl e \<Rightarrow> (Inl e, reg)
      | Inr limit \<Rightarrow>
          (case register_queues (dumper_id self) (call_queues c) reg of
             Inl e \<Rightarrow> (Inl e, reg)
           | Inr reg' \<Rightarrow> (Inr limit, add_queues (dumper_id self) (call_queues c) reg')))"

text \<open>
  \<open>_sending_live_limits\<close>: a subclass inherits the limits of its base. Its \<open>apply_async\<close> is
  \<^const>\<open>live_limits_options\<close>.
\<close>

fun sending_live_limits :: "pyval \<Rightarrow> pyval res" where
  "sending_live_limits (PyTaskClass c hard soft) = Inr (PyTaskClass ''LiveLimitsTask'' hard soft)"
| "sending_live_limits _ = Inl (TypeError ''base'')"

text \<open>The options \<open>celery_app.task\<close> gets.\<close>

definition created_options ::
  "celery_limits \<Rightarrow> queue \<Rightarrow> seconds option \<Rightarrow> (string, pyval) dict \<Rightarrow> (string, pyval) dict res" where
  "created_options app live limit kwargs =
     (case sending_live_limits (base_class app kwargs) of
        Inl e \<Rightarrow> Inl e
      | Inr base \<Rightarrow> Inr (dict_update
          (dict_update (case limit of None \<Rightarrow> [] | Some t \<Rightarrow> [(''time_limit'', PyNum (PFloat t))]) kwargs)
          [(''queue'', PyStr (q_name live)), (''base'', base)]))"

text \<open>Keywords the call of \<open>celery_app.task\<close> names itself: giving them again raises.\<close>

definition repeats_keyword :: "string list \<Rightarrow> (string, pyval) dict \<Rightarrow> bool" where
  "repeats_keyword names kwargs = list_ex (\<lambda>k. map_of kwargs k \<noteq> None) names"

text \<open>The decorator: creates the Celery task and registers it. The queues are registered by then.\<close>

definition decorate ::
  "celery_limits \<Rightarrow> block_dumper \<Rightarrow> task_call \<Rightarrow> seconds option \<Rightarrow> task_function \<Rightarrow> memory_registry \<Rightarrow>
    (registry_item \<times> (string, pyval) dict) res \<times> memory_registry" where
  "decorate app self c limit fn tasks =
     (case given_queue (tc_live_queue c) of
        None \<Rightarrow> (Inl (AttributeError ''name''), tasks)
      | Some live \<Rightarrow>
          (case created_options app live limit (task_options c) of
             Inl e \<Rightarrow> (Inl e, tasks)
           | Inr options \<Rightarrow>
               if repeats_keyword [''name'', ''bind'', ''shared''] (task_options c)
               then (Inl (TypeError ''got multiple values for keyword argument''), tasks) else
               let item = \<lparr>condition = effective_condition (tc_condition c),
                     item_function = \<lparr>func_name = Some (get_executable_path fn), func_module = fn_module fn,
                       func_dunder_name = fn_name fn\<rparr>,
                     item_args = tc_args c,
                     block_source = (if tc_finalized c then FINALIZED_BLOCK_SOURCE else LATEST_BLOCK_SOURCE),
                     backfilling_lookback = tc_lookback c,
                     backfill_queue = map_option Policy (given_queue (tc_backfill_queue c)),
                     celery_kwargs = task_options c, live_queue = Some live,
                     block_time_seconds = bd_block_time self\<rparr>
               in (Inr (item, options), register_item item tasks)))"

text \<open>\<open>@dumper.block_task(...)\<close> over a function: the call, then the decorator it returns.\<close>

definition dumper_block_task ::
  "settings \<Rightarrow> celery_limits \<Rightarrow> block_dumper \<Rightarrow> task_call \<Rightarrow> task_function \<Rightarrow> dumper_registry \<times> memory_registry \<Rightarrow>
    (registry_item \<times> (string, pyval) dict) res \<times> dumper_registry \<times> memory_registry" where
  "dumper_block_task s app self c fn regs =
     (case register_call s app self c (fst regs) of
        (Inl e, reg) \<Rightarrow> (Inl e, reg, snd regs)
      | (Inr limit, reg) \<Rightarrow> (case decorate app self c limit fn (snd regs) of (r, tasks) \<Rightarrow> (r, reg, tasks)))"

section \<open>What a registration guarantees\<close>

lemma add_queues_sel [simp]:
  "dr_queues (add_queues i qs reg) = dr_queues reg" "dr_queue_owners (add_queues i qs reg) = dr_queue_owners reg"
  "registry_ok (add_queues i qs reg) = registry_ok reg"
  by (simp_all add: add_queues_def registry_ok_def)

text \<open>The default hard limit is given exactly where nothing else limits the task and the sweep is on.\<close>

definition sweep_on :: "settings \<Rightarrow> bool" where
  "sweep_on s \<longleftrightarrow> (\<exists>timeout interval batch. stale_task_settings s = Inr (Some timeout, interval, batch))"

lemma fold_max_ge: "t \<le> fold max ls (t :: rat)"
proof (induction ls arbitrary: t)
  case (Cons l ls)
  have "t \<le> max l t" by simp
  also have "\<dots> \<le> fold max ls (max l t)" by (rule Cons.IH)
  finally show ?case by simp
qed simp

lemma default_limit_cases:
  assumes "default_time_limit_options s app kwargs qs = Inr d" and "recovery_ok s"
  shows "case d of
      Some t \<Rightarrow> 0 < t \<and> map_of kwargs ''time_limit'' = None \<and> \<not> py_truth (attribute_value app kwargs Hard)
    | None \<Rightarrow> sweep_on s \<longrightarrow> map_of kwargs ''time_limit'' \<noteq> None \<or>
        py_truth (attribute_value app kwargs Hard) \<or> py_truth (task_time_limit app)"
proof -
  from assms(2) obtain timeout interval batch margin where
    st: "stale_task_settings s = Inr (timeout, interval, batch)" and mg: "recovery_margin_seconds s = Inr margin"
    and pos: "\<And>t. timeout = Some t \<Longrightarrow> 0 < t" by (rule recovery_okE) metis
  show ?thesis
  proof (cases timeout)
    case None
    then show ?thesis using assms(1) st by (simp add: default_time_limit_options_def sweep_on_def)
  next
    case (Some t)
    then obtain b where b: "has_default_hard_limit s app kwargs = Inr b"
      using assms(1) st by (auto simp: default_time_limit_options_def split: sum.splits)
    show ?thesis
    proof (cases b)
      case True
      with b st have key: "map_of kwargs ''time_limit'' = None" and attr: "task_attribute_limit app kwargs Hard = Inr None"
        by (auto simp: has_default_hard_limit_def split: if_splits sum.splits)
      obtain ls where d: "d = Some (fold max ls t)"
        using assms(1) st Some b True mg by (auto simp: default_time_limit_options_def split: sum.splits)
      have "0 < fold max ls t" using pos [OF Some] fold_max_ge [of t ls] by linarith
      then show ?thesis
        using key stands_for_attribute [OF attr] d by (simp add: stands_for_def)
    next
      case False
      then have d: "d = None" using assms(1) st Some b by (simp add: default_time_limit_options_def)
      show ?thesis
      proof (cases "map_of kwargs ''time_limit'' = None")
        case True
        with False b st Some obtain l where l: "task_attribute_limit app kwargs Hard = Inr l"
          and "l \<noteq> None \<or> config_limit app Hard \<noteq> None"
          by (auto simp: has_default_hard_limit_def split: sum.splits)
        then show ?thesis
          using d stands_for_attribute [OF l] stands_for_config [of app Hard] by (auto simp: stands_for_def)
      qed (simp add: d)
    qed
  qed
qed

lemma attribute_value_created:
  assumes "created_options app live d kwargs = Inr options" and "distinct (map fst kwargs)"
  shows "attribute_value app options n =
    (case d of
       Some t \<Rightarrow> if n = Hard \<and> map_of kwargs ''time_limit'' = None then PyNum (PFloat t) else attribute_value app kwargs n
     | None \<Rightarrow> attribute_value app kwargs n)"
proof -
  let ?d = "case d of None \<Rightarrow> [] | Some t \<Rightarrow> [(''time_limit'', PyNum (PFloat t))]"
  from assms(1) obtain c hard soft where base: "base_class app kwargs = PyTaskClass c hard soft"
    by (cases "base_class app kwargs") (auto simp: created_options_def)
  with assms(1) have options: "map_of options =
      (map_of ?d ++ map_of kwargs) (''queue'' \<mapsto> PyStr (q_name live), ''base'' \<mapsto> PyTaskClass ''LiveLimitsTask'' hard soft)"
    using map_of_dict_update [OF assms(2), of ?d] by (auto simp: created_options_def update_conv')
  then have base': "base_class app options = PyTaskClass ''LiveLimitsTask'' hard soft"
    by (simp add: base_class_def)
  show ?thesis
    using base base' by (cases n; cases d; cases "map_of kwargs (limit_key n)")
      (auto simp: attribute_value_def options map_add_def)
qed

lemma created_effective:
  assumes "default_time_limit_options s app kwargs qs = Inr d" and "recovery_ok s"
    and "created_options app live d kwargs = Inr options" and "distinct (map fst kwargs)"
  shows "effective_options app kwargs d options"
    and "sweep_on s \<Longrightarrow> map_of kwargs ''time_limit'' = None \<Longrightarrow> py_truth (worker_limit app options message Hard)"
proof -
  note cs = default_limit_cases [OF assms(1,2)] and attr = attribute_value_created [OF assms(3,4)]
  show "effective_options app kwargs d options"
    using cs by (cases d) (auto simp: effective_options_def attr)
  show "py_truth (worker_limit app options message Hard)" if "sweep_on s" "map_of kwargs ''time_limit'' = None"
    using cs that by (cases d) (auto simp: worker_limit_def value_or_def attr)
qed

lemma call_accepted:
  assumes "registry_ok reg" and "register_call s app self c reg = (Inr d, reg')"
  shows "registry_ok reg' \<and> recovery_ok s \<and>
    default_time_limit_options s app (task_options c) [given_queue (tc_live_queue c), given_queue (tc_backfill_queue c)] = Inr d \<and>
    check_time_limits app (task_options c) (call_queues c) d = Inr () \<and>
    (tc_lookback c \<noteq> None \<longrightarrow> (\<exists>q. tc_backfill_queue c = AQueue q)) \<and>
    (\<forall>q \<in> set (call_queues c). map_of (dr_queue_owners reg') (q_name q) = Some (dumper_id self)) \<and>
    (\<forall>q \<in> set (call_queues c). \<forall>r \<in> set (call_queues c). q_name q = q_name r \<longrightarrow> same_queue q r)"
proof -
  from assms(2) obtain reg1 where call: "check_call s app c = Inr d"
    and qs: "register_queues (dumper_id self) (call_queues c) reg = Inr reg1"
    and reg': "reg' = add_queues (dumper_id self) (call_queues c) reg1"
    by (auto simp: register_call_def split: sum.splits)
  obtain accepted where own: "\<And>n. map_of (dr_queue_owners reg1) n =
       (if map_of accepted n = None then map_of (dr_queue_owners reg) n else Some (dumper_id self))"
    and all: "\<And>q. q \<in> set (call_queues c) \<Longrightarrow> \<exists>e'. map_of accepted (q_name q) = Some e' \<and> same_queue q e'"
    using register_queues_lookup [OF qs assms(1)] by metis
  have same: "same_queue q r" if "q \<in> set (call_queues c)" "r \<in> set (call_queues c)" "q_name q = q_name r" for q r
  proof -
    note qr = that
    obtain e where e: "map_of accepted (q_name q) = Some e" "same_queue q e" using all [OF qr(1)] by blast
    obtain e' where e': "map_of accepted (q_name r) = Some e'" "same_queue r e'" using all [OF qr(2)] by blast
    have "e' = e" using e(1) e'(1) qr(3) by simp
    then show ?thesis using same_queue_trans [OF e(2)] same_queue_sym [OF e'(2)] by simp
  qed
  have "map_of (dr_queue_owners reg') (q_name q) = Some (dumper_id self)" if "q \<in> set (call_queues c)" for q
    using all [OF that] own by (auto simp: reg')
  moreover have "tc_lookback c \<noteq> None \<longrightarrow> (\<exists>q. tc_backfill_queue c = AQueue q)"
    using call by (cases "tc_backfill_queue c") (auto simp: check_call_def split: if_splits)
  moreover have "recovery_ok s \<and> check_time_limits app (task_options c) (call_queues c) d = Inr () \<and>
      default_time_limit_options s app (task_options c)
        [given_queue (tc_live_queue c), given_queue (tc_backfill_queue c)] = Inr d"
    using call by (auto simp: check_call_def recovery_ok_def split: if_splits sum.splits)
  ultimately show ?thesis using same register_queues_ok [OF qs assms(1)] by (simp add: reg')
qed

lemma registered_limits:
  assumes "check_time_limits app kwargs qs d = Inr ()" and "effective_options app kwargs d options"
    and "\<And>q r. q \<in> set qs \<Longrightarrow> r \<in> set qs \<Longrightarrow> q_name q = q_name r \<Longrightarrow> same_queue q r"
    and "\<And>q. q \<in> set qs \<Longrightarrow> valid_queue q" and "m \<in> insert None (Some ` set qs)"
  shows "limits_in_order app options m"
proof (cases m)
  case None
  then show ?thesis using check_time_limits_sound [OF assms(1,2)] by simp
next
  case (Some q)
  with assms(5) have q: "q \<in> set qs" by auto
  obtain q' where q': "(q_name q, q') \<in> set (queues_by_name qs)" "q' \<in> set qs" "q_name q' = q_name q"
    using q by (rule queues_by_name_complete)
  have "limits_in_order app options (Some q')"
    using check_time_limits_sound [OF assms(1,2)] q'(1) assms(4) [OF q'(2)] by auto
  then show ?thesis
    using Some limits_in_order_cong [OF assms(3) [OF q q'(2) q'(3) [symmetric]]] by simp
qed

text \<open>
  C12. A \<open>BlockDumper\<close> accepts only well-formed tasks. For a live queue and a base task class: a task that is
  rejected is not registered. When the checks or a conflict between queues reject it, the queues are as
  before too; when Celery does, because \<open>celery_kwargs\<close> repeats \<open>name\<close>, \<open>bind\<close> or \<open>shared\<close>, its queues
  stay registered for this dumper. When \<open>block_task\<close> returns, \<open>celery_kwargs\<close> repeats none of these, the item
  is appended under the function's path, a lookback comes with a backfill queue, every queue of the task belongs to this dumper under one policy, and a worker's soft limit is below
  its hard limit for messages of each of these queues and for messages without queue limits. With the
  stuck-task sweep on and \<open>time_limit\<close> not set in \<open>celery_kwargs\<close>, every message has a hard limit.
\<close>

theorem registered_task_is_well_formed:
  assumes "registry_ok reg" and "tc_live_queue c = AQueue live"
    and "\<And>q. q \<in> set (call_queues c) \<Longrightarrow> valid_queue q"
    and "distinct (map fst (task_options c))" and "base_class app (task_options c) = PyTaskClass b hard soft"
    and "dumper_block_task s app self c fn (reg, tasks) = (r, reg', tasks')"
  shows "case r of
      Inl e \<Rightarrow> tasks' = tasks \<and>
        (case register_call s app self c reg of
           (Inl e', _) \<Rightarrow> e = e' \<and> reg' = reg
         | (Inr _, reg1) \<Rightarrow> e = TypeError ''got multiple values for keyword argument'' \<and>
             repeats_keyword [''name'', ''bind'', ''shared''] (task_options c) \<and> reg' = reg1 \<and>
             (\<forall>q \<in> set (call_queues c). map_of (dr_queue_owners reg') (q_name q) = Some (dumper_id self)))
    | Inr (item, options) \<Rightarrow>
        \<not> repeats_keyword [''name'', ''bind'', ''shared''] (task_options c) \<and> tasks' = tasks @ [item] \<and> dumper_item item \<and> item_path item = get_executable_path fn \<and>
        (requires_backfilling item \<longrightarrow> (\<exists>q. backfill_queue item = Some (Policy q))) \<and> registry_ok reg' \<and>
        (\<forall>q \<in> set (call_queues c). map_of (dr_queue_owners reg') (q_name q) = Some (dumper_id self)) \<and>
        (\<forall>m \<in> insert None (Some ` set (call_queues c)). limits_in_order app options m) \<and>
        (sweep_on s \<longrightarrow> map_of (task_options c) ''time_limit'' = None \<longrightarrow>
          (\<forall>message. py_truth (worker_limit app options message Hard)))"
proof (cases "fst (register_call s app self c reg)")
  case (Inl e)
  then have "register_call s app self c reg = (Inl e, reg)"
    by (auto simp: register_call_def split: sum.splits)
  then show ?thesis using assms(6) by (auto simp: dumper_block_task_def)
next
  case (Inr d)
  then obtain reg1 where call: "register_call s app self c reg = (Inr d, reg1)" by (metis prod.collapse)
  note acc = call_accepted [OF assms(1) call]
  then have rec: "recovery_ok s" and lim: "check_time_limits app (task_options c) (call_queues c) d = Inr ()"
    and dflt: "default_time_limit_options s app (task_options c)
      [given_queue (tc_live_queue c), given_queue (tc_backfill_queue c)] = Inr d"
    and same: "\<And>q r. q \<in> set (call_queues c) \<Longrightarrow> r \<in> set (call_queues c) \<Longrightarrow> q_name q = q_name r \<Longrightarrow> same_queue q r"
    by simp_all
  from assms(5) obtain options where opts: "created_options app live d (task_options c) = Inr options"
    by (simp add: created_options_def)
  note eff = created_effective [OF dflt rec opts assms(4)]
  let ?dup = "repeats_keyword [''name'', ''bind'', ''shared''] (task_options c)"
  show ?thesis
  proof (cases ?dup)
    case True
    then have "r = Inl (TypeError ''got multiple values for keyword argument'')" "reg' = reg1" "tasks' = tasks"
      using assms(6) call opts by (simp_all add: dumper_block_task_def decorate_def assms(2) Let_def)
    then show ?thesis using True call acc by simp
  next
    case fresh: False
    obtain item where r: "r = Inr (item, options)" "reg' = reg1" "tasks' = tasks @ [item]"
      and item: "item_path item = get_executable_path fn" "live_queue item = Some live" "celery_kwargs item = task_options c"
        "backfilling_lookback item = tc_lookback c" "backfill_queue item = map_option Policy (given_queue (tc_backfill_queue c))"
      using assms(6) call opts fresh
      by (auto simp: dumper_block_task_def decorate_def assms(2) Let_def register_item_def item_path_def)
    have "\<forall>m \<in> insert None (Some ` set (call_queues c)). limits_in_order app options m"
      by (rule ballI) (rule registered_limits [OF lim eff(1) same assms(3)])
    moreover have "requires_backfilling item \<longrightarrow> (\<exists>q. backfill_queue item = Some (Policy q))"
      using acc by (auto simp: requires_backfilling_def item)
    moreover have "sweep_on s \<longrightarrow> map_of (task_options c) ''time_limit'' = None \<longrightarrow>
        (\<forall>message. py_truth (worker_limit app options message Hard))"
      using eff(2) by simp
    ultimately show ?thesis
      using r item(1-3) acc assms(4) fresh by (simp add: dumper_item_def)
  qed
qed

definition sample_limits :: celery_limits where
  "sample_limits = \<lparr>app_task = PyTaskClass ''Task'' None None, task_time_limit = PyNone,
     task_soft_time_limit = PyNum (PInt 2000)\<rparr>"

definition sample_call :: task_call where
  "sample_call = \<lparr>tc_live_queue = AQueue (sample_queue\<lparr>q_name := ''live'', time_limit := None\<rparr>),
     tc_backfill_queue = AQueue (sample_queue\<lparr>time_limit := Some (PInt 3600)\<rparr>), tc_condition = NoCondition,
     tc_args = None, tc_finalized = False, tc_lookback = Some 300, tc_celery_kwargs = None\<rparr>"

definition sample_self :: block_dumper where
  "sample_self = \<lparr>dumper_id = 1, celery_app = 1, app_main = ''app'', bd_block_time = 12, bd_queues = []\<rparr>"

lemma sample_call_queues:
  "call_queues sample_call = [sample_queue\<lparr>q_name := ''live'', time_limit := None\<rparr>,
     sample_queue\<lparr>time_limit := Some (PInt 3600)\<rparr>]"
  by (simp add: call_queues_def sample_call_def List.map_filter_def)

lemma sample_default_limit:
  "default_time_limit_options default_settings sample_limits [] (map Some (call_queues sample_call)) = Inr (Some 2010)"
  by (simp add: default_time_limit_options_def stale_task_settings_def default_settings_def Let_def
      has_default_hard_limit_def task_attribute_limit_def base_class_def sample_limits_def config_limit_def
      recovery_margin_seconds_def soft_limit_values_def sample_call_queues sample_queue_def List.map_filter_def
      opt_value_def py_add_def)

lemma sample_time_limits:
  "check_time_limits sample_limits [] (call_queues sample_call) (Some 2010) = Inr ()"
  by (simp add: check_time_limits_def task_attribute_limit_def base_class_def sample_limits_def config_limit_def
      queues_by_name_def sample_call_queues sample_queue_def Let_def queue_limit_def check_limit_pair_def py_ge_def)

lemma sample_check: "check_call default_settings sample_limits sample_call = Inr (Some 2010)"
proof -
  have "check_recovery_settings default_settings = Inr ()"
    by (simp add: check_recovery_settings_def stale_task_settings_def recovery_margin_seconds_def default_settings_def Let_def)
  then show ?thesis
    using sample_default_limit sample_time_limits
    by (simp add: check_call_def sample_call_def task_options_def call_queues_def List.map_filter_def)
qed

lemma sample_registration:
  "\<exists>item options reg'.
     dumper_block_task default_settings sample_limits sample_self sample_call (sample_function (Returns JNull))
       (empty_dumper_registry, []) = (Inr (item, options), reg', [item]) \<and>
     requires_backfilling item \<and> map_of options ''time_limit'' = Some (PyNum (PFloat 2010))"
proof -
  have "\<exists>reg. register_queues (dumper_id sample_self) (call_queues sample_call) empty_dumper_registry = Inr reg"
    by (simp add: register_queues_def empty_dumper_registry_def sample_call_queues sample_queue_def)
  then obtain reg where "register_queues (dumper_id sample_self) (call_queues sample_call) empty_dumper_registry = Inr reg" ..
  then have call: "register_call default_settings sample_limits sample_self sample_call empty_dumper_registry =
      (Inr (Some 2010), add_queues (dumper_id sample_self) (call_queues sample_call) reg)"
    by (simp add: register_call_def sample_check)
  show ?thesis
    unfolding dumper_block_task_def fst_conv snd_conv call
    by (simp add: decorate_def created_options_def register_item_def repeats_keyword_def
        sample_call_def task_options_def base_class_def sample_limits_def requires_backfilling_def Let_def)
qed

lemma sample_call_valid: "q \<in> set (call_queues sample_call) \<Longrightarrow> valid_queue q"
  by (auto simp: sample_call_queues sample_queue_def valid_queue_def strip_def is_space_def
      valid_retry_policy_def default_retry_policy_def)

theorem registered_task_is_well_formed_witness:
  "\<exists>item options reg'.
     dumper_block_task default_settings sample_limits sample_self sample_call (sample_function (Returns JNull))
       (empty_dumper_registry, []) = (Inr (item, options), reg', [item]) \<and>
     (\<exists>q. backfill_queue item = Some (Policy q)) \<and> map_of options ''time_limit'' = Some (PyNum (PFloat 2010)) \<and>
     (\<forall>m \<in> insert None (Some ` set (call_queues sample_call)). limits_in_order sample_limits options m)"
proof -
  obtain item options reg' where call:
    "dumper_block_task default_settings sample_limits sample_self sample_call (sample_function (Returns JNull))
       (empty_dumper_registry, []) = (Inr (item, options), reg', [item])"
    "requires_backfilling item" "map_of options ''time_limit'' = Some (PyNum (PFloat 2010))"
    using sample_registration by blast
  have "tc_live_queue sample_call = AQueue (sample_queue\<lparr>q_name := ''live'', time_limit := None\<rparr>)"
    "distinct (map fst (task_options sample_call))"
    "base_class sample_limits (task_options sample_call) = PyTaskClass ''Task'' None None"
    by (simp_all add: sample_call_def task_options_def base_class_def sample_limits_def)
  from registered_task_is_well_formed [OF registry_ok_empty this(1) sample_call_valid this(2,3) call(1)] call
  show ?thesis by auto
qed

text \<open>
  A recovery margin of 0 is a valid setting, and then the default hard limit can equal a soft limit of
  the config: the task is refused although nobody set a hard limit.
\<close>

lemma zero_margin_refuses_soft_limit:
  assumes "s = default_settings\<lparr>BLOCK_DUMPER_RECOVERY_MARGIN_SECONDS := Some (PyNum (PInt 0))\<rparr>"
  shows "check_recovery_settings s = Inr ()"
    and "default_time_limit_options s sample_limits [] [] = Inr (Some 2000)"
    and "check_time_limits sample_limits [] [] (Some 2000) = Inl (ValueError ''soft_time_limit must be lower than time_limit'')"
  unfolding assms
  by (simp_all add: check_recovery_settings_def stale_task_settings_def recovery_margin_seconds_def default_settings_def
      Let_def default_time_limit_options_def has_default_hard_limit_def task_attribute_limit_def base_class_def
      sample_limits_def config_limit_def soft_limit_values_def List.map_filter_def py_add_def check_time_limits_def
      queues_by_name_def check_limit_pair_def py_ge_def)

end
