(* ===== verification/Block_Task.thy ===== *)
theory Block_Task
  imports Block_Dumper Celery_Executor
begin

text \<open>
  \<open>@block_task\<close> tasks (\<open>v1/decorators.py\<close>): the decorator, and the wrapper a worker runs. The
  wrapper holds the row lock of its attempt in one transaction from the claim to the outcome, so other
  processes see the row as it was until the transaction commits, and unchanged when it rolls back.
\<close>

section \<open>The worker's wrapper\<close>

text \<open>
  The delivery of a message: the id of the Celery task, the answer to \<open>SELECT ... FOR UPDATE NOWAIT\<close>
  (\<open>None\<close> when the lock is granted, else the codes of the \<open>OperationalError\<close>), what other processes do
  while the function runs, whether the transaction can still be used after the function, what they do
  between its commit and the scheduling of the retry, when the row is no longer locked, and how long the
  function takes.
\<close>

record wrapper_delivery =
  wd_task_id :: string
  wd_lock_error :: "(string option \<times> string option) option"
  wd_meanwhile :: "world \<Rightarrow> world"
  wd_usable :: bool
  wd_after_commit :: "world \<Rightarrow> world"
  wd_duration :: seconds

text \<open>
  How the block of the transaction is left: by a \<open>return\<close>, with a failure that was committed, or by an exit of
  the function, which \<open>except Exception\<close> does not catch: it leaves the block and rolls the transaction back.
\<close>

datatype transaction_exit = Returned "json option" | FailureCommitted task_attempt | FunctionExited string

text \<open>
  The \<open>except\<close> branch inside the transaction. An exception of \<open>task_mark_as_failed\<close> leaves the block
  and rolls the transaction back. \<open>unsaveable\<close>: the loaded attempt still holds a result its JSON
  column refuses, so saving it raises.
\<close>

definition wrapper_failed ::
  "ctx \<Rightarrow> wrapper_delivery \<Rightarrow> string \<Rightarrow> task_attempt \<Rightarrow> bool \<Rightarrow> db \<Rightarrow> transaction_exit action" where
  "wrapper_failed x v name task unsaveable d w =
     (case task_mark_as_failed (clk w) (cfg x) task d of
        Inl e \<Rightarrow> (Inl e, w)
      | Inr (task', d') \<Rightarrow>
          if unsaveable then (Inl (TypeError ''execution_result''), w)
          else if \<not> wd_usable v then (Inl (UserError ''TransactionManagementError''), w)
          else (Inr (FailureCommitted task'), observe_task_execution_time name (wd_duration v)
            (record_task_execution name ''failed'' (w\<lparr>table := d'\<rparr>))))"

definition wrapper_transaction ::
  "ctx \<Rightarrow> wrapper_delivery \<Rightarrow> task_function \<Rightarrow> int \<Rightarrow> jdict \<Rightarrow> transaction_exit action" where
  "wrapper_transaction x v f block kwargs w =
     (let path = get_executable_path f; name = last_part path
      in case wd_lock_error v of
           Some (sqlstate, pgcode) \<Rightarrow>
             (Inl (if is_lock_not_available sqlstate pgcode
                then CeleryTaskLockedError ''Task already being processed by another worker''
                else OperationalError), w)
         | None \<Rightarrow>
             (case find_attempt block path (serialize_args (db_kwargs kwargs)) (table w) of
                None \<Rightarrow> (Inl (CeleryTaskLockedError ''TaskAttempt not found''), w)
              | Some task \<Rightarrow>
                  if status task \<noteq> PENDING then (Inr (Returned None), w)
                  else
                    let w1 = wd_meanwhile v w;
                        (task', d) = task_mark_as_started (clk w1) task (wd_task_id v) (table w1)
                    in (case body f (execution_kwargs f block kwargs) of
                          Returns val \<Rightarrow>
                            (case task_mark_as_success (clk w1) task' (stored_result val) d of
                               (task'', d') \<Rightarrow>
                                 if wd_usable v
                                 then (Inr (Returned (Some (JDict [(''result'', val)]))),
                                   observe_task_execution_time name (wd_duration v)
            (record_task_execution name ''success'' (w1\<lparr>table := d'\<rparr>)))
                                 else wrapper_failed x v name task'' False d w1)
                        | ReturnsUnserializable \<Rightarrow>
                            wrapper_failed x v name (task'\<lparr>status := SUCCESS, next_retry_at := None\<rparr>) True d w1
                        | Raises e \<Rightarrow> wrapper_failed x v name task' False d w1
                        | Exits m \<Rightarrow> (Inr (FunctionExited m), w1))))"

text \<open>The retry, after the transaction has been committed and with the attempt as it was loaded.\<close>

definition retry_after_commit :: "ctx \<Rightarrow> task_attempt \<Rightarrow> world \<Rightarrow> world" where
  "retry_after_commit x task w =
     (if task_can_retry (cfg x) task then snd (schedule_retry x task w) else w)"

definition celery_task_wrapper ::
  "ctx \<Rightarrow> wrapper_delivery \<Rightarrow> task_function \<Rightarrow> int \<Rightarrow> jdict \<Rightarrow> world \<Rightarrow> (raised + json option) \<times> world" where
  "celery_task_wrapper x v f block kwargs w =
     (case wrapper_transaction x v f block kwargs w of
        (Inl e, w') \<Rightarrow> (Inl (Raised e), w')
      | (Inr (FunctionExited m), w') \<Rightarrow> (Inl (Exited m), w')
      | (Inr (Returned res), w') \<Rightarrow> (Inr res, w')
      | (Inr (FailureCommitted task), w') \<Rightarrow> (Inr None, retry_after_commit x task (wd_after_commit v w')))"

section \<open>The decorator\<close>

definition block_task ::
  "condition_arg \<Rightarrow> jdict list option \<Rightarrow> bool \<Rightarrow> int option \<Rightarrow> pyval \<Rightarrow> (string, pyval) dict option \<Rightarrow>
    task_function \<Rightarrow> memory_registry \<Rightarrow> registry_item res \<times> memory_registry" where
  "block_task cond args fin lookback queue kwargs f tasks =
     (case (case queue of
              PyNone \<Rightarrow> Inr None
            | PyStr q \<Rightarrow> if strip q = [] then Inl (ValueError ''backfill_queue'') else Inr (Some (strip q))
            | _ \<Rightarrow> Inl (ValueError ''backfill_queue'')) of
        Inl e \<Rightarrow> (Inl e, tasks)
      | Inr target \<Rightarrow>
          if cond = NotCallable then (Inl (TypeError ''condition must be a callable.''), tasks)
          else if repeats_keyword [''name'', ''bind''] (case kwargs of None \<Rightarrow> [] | Some k \<Rightarrow> k)
          then (Inl (TypeError ''got multiple values for keyword argument''), tasks)
          else
            let item = \<lparr>condition = effective_condition cond,
                  item_function = \<lparr>func_name = Some (get_executable_path f), func_module = fn_module f,
                    func_dunder_name = fn_name f\<rparr>,
                  item_args = args,
                  block_source = (if fin then FINALIZED_BLOCK_SOURCE else LATEST_BLOCK_SOURCE),
                  backfilling_lookback = lookback, backfill_queue = map_option Name target,
                  celery_kwargs = (case kwargs of None \<Rightarrow> [] | Some k \<Rightarrow> k), live_queue = None,
                  block_time_seconds = 12\<rparr>
            in (Inr item, register_item item tasks))"

section \<open>Rows a transition writes\<close>

lemma row_save:
  assumes "db_ok d" "row (attempt_id r) d = Some r0" "attempt_key r = attempt_key r0"
  shows "row j (save t r d) = (if j = attempt_id r then Some (r\<lparr>updated_at := t\<rparr>) else row j d)" "db_ok (save t r d)"
proof -
  let ?f = "\<lambda>x. if x = r0 then r\<lparr>updated_at := t\<rparr> else x"
  have key: "keeps_key ?f" using assms(3) row_id [OF assms(2)] by (simp add: keeps_key_def attempt_key_def)
  have "save t r d = snd (update_by_id (attempt_id r) (\<lambda>_. True) ?f d)"
    by (rule save_as_update [OF assms(1,2)]) simp
  then show "row j (save t r d) = (if j = attempt_id r then Some (r\<lparr>updated_at := t\<rparr>) else row j d)"
    using assms(2) key by (simp add: row_update_by_id option.map_ident)
  show "db_ok (save t r d)" using keeps_rows_db_ok [OF keeps_rows_save [OF assms(2,3)] assms(1)] .
qed

text \<open>
  What \<open>schedule_retry\<close> leaves: the row is PENDING again whatever becomes of the message, and with the
  task registered and the broker at hand one message is sent for the time of the retry.
\<close>

definition retry_message :: "registry_item \<Rightarrow> task_attempt \<Rightarrow> jdict \<Rightarrow> instant \<Rightarrow> message" where
  "retry_message item task args eta =
     \<lparr>msg_task = item_path item, msg_kwargs = dict_update [(''block_number'', JInt (block_number task))] args,
      msg_options = [(''eta'', PyTime eta)] @
        (case celery_queue_override task of None \<Rightarrow> [] | Some q \<Rightarrow> [(''queue'', PyStr q)])\<rparr>"

lemma schedule_retry_row:
  assumes "db_ok (table w)" "row (attempt_id task) (table w) = Some task" "status task = FAILED"
    "next_retry_at task = Some eta"
  shows "row (attempt_id task) (table (snd (schedule_retry x task w))) =
    Some (task\<lparr>status := PENDING, updated_at := py_now (clk w)\<rparr>)"
proof -
  let ?t = "task\<lparr>status := PENDING, updated_at := py_now (clk w)\<rparr>"
  have retry: "task_schedule_to_retry (clk w) task (celery_queue_override task) (table w) = (?t, save (py_now (clk w)) ?t (table w))"
    by (simp add: task_schedule_to_retry_def Let_def)
  have "row (attempt_id task) (save (py_now (clk w)) ?t (table w)) = Some (?t\<lparr>updated_at := py_now (clk w)\<rparr>)"
    using row_save(1) [OF assms(1), of ?t task] assms(2) by (simp add: attempt_key_def)
  moreover have "table (snd (schedule_retry x task w)) = save (py_now (clk w)) ?t (table w)"
    using assms(3,4) by (simp add: schedule_retry_def retry apply_async_def Let_def split: option.split sum.split)
  ultimately show ?thesis by simp
qed

lemma schedule_retry_sent:
  assumes "status task = FAILED" "next_retry_at task = Some eta"
    "get_by_executable_path (executable_path task) (registry x) = Some item" "live_queue item = None"
    "stored_args task = Inr args" "\<forall>m. broker_accepts x m"
  shows "sent (snd (schedule_retry x task w)) = sent w @ [retry_message item task args eta]"
  using assms
  by (auto simp: schedule_retry_def task_schedule_to_retry_def apply_async_def Let_def retry_message_def stored_args_def
      args_dict_def split: option.splits sum.splits)

text \<open>The attempt as the wrapper leaves it after a success and after a failure.\<close>

definition started :: "clocks \<Rightarrow> string \<Rightarrow> task_attempt \<Rightarrow> task_attempt" where
  "started c token r = r\<lparr>celery_task_id := Some token, status := RUNNING, last_attempted_at := Some (py_now c),
     updated_at := py_now c\<rparr>"

lemma mark_as_started:
  assumes "db_ok d" "row (attempt_id r) d = Some r"
  shows "fst (task_mark_as_started c r token d) = started c token r"
    "row (attempt_id r) (snd (task_mark_as_started c r token d)) = Some (started c token r)"
    "db_ok (snd (task_mark_as_started c r token d))"
  using row_save [OF assms(1), of "started c token r" r] assms(2)
  by (simp_all add: task_mark_as_started_def started_def attempt_key_def Let_def)

lemma mark_as_success:
  assumes "db_ok d" "row (attempt_id r) d = Some r"
  shows "\<exists>a. row (attempt_id r) (snd (task_mark_as_success c r v d)) = Some a \<and> status a = SUCCESS \<and>
    execution_result a = v \<and> next_retry_at a = None \<and> attempt_count a = attempt_count r \<and> celery_task_id a = celery_task_id r"
  using row_save(1) [OF assms(1), of "r\<lparr>status := SUCCESS, execution_result := v, last_attempted_at := Some (py_now c),
      next_retry_at := None, updated_at := py_now c\<rparr>" r] assms(2)
  by (simp add: task_mark_as_success_def attempt_key_def Let_def)

lemma mark_as_failed:
  assumes "db_ok d" "row (attempt_id r) d = Some r" "task_mark_as_failed c s r d = Inr (task, d')"
  shows "row (attempt_id r) d' = Some task \<and> db_ok d' \<and> attempt_id task = attempt_id r \<and> attempt_key task = attempt_key r \<and>
    celery_queue_override task = celery_queue_override r \<and> status task = FAILED \<and> attempt_count task = attempt_count r + 1 \<and>
    (task_can_retry s task \<longleftrightarrow> int (attempt_count r + 1) < get_max_attempt_limit s) \<and>
    (if task_can_retry s task then \<exists>delay. get_retry_delay_seconds s (attempt_count r + 1) = Inr delay \<and>
        next_retry_at task = Some (py_now c + delay) else next_retry_at task = None)"
proof -
  have saved: "d' = save (py_now c) task d" "updated_at task = py_now c"
    and task: "attempt_id task = attempt_id r" "attempt_key task = attempt_key r" "status task = FAILED"
      "celery_queue_override task = celery_queue_override r"
      "attempt_count task = attempt_count r + 1"
      "task_can_retry s task \<longleftrightarrow> int (attempt_count r + 1) < get_max_attempt_limit s"
      "if task_can_retry s task then \<exists>delay. get_retry_delay_seconds s (attempt_count r + 1) = Inr delay \<and>
        next_retry_at task = Some (py_now c + delay) else next_retry_at task = None"
    using assms(3)
    by (auto simp: task_mark_as_failed_def task_can_retry_def attempt_key_def Let_def split: if_splits sum.splits)
  have "task\<lparr>updated_at := py_now c\<rparr> = task" using saved(2) by simp
  then show ?thesis
    using row_save(1) [OF assms(1), of task r "attempt_id r" "py_now c"] row_save(2) [OF assms(1), of task r "py_now c"]
      assms(2) saved(1) task by simp
qed

lemma task_mark_as_failed_ok:
  assumes "\<And>n. \<exists>delay. get_retry_delay_seconds s n = Inr delay"
  shows "\<exists>task d'. task_mark_as_failed c s r d = Inr (task, d')"
proof -
  obtain delay where "get_retry_delay_seconds s (attempt_count r + 1) = Inr delay" using assms by blast
  then show ?thesis by (auto simp: task_mark_as_failed_def Let_def)
qed

lemma wrapper_failed_commits:
  assumes "wd_usable v" "task_mark_as_failed (clk w) (cfg x) task d = Inr (task', d')"
  shows "wrapper_failed x v name task False d w =
    (Inr (FailureCommitted task'), observe_task_execution_time name (wd_duration v)
            (record_task_execution name ''failed'' (w\<lparr>table := d'\<rparr>)))"
  using assms by (simp add: wrapper_failed_def)

text \<open>A committed failure, once its retry was scheduled on a row nobody touched.\<close>

lemma retry_after_commit_row:
  assumes "db_ok (table w)" "row (attempt_id task) (table w) = Some task" "status task = FAILED"
    "task_can_retry (cfg x) task \<Longrightarrow> next_retry_at task = Some eta"
  shows "row (attempt_id task) (table (retry_after_commit x task w)) =
    Some (if task_can_retry (cfg x) task then task\<lparr>status := PENDING, updated_at := py_now (clk w)\<rparr> else task)"
  using schedule_retry_row [OF assms(1-3)] assms(2,4) by (simp add: retry_after_commit_def)

section \<open>Properties\<close>

text \<open>
  While the wrapper holds the lock of the row of \<open>task\<close>, others leave that row alone; after the commit
  they may not.
\<close>

definition respects_lock :: "wrapper_delivery \<Rightarrow> task_attempt \<Rightarrow> world \<Rightarrow> bool" where
  "respects_lock v task w \<longleftrightarrow> wd_lock_error v = None \<and> db_ok (table (wd_meanwhile v w)) \<and>
     row (attempt_id task) (table (wd_meanwhile v w)) = row (attempt_id task) (table w)"

definition leaves_alone :: "(world \<Rightarrow> world) \<Rightarrow> task_attempt \<Rightarrow> bool" where
  "leaves_alone h task \<longleftrightarrow> (\<forall>w. db_ok (table w) \<longrightarrow>
     db_ok (table (h w)) \<and> row (attempt_id task) (table (h w)) = row (attempt_id task) (table w))"

text \<open>How the transaction goes on once it has the lock of a PENDING attempt.\<close>

lemma wrapper_claimed:
  assumes "db_ok (table w)" and "respects_lock v task w" and "wd_usable v"
    and "find_attempt block (get_executable_path f) (serialize_args (db_kwargs kwargs)) (table w) = Some task"
    and "status task = PENDING"
  obtains s d w1 name where "s = started (clk w1) (wd_task_id v) task" "w1 = wd_meanwhile v w"
    "db_ok d" "row (attempt_id s) d = Some s" "row (attempt_id task) (table w1) = Some task"
    "wrapper_transaction x v f block kwargs w =
      (case body f (execution_kwargs f block kwargs) of
         Returns val \<Rightarrow> (Inr (Returned (Some (JDict [(''result'', val)]))), observe_task_execution_time name (wd_duration v)
            (record_task_execution name ''success'' (w1\<lparr>table := snd (task_mark_as_success (clk w1) s (stored_result val) d)\<rparr>)))
       | ReturnsUnserializable \<Rightarrow> wrapper_failed x v name (s\<lparr>status := SUCCESS, next_retry_at := None\<rparr>) True d w1
       | Raises e \<Rightarrow> wrapper_failed x v name s False d w1
       | Exits m \<Rightarrow> (Inr (FunctionExited m), w1))"
proof -
  let ?w1 = "wd_meanwhile v w" and ?name = "last_part (get_executable_path f)"
  let ?s = "started (clk ?w1) (wd_task_id v) task"
  have row: "row (attempt_id task) (table w) = Some task"
    using assms(4) find_key_eq_Some [OF assms(1)] row_eq_Some [OF assms(1)] by (auto simp: find_attempt_def)
  then have lock: "wd_lock_error v = None" and w1: "db_ok (table ?w1)" "row (attempt_id task) (table ?w1) = Some task"
    using assms(2) by (auto simp: respects_lock_def)
  obtain d where started: "task_mark_as_started (clk ?w1) task (wd_task_id v) (table ?w1) = (?s, d)"
    and d: "db_ok d" "row (attempt_id ?s) d = Some ?s"
    using mark_as_started [OF w1, of "clk ?w1" "wd_task_id v"] by (auto simp: started_def prod_eq_iff)
  have wrap: "wrapper_transaction x v f block kwargs w =
      (case body f (execution_kwargs f block kwargs) of
         Returns val \<Rightarrow> (Inr (Returned (Some (JDict [(''result'', val)]))), observe_task_execution_time ?name (wd_duration v)
            (record_task_execution ?name ''success'' (?w1\<lparr>table := snd (task_mark_as_success (clk ?w1) ?s (stored_result val) d)\<rparr>)))
       | ReturnsUnserializable \<Rightarrow> wrapper_failed x v ?name (?s\<lparr>status := SUCCESS, next_retry_at := None\<rparr>) True d ?w1
       | Raises e \<Rightarrow> wrapper_failed x v ?name ?s False d ?w1
       | Exits m \<Rightarrow> (Inr (FunctionExited m), ?w1))"
    using lock assms(3,4,5)
    by (simp add: wrapper_transaction_def started Let_def case_prod_beta split: outcome.split)
  show ?thesis by (rule that [OF refl refl d w1(2) wrap])
qed

text \<open>
  C10. The run of a claimed \<open>@block_task\<close> attempt, for every outcome of its function, when the transaction can
  still be used after it, the delays can be computed, others respect the row lock and nobody touches the row
  between the commit and the retry. A result is stored with SUCCESS. A raised \<open>Exception\<close> counts one try; below
  the limit the row is PENDING again for the time of the retry (and its message is sent when the task is
  registered and the broker takes it), at the limit it stays FAILED for good; the worker never sees the
  exception. A result that JSON cannot hold is not recorded at all: the exception escapes, the row is
  as before the run and the try is not counted. So it is when the function exits: the exit escapes and
  nothing of the run is recorded.
\<close>

theorem block_task_run_is_recorded:
  assumes "db_ok (table w)" and "respects_lock v task w" and "wd_usable v" and "leaves_alone (wd_after_commit v) task"
    and "find_attempt block (get_executable_path f) (serialize_args (db_kwargs kwargs)) (table w) = Some task"
    and "status task = PENDING"
    and "\<And>n. \<exists>delay. get_retry_delay_seconds (cfg x) n = Inr delay"
    and "celery_task_wrapper x v f block kwargs w = (r, w')"
  shows "case body f (execution_kwargs f block kwargs) of
      Returns val \<Rightarrow> r = Inr (Some (JDict [(''result'', val)])) \<and>
        (\<exists>a. row (attempt_id task) (table w') = Some a \<and> status a = SUCCESS \<and> execution_result a = stored_result val \<and>
          celery_task_id a = Some (wd_task_id v) \<and> next_retry_at a = None \<and> attempt_count a = attempt_count task)
    | Raises e \<Rightarrow> r = Inr None \<and>
        (\<exists>a w1. row (attempt_id task) (table w') = Some a \<and> attempt_count a = attempt_count task + 1 \<and>
          sent w1 = sent (wd_meanwhile v w) \<and>
          (if int (attempt_count task + 1) < get_max_attempt_limit (cfg x)
           then status a = PENDING \<and>
             (\<exists>delay eta. get_retry_delay_seconds (cfg x) (attempt_count task + 1) = Inr delay \<and>
                eta = py_now (clk (wd_meanwhile v w)) + delay \<and> next_retry_at a = Some eta \<and>
                (\<forall>item args. get_by_executable_path (executable_path task) (registry x) = Some item \<longrightarrow>
                   live_queue item = None \<longrightarrow> stored_args task = Inr args \<longrightarrow> (\<forall>m. broker_accepts x m) \<longrightarrow>
                   sent w' = sent (wd_after_commit v w1) @ [retry_message item task args eta]))
           else status a = FAILED \<and> next_retry_at a = None \<and> w' = wd_after_commit v w1))
    | ReturnsUnserializable \<Rightarrow> (\<exists>e. r = Inl (Raised e)) \<and> row (attempt_id task) (table w') = Some task \<and>
        sent w' = sent (wd_meanwhile v w)
    | Exits m \<Rightarrow> r = Inl (Exited m) \<and> row (attempt_id task) (table w') = Some task \<and> w' = wd_meanwhile v w"
proof -
  obtain s d w1 name where s: "s = started (clk w1) (wd_task_id v) task" and w1: "w1 = wd_meanwhile v w"
    and d: "db_ok d" "row (attempt_id s) d = Some s" and row: "row (attempt_id task) (table w1) = Some task"
    and wrap: "wrapper_transaction x v f block kwargs w =
      (case body f (execution_kwargs f block kwargs) of
         Returns val \<Rightarrow> (Inr (Returned (Some (JDict [(''result'', val)]))), observe_task_execution_time name (wd_duration v)
            (record_task_execution name ''success'' (w1\<lparr>table := snd (task_mark_as_success (clk w1) s (stored_result val) d)\<rparr>)))
       | ReturnsUnserializable \<Rightarrow> wrapper_failed x v name (s\<lparr>status := SUCCESS, next_retry_at := None\<rparr>) True d w1
       | Raises e \<Rightarrow> wrapper_failed x v name s False d w1
       | Exits m \<Rightarrow> (Inr (FunctionExited m), w1))"
    by (rule wrapper_claimed [OF assms(1-3,5,6), where x = x])
  show ?thesis
  proof (cases "body f (execution_kwargs f block kwargs)")
    case (Returns val)
    then show ?thesis
      using wrap assms(8) w1 mark_as_success [OF d, of "clk w1" "stored_result val"]
      by (auto simp: s started_def celery_task_wrapper_def)
  next
    case ReturnsUnserializable
    then show ?thesis
      using wrap assms(8) row w1 by (auto simp: wrapper_failed_def celery_task_wrapper_def split: sum.splits)
  next
    case (Exits m)
    then show ?thesis using wrap assms(8) row w1 by (simp add: celery_task_wrapper_def)
  next
    case (Raises e)
    obtain t d' where t: "task_mark_as_failed (clk w1) (cfg x) s d = Inr (t, d')"
      using task_mark_as_failed_ok [OF assms(7)] by blast
    note failed = mark_as_failed [OF d t]
    define w2 where "w2 = observe_task_execution_time name (wd_duration v)
            (record_task_execution name ''failed'' (w1\<lparr>table := d'\<rparr>))"
    have w2: "table w2 = d'" "sent w2 = sent (wd_meanwhile v w)" by (simp_all add: w2_def w1)
    have run: "r = Inr None" "w' = retry_after_commit x t (wd_after_commit v w2)"
      using wrap assms(8) Raises wrapper_failed_commits [OF assms(3) t] by (simp_all add: celery_task_wrapper_def w2_def)
    have same: "executable_path t = executable_path task" "stored_args t = stored_args task"
        "retry_message i t = retry_message i task" "attempt_id t = attempt_id task" for i
      using failed by (auto simp: s started_def attempt_key_def stored_args_def retry_message_def fun_eq_iff)
    have gap: "db_ok (table (wd_after_commit v w2))" "row (attempt_id t) (table (wd_after_commit v w2)) = Some t"
      using assms(4) failed same(4) w2(1) by (simp_all add: leaves_alone_def)
    obtain eta where eta: "task_can_retry (cfg x) t \<Longrightarrow> next_retry_at t = Some eta" using failed by metis
    have final: "row (attempt_id task) (table w') =
        Some (if task_can_retry (cfg x) t then t\<lparr>status := PENDING, updated_at := py_now (clk (wd_after_commit v w2))\<rparr> else t)"
      unfolding run(2) same(4) [symmetric] by (rule retry_after_commit_row [OF gap _ eta]) (use failed in blast)+
    have "sent w' = sent (wd_after_commit v w2) @ [retry_message item task args eta]"
      if "task_can_retry (cfg x) t" "get_by_executable_path (executable_path task) (registry x) = Some item"
        "live_queue item = None" "stored_args task = Inr args" "\<forall>m. broker_accepts x m" for item args
      using schedule_retry_sent [of t eta x item args] that eta failed same run(2) by (simp add: retry_after_commit_def)
    moreover have "w' = wd_after_commit v w2" if "\<not> task_can_retry (cfg x) t"
      using that run(2) by (simp add: retry_after_commit_def)
    ultimately show ?thesis
      using Raises run(1) w1 failed final eta w2(2)
      by (cases "task_can_retry (cfg x) t") (auto simp: s started_def intro!: exI [of _ w2])
  qed
qed

definition sample_wrapper_delivery :: wrapper_delivery where
  "sample_wrapper_delivery = \<lparr>wd_task_id = ''m1'', wd_lock_error = None, wd_meanwhile = (\<lambda>w. w), wd_usable = True,
     wd_after_commit = (\<lambda>w. w), wd_duration = 1\<rparr>"

lemma default_retry_delays: "\<exists>delay. get_retry_delay_seconds default_settings n = Inr delay"
  using settings_delay_eq(1) [of default_settings "legacy_retry_policy default_settings" 60 1 n]
  by (auto simp: settings_retry_policy_def uses_staged_settings_def legacy_retry_policy_def default_settings_def)

theorem block_task_run_is_recorded_witness:
  "\<exists>w' a. celery_task_wrapper sample_ctx sample_wrapper_delivery (sample_function (Raises (UserError ''boom''))) 100 []
      (sample_world\<lparr>table := sample_pending\<rparr>) = (Inr None, w') \<and>
    row 0 (table w') = Some a \<and> status a = PENDING \<and> attempt_count a = 1"
proof -
  let ?f = "sample_function (Raises (UserError ''boom''))" and ?w = "sample_world\<lparr>table := sample_pending\<rparr>"
    and ?t = "new_attempt 0 100 ''app.task'' ''{}'' 1000"
  have find: "find_attempt 100 (get_executable_path ?f) (serialize_args (db_kwargs [])) (table ?w) = Some ?t"
    by (simp add: find_attempt_def find_key_def sample_pending_def get_executable_path_def sample_function_def
        db_kwargs_def popped_def serialize_args_def dumps_def)
  have ok: "db_ok (table ?w)" using sample_pending_ok by (simp add: table_ok_def)
  then have lock: "respects_lock sample_wrapper_delivery ?t ?w" "wd_usable sample_wrapper_delivery"
      "leaves_alone (wd_after_commit sample_wrapper_delivery) ?t"
    by (simp_all add: respects_lock_def leaves_alone_def sample_wrapper_delivery_def)
  obtain r w' where run: "celery_task_wrapper sample_ctx sample_wrapper_delivery ?f 100 [] ?w = (r, w')"
    by (metis surj_pair)
  have "status ?t = PENDING" "attempt_count ?t = 0" "attempt_id ?t = 0" by (simp_all add: new_attempt_def)
  moreover have "body ?f kw = Raises (UserError ''boom'')" for kw by (simp add: sample_function_def)
  moreover have "get_max_attempt_limit (cfg sample_ctx) = 3" "cfg sample_ctx = default_settings"
    by (simp_all add: get_max_attempt_limit_def sample_ctx_def default_settings_def)
  ultimately show ?thesis
    using block_task_run_is_recorded [OF ok lock find _ _ run] default_retry_delays run by auto
qed

end
