(* ===== verification/Checks.thy ===== *)
theory Checks
  imports Block_Dumper Celery_Config
begin

text \<open>
  The Django system checks of \<open>BlockDumper\<close> queues (\<open>_internal/checks.py\<close>): which warnings
  \<open>manage.py check\<close> gives, and that the warnings about the Celery config and the broker appear exactly
  when the installation of the queues at start-up would fail.
\<close>

section \<open>Warnings\<close>

datatype check_warning =
    W000 exn
  | W001 string
  | W002 string
  | W003 string
  | W004 string
  | W005 string "seconds list"
  | W006 string

text \<open>RabbitMQ's default \<open>consumer_timeout\<close>, which both contacts report.\<close>

definition RABBITMQ_DEFAULT_CONSUMER_TIMEOUT_SECONDS :: seconds where
  "RABBITMQ_DEFAULT_CONSUMER_TIMEOUT_SECONDS = 1800"

definition unacked_timeout_seconds :: "seconds option" where
  "unacked_timeout_seconds = Some RABBITMQ_DEFAULT_CONSUMER_TIMEOUT_SECONDS"

text \<open>\<open>configured\<close>: the project sets \<open>task_queues\<close>.\<close>

definition project_queue :: "bool \<Rightarrow> app \<Rightarrow> string \<Rightarrow> kombu_queue option" where
  "project_queue configured a name = (if \<not> configured then None else map_of (app_queues a) name)"

definition queues_of :: "registry_item \<Rightarrow> queue list" where
  "queues_of item =
     (case live_queue item of None \<Rightarrow> [] | Some q \<Rightarrow> [q]) @
     (case backfill_queue item of Some (Policy q) \<Rightarrow> [q] | _ \<Rightarrow> [])"

text \<open>The default hard limits of the tasks that have one, in the order of the tasks.\<close>

fun task_default_limits :: "settings \<Rightarrow> celery_limits \<Rightarrow> registry_item list \<Rightarrow> seconds list res" where
  "task_default_limits s cl [] = Inr []"
| "task_default_limits s cl (item # items) =
     (case has_default_hard_limit s cl (celery_kwargs item) of
        Inl e \<Rightarrow> Inl e
      | Inr has \<Rightarrow>
          (case (if has then default_time_limit_options s cl (celery_kwargs item) (map Some (queues_of item)) else Inr None) of
             Inl e \<Rightarrow> Inl e
           | Inr l \<Rightarrow>
               (case task_default_limits s cl items of
                  Inl e \<Rightarrow> Inl e
                | Inr ls \<Rightarrow> Inr ((case l of None \<Rightarrow> [] | Some t \<Rightarrow> [t]) @ ls))))"

text \<open>The distinct limits, lowest first.\<close>

definition default_hard_limits :: "settings \<Rightarrow> celery_limits \<Rightarrow> queue_usage \<Rightarrow> seconds list res" where
  "default_hard_limits s cl usage =
     (case task_default_limits s cl (u_tasks usage) of Inl e \<Rightarrow> Inl e | Inr ls \<Rightarrow> Inr (sort (remdups ls)))"

definition check_queue ::
  "settings \<Rightarrow> derivation \<Rightarrow> app \<Rightarrow> celery_limits \<Rightarrow> bool \<Rightarrow> queue_usage \<Rightarrow> check_warning list res" where
  "check_queue s derive a cl configured usage =
     (let q = u_queue usage; name = q_name q;
          expected = declared_arguments derive (queue_definition a q);
          project = map_option (declared_arguments derive) (project_queue configured a name);
          w1 = (case project of None \<Rightarrow> [] | Some p \<Rightarrow> if \<not> same_dict p expected then [W001 name] else []);
          w2 = (if LIVE \<in> u_roles usage \<and> named_as_backfill_queue usage \<and> throttle q = None then [W002 name] else []);
          w3 = (if throttle q \<noteq> None \<and> BACKFILL \<notin> u_roles usage then [W003 name] else []);
          w6 = (case unacked_timeout_seconds of None \<Rightarrow> []
            | Some t \<Rightarrow> if num (max_delay (retry q)) > t then [W006 name] else [])
      in case (if time_limit q = None then default_hard_limits s cl usage else Inr []) of
           Inl e \<Rightarrow> Inl e
         | Inr ls \<Rightarrow> Inr (w1 @ w2 @ w3 @ (if ls \<noteq> [] then [W005 name ls] else []) @ w6))"

section \<open>Importing the task modules\<close>

text \<open>
  Importing a module runs it, which may register tasks and dumpers and may raise. An app without the
  module raises \<open>ModuleNotFoundError\<close> with the module's own name.
\<close>

type_synonym registries = "dumper_registry \<times> memory_registry"

record task_module =
  tm_name :: string
  tm_import :: "registries \<Rightarrow> exn option \<times> registries"

definition import_task_module :: "task_module \<Rightarrow> registries \<Rightarrow> unit res \<times> registries" where
  "import_task_module m regs =
     (let registered = get_functions (snd regs)
      in case tm_import m regs of
           (None, regs') \<Rightarrow> (Inr (), regs')
         | (Some e, regs') \<Rightarrow>
             if e = ModuleNotFoundError (tm_name m) then (Inr (), regs')
             else (Inl e, fst regs', replace_functions registered (snd regs')))"

fun import_task_modules :: "task_module list \<Rightarrow> registries \<Rightarrow> unit res \<times> registries" where
  "import_task_modules [] regs = (Inr (), regs)"
| "import_task_modules (m # ms) regs =
     (case import_task_module m regs of
        (Inl e, regs') \<Rightarrow> (Inl e, regs')
      | (Inr _, regs') \<Rightarrow> import_task_modules ms regs')"

section \<open>The check\<close>

fun check_usages ::
  "(queue_usage \<Rightarrow> bool) \<Rightarrow> (queue_usage \<Rightarrow> check_warning list res) \<Rightarrow> queue_usage list \<Rightarrow> check_warning list res" where
  "check_usages contact check [] = Inr []"
| "check_usages contact check (u # us) =
     (if \<not> contact u then check_usages contact check us
      else (case check u of
         Inl e \<Rightarrow> Inl e
       | Inr ws \<Rightarrow> (case check_usages contact check us of Inl e \<Rightarrow> Inl e | Inr rest \<Rightarrow> Inr (ws @ rest))))"

text \<open>Whether the first loop found a contact for the broker of the dumper's app.\<close>

definition has_contact :: "apps \<Rightarrow> block_dumper \<Rightarrow> bool" where
  "has_contact as d = (case broker_contact_factory (as (celery_app d)) of Inr _ \<Rightarrow> True | Inl _ \<Rightarrow> False)"

definition unsupported_warnings :: "apps \<Rightarrow> block_dumper list \<Rightarrow> check_warning list" where
  "unsupported_warnings as ds = map (\<lambda>d. W004 (app_name (as (celery_app d)))) (filter (\<lambda>d. \<not> has_contact as d) ds)"

definition check_block_dumper_queues ::
  "settings \<Rightarrow> derivation \<Rightarrow> apps \<Rightarrow> (nat \<Rightarrow> celery_limits) \<Rightarrow> (nat \<Rightarrow> bool) \<Rightarrow> task_module list \<Rightarrow> registries \<Rightarrow>
    check_warning list \<times> registries" where
  "check_block_dumper_queues s derive as limits configured modules regs =
     (if dr_dumpers (fst regs) = [] then ([], regs)
      else (case import_task_modules modules regs of
        (Inl e, regs') \<Rightarrow> ([W000 e], regs')
      | (Inr _, regs') \<Rightarrow>
          (case check_usages (\<lambda>u. has_contact as (u_dumper u))
                  (\<lambda>u. let i = celery_app (u_dumper u) in check_queue s derive (as i) (limits i) (configured i) u)
                  (queue_usages (fst regs') (snd regs')) of
             Inl e \<Rightarrow> ([W000 e], regs')
           | Inr ws \<Rightarrow> (unsupported_warnings as (dr_dumpers (fst regs')) @ ws, regs'))))"

text \<open>\<open>warn_about_dumpers_unseen_by_checks\<close>: the apps of the dumpers created after Django had loaded.\<close>

definition unseen_dumpers :: "dumper_registry \<Rightarrow> string list" where
  "unseen_dumpers reg =
     map app_main (filter (\<lambda>d. dumper_id d \<in> set (dr_created_late reg)) (dr_dumpers reg))"

section \<open>Warnings and the installation\<close>

lemma declared_name [simp]: "kq_name (queue_definition a q) = q_name q"
  by (rule rabbitmq.named)

text \<open>An installation succeeds when no name is taken by a queue with other arguments.\<close>

definition compatible :: "derivation \<Rightarrow> (string, kombu_queue) dict \<Rightarrow> kombu_queue \<Rightarrow> bool" where
  "compatible derive t k = (case map_of t (kq_name k) of None \<Rightarrow> True
     | Some e \<Rightarrow> same_dict (declared_arguments derive e) (declared_arguments derive k))"

lemma install_queues_iff:
  "distinct (map kq_name ks) \<Longrightarrow>
   (\<exists>ts t'. install_queues derive ks t = (Inr ts, t')) \<longleftrightarrow> list_all (compatible derive t) ks"
proof (induction derive ks t rule: install_queues.induct)
  case (2 derive k ks t)
  have upd: "list_all (compatible derive (AList.update (kq_name k) k t)) ks = list_all (compatible derive t) ks"
    using "2.prems" by (intro list_all_cong) (auto simp: compatible_def update_conv' image_iff)
  show ?case
  proof (cases "map_of t (kq_name k)")
    case None
    have "(\<exists>ts t'. install_queues derive (k # ks) t = (Inr ts, t')) \<longleftrightarrow>
        (\<exists>ts t'. install_queues derive ks (AList.update (kq_name k) k t) = (Inr ts, t'))"
      using None by (auto split: prod.splits sum.splits)
    moreover have "(\<exists>ts t'. install_queues derive ks (AList.update (kq_name k) k t) = (Inr ts, t')) \<longleftrightarrow>
        list_all (compatible derive t) ks"
      unfolding upd [symmetric] using 2(1) [OF None] "2.prems" by simp
    moreover have "compatible derive t k" using None by (simp add: compatible_def)
    ultimately show ?thesis by (simp only: list.pred_inject simp_thms)
  next
    case (Some e)
    have "(\<exists>ts t'. install_queues derive (k # ks) t = (Inr ts, t')) \<longleftrightarrow>
        compatible derive t k \<and> (\<exists>ts t'. install_queues derive ks t = (Inr ts, t'))"
      using Some by (auto simp: compatible_def split: prod.splits sum.splits)
    moreover have "compatible derive t k \<Longrightarrow>
        (\<exists>ts t'. install_queues derive ks t = (Inr ts, t')) \<longleftrightarrow> list_all (compatible derive t) ks"
    proof -
      assume "compatible derive t k"
      then have "\<not> \<not> same_dict (declared_arguments derive e) (declared_arguments derive k)"
        using Some by (simp add: compatible_def)
      from 2(2) [OF Some this] show ?thesis using "2.prems" by simp
    qed
    ultimately show ?thesis by auto
  qed
qed simp

text \<open>The part of the installation one dumper is responsible for.\<close>

definition installable :: "derivation \<Rightarrow> apps \<Rightarrow> block_dumper \<Rightarrow> bool" where
  "installable derive as d \<longleftrightarrow> has_contact as d \<and>
     list_all (\<lambda>q. compatible derive (app_queues (as (celery_app d))) (queue_definition (as (celery_app d)) q)) (dumper_queues d)"

lemma install_dumpers_iff:
  assumes "distinct (map celery_app ds)" "\<And>d. d \<in> set ds \<Longrightarrow> distinct (map q_name (dumper_queues d))"
  shows "(\<exists>prepared as'. install_dumpers derive ds as = (Inr prepared, as')) \<longleftrightarrow> list_all (installable derive as) ds"
  using assms
proof (induction ds arbitrary: as)
  case (Cons d ds)
  let ?i = "celery_app d" and ?a = "as (celery_app d)"
  obtain v t where inst: "install_queues derive (map (queue_definition ?a) (dumper_queues d)) (app_queues ?a) = (v, t)"
    by fastforce
  let ?mid = "as(?i := ?a\<lparr>app_queues := t\<rparr>)"
  have "distinct (map kq_name (map (queue_definition ?a) (dumper_queues d)))"
    using Cons.prems(2) [of d] by (simp add: comp_def)
  from install_queues_iff [OF this, of derive "app_queues ?a"]
  have own: "(\<exists>ts. v = Inr ts) \<longleftrightarrow>
      list_all (\<lambda>q. compatible derive (app_queues ?a) (queue_definition ?a q)) (dumper_queues d)"
    using inst by (simp add: list_all_iff)
  have rest: "(\<exists>prepared as'. install_dumpers derive ds ?mid = (Inr prepared, as')) \<longleftrightarrow> list_all (installable derive ?mid) ds"
    using Cons.IH Cons.prems by simp
  have same: "list_all (installable derive ?mid) ds = list_all (installable derive as) ds"
    using Cons.prems(1) by (intro list_all_cong) (auto simp: installable_def has_contact_def image_iff)
  have contact: "has_contact as d \<longleftrightarrow> (\<exists>u. broker_contact_factory ?a = Inr u)"
    by (simp add: has_contact_def split: sum.split)
  have "(\<exists>prepared as'. install_dumpers derive (d # ds) as = (Inr prepared, as')) \<longleftrightarrow>
      has_contact as d \<and> (\<exists>ts. v = Inr ts) \<and> (\<exists>prepared as'. install_dumpers derive ds ?mid = (Inr prepared, as'))"
    unfolding contact using inst by (auto simp: Let_def split: sum.splits prod.splits)
  then show ?case by (simp only: own rest same list.pred_inject installable_def [of derive as d] conj_assoc)
qed simp

lemma check_usages_mem:
  "check_usages contact check us = Inr ws \<Longrightarrow>
   x \<in> set ws \<longleftrightarrow> (\<exists>u vs. u \<in> set us \<and> contact u \<and> check u = Inr vs \<and> x \<in> set vs)"
  by (induction us arbitrary: ws) (auto split: if_splits sum.splits)

lemma check_usages_ok:
  "check_usages contact check us = Inr ws \<Longrightarrow> u \<in> set us \<Longrightarrow> contact u \<Longrightarrow> \<exists>vs. check u = Inr vs"
  by (induction us arbitrary: ws) (auto split: if_splits sum.splits)

lemma check_queue_W001:
  assumes "check_queue s derive a cl configured u = Inr ws"
  shows "W001 n \<in> set ws \<longleftrightarrow> n = q_name (u_queue u) \<and> configured \<and>
    \<not> compatible derive (app_queues a) (queue_definition a (u_queue u))"
    and "W004 n \<notin> set ws"
proof -
  let ?q = "u_queue u"
  let ?rest = "\<lambda>ls. (if LIVE \<in> u_roles u \<and> named_as_backfill_queue u \<and> throttle ?q = None then [W002 (q_name ?q)] else []) @
      (if throttle ?q \<noteq> None \<and> BACKFILL \<notin> u_roles u then [W003 (q_name ?q)] else []) @
      (if ls \<noteq> [] then [W005 (q_name ?q) ls] else []) @
      (case unacked_timeout_seconds of None \<Rightarrow> []
        | Some t \<Rightarrow> if num (max_delay (retry ?q)) > t then [W006 (q_name ?q)] else [])"
  obtain ls where ws: "ws = (case map_option (declared_arguments derive) (project_queue configured a (q_name ?q)) of
        None \<Rightarrow> [] | Some p \<Rightarrow> if \<not> same_dict p (declared_arguments derive (queue_definition a ?q)) then [W001 (q_name ?q)] else [])
      @ ?rest ls"
  proof (cases "if time_limit ?q = None then default_hard_limits s cl u else Inr []")
    case (Inl e)
    then show ?thesis using assms unfolding check_queue_def Let_def by (simp only: sum.case sum.distinct)
  next
    case (Inr ls)
    show ?thesis
      by (rule that [of ls]) (use assms Inr in \<open>simp only: check_queue_def Let_def sum.case sum.inject\<close>)
  qed
  have rest: "W001 n \<notin> set (?rest ls)" "W004 n \<notin> set (?rest ls)" by (simp_all split: option.split)
  show "W001 n \<in> set ws \<longleftrightarrow> n = q_name ?q \<and> configured \<and> \<not> compatible derive (app_queues a) (queue_definition a ?q)"
    unfolding ws set_append Un_iff using rest(1)
    by (simp add: project_queue_def compatible_def split: option.split)
  show "W004 n \<notin> set ws"
    unfolding ws set_append Un_iff using rest(2) by (simp split: option.split)
qed

lemma queue_usages_mem:
  "d \<in> set (dr_dumpers reg) \<Longrightarrow> q \<in> set (dumper_queues d) \<Longrightarrow>
   \<exists>u \<in> set (queue_usages reg tasks). u_dumper u = d \<and> u_queue u = q"
  unfolding queue_usages_def by (force split: prod.splits)

lemma queue_usages_sound:
  "u \<in> set (queue_usages reg tasks) \<Longrightarrow> u_dumper u \<in> set (dr_dumpers reg) \<and> u_queue u \<in> set (dumper_queues (u_dumper u))"
  by (auto simp: queue_usages_def split: prod.splits)

lemma usage_conflicts:
  assumes vs: "check_usages (\<lambda>u. has_contact as (u_dumper u))
      (\<lambda>u. let i = celery_app (u_dumper u) in check_queue s derive (as i) (limits i) (configured i) u)
      (queue_usages reg tasks) = Inr vs"
  shows "(\<forall>n. W001 n \<notin> set vs) \<longleftrightarrow> (\<forall>d \<in> set (dr_dumpers reg). has_contact as d \<and> configured (celery_app d) \<longrightarrow>
    (\<forall>q \<in> set (dumper_queues d). compatible derive (app_queues (as (celery_app d))) (queue_definition (as (celery_app d)) q)))"
proof -
  let ?check = "\<lambda>u. check_queue s derive (as (celery_app (u_dumper u))) (limits (celery_app (u_dumper u)))
      (configured (celery_app (u_dumper u))) u"
  note vs' = vs [unfolded Let_def]
  have "\<exists>n. W001 n \<in> set vs"
    if d: "d \<in> set (dr_dumpers reg)" "has_contact as d" "q \<in> set (dumper_queues d)" "configured (celery_app d)"
      and no: "\<not> compatible derive (app_queues (as (celery_app d))) (queue_definition (as (celery_app d)) q)" for d q
  proof -
    obtain u where u: "u \<in> set (queue_usages reg tasks)" "u_dumper u = d" "u_queue u = q"
      using queue_usages_mem [OF d(1,3)] by blast
    obtain us where us: "?check u = Inr us" using check_usages_ok [OF vs' u(1)] d(2) u(2) by auto
    have "W001 (q_name q) \<in> set us" using check_queue_W001(1) [OF us] no u d(4) by simp
    then show ?thesis using check_usages_mem [OF vs'] u us d(2) by blast
  qed
  moreover have "\<exists>d \<in> set (dr_dumpers reg). has_contact as d \<and> configured (celery_app d) \<and> (\<exists>q \<in> set (dumper_queues d).
      \<not> compatible derive (app_queues (as (celery_app d))) (queue_definition (as (celery_app d)) q))"
    if n: "W001 n \<in> set vs" for n
  proof -
    obtain u us where u: "u \<in> set (queue_usages reg tasks)" "has_contact as (u_dumper u)" "?check u = Inr us" "W001 n \<in> set us"
      using n check_usages_mem [OF vs'] by blast
    then show ?thesis using check_queue_W001(1) [OF u(3)] queue_usages_sound [OF u(1)] by blast
  qed
  ultimately show ?thesis by blast
qed

text \<open>
  C15. What the system check foretells of the start-up. For dumpers on distinct apps, each with distinct queue
  names, and when the check itself does not break down (W000): the installation of the queues at start-up
  succeeds exactly when the check gives neither W001 nor W004 and, besides, no queue of an app \<^emph>\<open>without\<close>
  \<open>task_queues\<close> meets another definition of its name in the app's table. On that last case the check is silent
  (\<open>checks.py:174\<close> then looks at nothing): there a start-up can fail with no warning, as
  \<open>check_misses_default_queue\<close> shows. With \<open>task_queues\<close> set on every app, the warnings decide alone.
\<close>

theorem checks_foretell_installation:
  assumes "check_block_dumper_queues s derive as limits configured modules regs = (ws, reg, tasks)"
    and "\<And>e. W000 e \<notin> set ws"
    and "distinct (map celery_app (dr_dumpers reg))"
    and "\<And>d. d \<in> set (dr_dumpers reg) \<Longrightarrow> distinct (map q_name (dumper_queues d))"
  shows "(\<exists>prepared as'. install_dumpers derive (dr_dumpers reg) as = (Inr prepared, as')) \<longleftrightarrow>
    (\<forall>n. W001 n \<notin> set ws \<and> W004 n \<notin> set ws) \<and>
    (\<forall>d \<in> set (dr_dumpers reg). \<forall>q \<in> set (dumper_queues d). configured (celery_app d) \<or>
      compatible derive (app_queues (as (celery_app d))) (queue_definition (as (celery_app d)) q))"
proof (cases "dr_dumpers (fst regs) = []")
  case True
  then show ?thesis using assms(1) by (auto simp: check_block_dumper_queues_def)
next
  case False
  let ?contact = "\<lambda>u. has_contact as (u_dumper u)"
    and ?check = "\<lambda>u. let i = celery_app (u_dumper u) in check_queue s derive (as i) (limits i) (configured i) u"
  obtain vs where vs: "check_usages ?contact ?check (queue_usages reg tasks) = Inr vs"
    and ws: "ws = unsupported_warnings as (dr_dumpers reg) @ vs"
  proof -
    have "\<forall>e. W000 e \<notin> set ws" using assms(2) by simp
    then show ?thesis
      using that assms(1) False by (auto simp: check_block_dumper_queues_def split: prod.splits sum.splits)
  qed
  have W004: "(\<forall>n. W004 n \<notin> set ws) \<longleftrightarrow> (\<forall>d \<in> set (dr_dumpers reg). has_contact as d)"
    using check_usages_mem [OF vs] check_queue_W001(2) by (auto simp: ws unsupported_warnings_def Let_def)
  have W001: "(\<forall>n. W001 n \<notin> set ws) \<longleftrightarrow> (\<forall>d \<in> set (dr_dumpers reg). has_contact as d \<and> configured (celery_app d) \<longrightarrow>
      (\<forall>q \<in> set (dumper_queues d). compatible derive (app_queues (as (celery_app d))) (queue_definition (as (celery_app d)) q)))"
    using usage_conflicts [OF vs] by (auto simp: ws unsupported_warnings_def)
  have "(\<forall>n. W001 n \<notin> set ws \<and> W004 n \<notin> set ws) \<and>
      (\<forall>d \<in> set (dr_dumpers reg). \<forall>q \<in> set (dumper_queues d). configured (celery_app d) \<or>
        compatible derive (app_queues (as (celery_app d))) (queue_definition (as (celery_app d)) q)) \<longleftrightarrow>
      list_all (installable derive as) (dr_dumpers reg)"
    using W001 W004 unfolding installable_def list_all_iff by blast
  then show ?thesis using install_dumpers_iff [OF assms(3,4)] by simp
qed

text \<open>The sample dumper on an app whose project defines its queue without the TTL the policy needs.\<close>

definition sample_conflict :: app where
  "sample_conflict = sample_app\<lparr>app_queues := [(''archive'', \<lparr>kq_name = ''archive'', kq_exchange = ''x'', kq_routing_key = ''r'',
     kq_arguments = [], kq_options = []\<rparr>)]\<rparr>"

definition sample_registries :: registries where
  "sample_registries = (empty_dumper_registry\<lparr>dr_dumpers := [sample_dumper]\<rparr>, [])"

lemma sample_conflict_warned:
  "check_block_dumper_queues default_settings (\<lambda>args _. args) (\<lambda>_. sample_conflict) (\<lambda>_. sample_limits) (\<lambda>_. True) []
     sample_registries = ([W001 ''archive'', W003 ''archive''], sample_registries)"
  by (simp add: check_block_dumper_queues_def sample_registries_def empty_dumper_registry_def queue_usages_def sample_dumper_def
      dumper_queues_def get_functions_def has_contact_def broker_contact_factory_def sample_conflict_def sample_app_def
      check_queue_def sample_queue_def project_queue_def declared_arguments_def queue_definition_def celery_definition_def
      rabbitmq_queue_arguments_def same_dict_def unacked_timeout_seconds_def RABBITMQ_DEFAULT_CONSUMER_TIMEOUT_SECONDS_def
      default_retry_policy_def unsupported_warnings_def Let_def)

theorem checks_foretell_installation_witness:
  "\<not> (\<exists>prepared as'. install_dumpers (\<lambda>args _. args) [sample_dumper] (\<lambda>_. sample_conflict) = (Inr prepared, as'))"
proof -
  have reg: "dr_dumpers (fst sample_registries) = [sample_dumper]" by (simp add: sample_registries_def)
  have "check_block_dumper_queues default_settings (\<lambda>args _. args) (\<lambda>_. sample_conflict) (\<lambda>_. sample_limits) (\<lambda>_. True) []
      sample_registries = ([W001 ''archive'', W003 ''archive''], fst sample_registries, snd sample_registries)"
    by (simp add: sample_conflict_warned)
  from checks_foretell_installation [OF this] reg
  show ?thesis by (simp add: sample_dumper_def dumper_queues_def)
qed

text \<open>
  The same app in a project without \<open>task_queues\<close>, where the queue in the table is Celery's own default queue:
  no warning of a conflict, and an installation that fails.
\<close>

lemma check_misses_default_queue:
  "fst (check_block_dumper_queues default_settings (\<lambda>args _. args) (\<lambda>_. sample_conflict) (\<lambda>_. sample_limits) (\<lambda>_. False) []
     sample_registries) = [W003 ''archive'']"
  "\<not> (\<exists>prepared as'. install_dumpers (\<lambda>args _. args) [sample_dumper] (\<lambda>_. sample_conflict) = (Inr prepared, as'))"
  by (simp_all add: check_block_dumper_queues_def sample_registries_def empty_dumper_registry_def queue_usages_def sample_dumper_def
      dumper_queues_def get_functions_def has_contact_def broker_contact_factory_def sample_conflict_def sample_app_def
      check_queue_def sample_queue_def project_queue_def declared_arguments_def queue_definition_def celery_definition_def
      rabbitmq_queue_arguments_def same_dict_def unacked_timeout_seconds_def RABBITMQ_DEFAULT_CONSUMER_TIMEOUT_SECONDS_def
      default_retry_policy_def unsupported_warnings_def Let_def)

end
