(* ===== verification/Startup.thy ===== *)
theory Startup
  imports Scheduler Checks
begin

text \<open>
  How the processes of a project start: import of the task modules (\<open>_internal/discovery.py\<close>), the
  set-up of a worker (\<open>v1/celery.setup_celery_tasks\<close>), the command that runs the scheduler
  (\<open>management/commands/block_tasks_v1.py\<close>, \<open>scheduler.task_scheduler_factory\<close>), the signal handler
  that counts expired messages (\<open>_internal/services/celery_signals.py\<close>) and the rows the queue listing prints
  (\<open>management/commands/block_dumper_queues_v1.py\<close>).
\<close>

section \<open>Loading the task modules\<close>

text \<open>Any \<open>ModuleNotFoundError\<close> is skipped without a word, an \<open>ImportError\<close> with a log line; others propagate.\<close>

fun ensure_modules_loaded :: "task_module list \<Rightarrow> registries \<Rightarrow> unit res \<times> registries" where
  "ensure_modules_loaded [] regs = (Inr (), regs)"
| "ensure_modules_loaded (m # ms) regs =
     (case tm_import m regs of
        (None, regs') \<Rightarrow> ensure_modules_loaded ms regs'
      | (Some (ModuleNotFoundError _), regs') \<Rightarrow> ensure_modules_loaded ms regs'
      | (Some (ImportError _), regs') \<Rightarrow> ensure_modules_loaded ms regs'
      | (Some e, regs') \<Rightarrow> (Inl e, regs'))"

section \<open>Workers\<close>

text \<open>What a process has set up: the registries, the Celery apps, whether the signal handlers are connected.\<close>

record process =
  ps_registries :: registries
  ps_apps :: apps
  ps_signals :: bool

definition connect_worker_signals :: "process \<Rightarrow> process" where
  "connect_worker_signals p = p\<lparr>ps_signals := True\<rparr>"

definition setup_celery_tasks :: "settings \<Rightarrow> derivation \<Rightarrow> task_module list \<Rightarrow> process \<Rightarrow> (raised + unit) \<times> process" where
  "setup_celery_tasks s derive modules p =
     (case ensure_modules_loaded modules (ps_registries p) of
        (Inl e, regs) \<Rightarrow> (Inl (Raised e), p\<lparr>ps_registries := regs\<rparr>)
      | (Inr _, regs) \<Rightarrow>
          let p1 = p\<lparr>ps_registries := regs\<rparr>
          in if dr_dumpers (fst regs) = [] then (Inr (), p1)
             else
               let p2 = connect_worker_signals p1
               in (case prepare_block_dumpers s derive (fst regs) True (ps_apps p2) of
                     (Inr _, as) \<Rightarrow> (Inr (), p2\<lparr>ps_apps := as\<rparr>)
                   | (Inl e, as) \<Rightarrow>
                       (Inl (if is_setup_error e then Exited (queue_setup_error_message e) else Raised e), p2\<lparr>ps_apps := as\<rparr>)))"

text \<open>
  \<open>_count_expired_messages\<close>: the handler of Celery's \<open>task_revoked\<close>, with the name of the sender (None
  without one) and the routing key of the message.
\<close>

definition count_expired_messages :: "ctx \<Rightarrow> string option \<Rightarrow> bool \<Rightarrow> string option \<Rightarrow> world \<Rightarrow> world" where
  "count_expired_messages x sender expired routing_key w =
     (case sender of
        None \<Rightarrow> w
      | Some name \<Rightarrow>
          if \<not> expired then w
          else (case get_by_executable_path name (registry x) of
            None \<Rightarrow> w
          | Some item \<Rightarrow>
              if live_queue item = None then w
              else record_message_expired
                (case routing_key of Some k \<Rightarrow> if k = [] then ''unknown'' else k | None \<Rightarrow> ''unknown'') w))"

section \<open>The scheduler command\<close>

text \<open>The settings of the scheduler the project may set.\<close>

record scheduler_settings =
  BITTENSOR_NETWORK :: "string option"
  BLOCK_DUMPER_RPC_TIMEOUT :: "seconds option"
  BLOCK_DUMPER_POLL_INTERVAL :: "seconds option"
  BLOCK_DUMPER_START_FROM_BLOCK :: "pyval option"
  BLOCK_DUMPER_LOOKBACK_ENABLED :: "bool option"

text \<open>
  \<open>task_scheduler_factory\<close>. The block processor it makes removes phantom successes first; invalid sweep
  settings raise after that.
\<close>

definition task_scheduler_factory ::
  "settings \<Rightarrow> scheduler_settings \<Rightarrow> string option \<Rightarrow> world \<Rightarrow> scheduler res \<times> world" where
  "task_scheduler_factory s ss name w =
     (let name' = (case name of None \<Rightarrow> getattr (BITTENSOR_NETWORK ss) ''finney'' | Some n \<Rightarrow> n);
          bittensor = client_new name' (BLOCK_DUMPER_RPC_TIMEOUT ss);
          w1 = cleanup_phantom_tasks w
      in (case stale_task_settings s of
        Inl e \<Rightarrow> (Inl e, w1)
      | Inr (timeout, interval, batch) \<Rightarrow>
          (Inr \<lparr>last_processed_blocks = [], observed_blocks = [], start_from_block = BLOCK_DUMPER_START_FROM_BLOCK ss,
            lookback_enabled = getattr (BLOCK_DUMPER_LOOKBACK_ENABLED ss) True, stale_task_timeout = timeout,
            stale_task_sweep_interval = interval, stale_task_batch_size = batch, last_reconcile_at = None,
            poll_interval = getattr (BLOCK_DUMPER_POLL_INTERVAL ss) 5, sched_client = bittensor, sched_running = False\<rparr>, w1)))"

definition handle_block_tasks ::
  "settings \<Rightarrow> derivation \<Rightarrow> task_module list \<Rightarrow> scheduler_settings \<Rightarrow> process \<times> world \<Rightarrow> scheduler res \<times> process \<times> world" where
  "handle_block_tasks s derive modules ss st =
     (case st of (p, w) \<Rightarrow>
       (case ensure_modules_loaded modules (ps_registries p) of
          (Inl e, regs) \<Rightarrow> (Inl e, p\<lparr>ps_registries := regs\<rparr>, w)
        | (Inr _, regs) \<Rightarrow>
            (case prepare_block_dumpers s derive (fst regs) True (ps_apps p) of
               (r, as) \<Rightarrow>
                 let p1 = p\<lparr>ps_registries := regs, ps_apps := as\<rparr>;
                     go = (case task_scheduler_factory s ss None w of (sc, w1) \<Rightarrow> (sc, p1, w1))
                 in (case r of
                       Inr _ \<Rightarrow> go
                     | Inl (BrokerUnreachableError _) \<Rightarrow> go
                     | Inl e \<Rightarrow> (Inl (if is_setup_error e then CommandError (queue_setup_error_message e) else e), p1, w)))))"

text \<open>The context the scheduler of a process runs in, and the run of the command over the ticks.\<close>

definition process_ctx :: "settings \<Rightarrow> (message \<Rightarrow> bool) \<Rightarrow> (string \<Rightarrow> int \<Rightarrow> seconds) \<Rightarrow> process \<Rightarrow> ctx" where
  "process_ctx s accepts takes p =
     \<lparr>cfg = s, registry = snd (ps_registries p), queues = dr_queues (fst (ps_registries p)), broker_accepts = accepts,
      measured = takes, interrupted_after = (\<lambda>_. False)\<rparr>"

definition run_block_tasks ::
  "settings \<Rightarrow> derivation \<Rightarrow> task_module list \<Rightarrow> scheduler_settings \<Rightarrow> (message \<Rightarrow> bool) \<Rightarrow>
    (string \<Rightarrow> int \<Rightarrow> seconds) \<Rightarrow> tick \<Rightarrow> tick list \<Rightarrow>
    process \<times> world \<Rightarrow> unit res \<times> process \<times> world" where
  "run_block_tasks s derive modules ss accepts takes t0 ticks st =
     (case handle_block_tasks s derive modules ss st of
        (Inl e, st1) \<Rightarrow> (Inl e, st1)
      | (Inr sc, p, w) \<Rightarrow>
          (Inr (), p, snd (scheduler_start (process_ctx s accepts takes p) (fst (ps_registries p)) (ps_apps p) t0 ticks (sc, w))))"

section \<open>The queue listing\<close>

text \<open>A row of the listing: the queue, its roles, its policy, and what is in flight, waiting and consuming.\<close>

record listing_row =
  lr_name :: string
  lr_roles :: "role list"
  lr_message_ttl :: "pynum option"
  lr_limits :: "pynum option \<times> pynum option"
  lr_throttle :: "int option"
  lr_inflight :: nat
  lr_waiting :: int
  lr_consumers :: int
  lr_no_consumers :: bool

definition listing_row_of :: "clocks \<Rightarrow> db \<Rightarrow> queue_usage \<Rightarrow> int \<times> int \<Rightarrow> listing_row" where
  "listing_row_of c d usage stats =
     (let q = u_queue usage; inflight = count_inflight c (q_name q) None None d in
      \<lparr>lr_name = q_name q, lr_roles = filter (\<lambda>r. r \<in> u_roles usage) [LIVE, BACKFILL],
       lr_message_ttl = message_ttl q, lr_limits = (soft_time_limit q, time_limit q), lr_throttle = throttle q,
       lr_inflight = inflight, lr_waiting = fst stats, lr_consumers = snd stats,
       lr_no_consumers = (snd stats = 0 \<and> inflight \<noteq> 0)\<rparr>)"

text \<open>\<open>stats[usage.queue.name]\<close> of a queue the broker did not report is a \<open>KeyError\<close>.\<close>

fun listing_rows :: "clocks \<Rightarrow> db \<Rightarrow> (string, int \<times> int) dict \<Rightarrow> queue_usage list \<Rightarrow> listing_row list res" where
  "listing_rows c d stats [] = Inr []"
| "listing_rows c d stats (u # us) =
     (case map_of stats (q_name (u_queue u)) of
        None \<Rightarrow> Inl (UserError ''KeyError'')
      | Some st \<Rightarrow> (case listing_rows c d stats us of Inl e \<Rightarrow> Inl e | Inr rows \<Rightarrow> Inr (listing_row_of c d u st # rows)))"

definition handle_block_dumper_queues ::
  "task_module list \<Rightarrow> (nat \<Rightarrow> amqp_server) \<Rightarrow> injected_contacts \<Rightarrow> clocks \<Rightarrow> db \<Rightarrow> process \<Rightarrow> listing_row list res \<times> process" where
  "handle_block_dumper_queues modules servers injected c d p =
     (case ensure_modules_loaded modules (ps_registries p) of
        (Inl e, regs) \<Rightarrow> (Inl e, p\<lparr>ps_registries := regs\<rparr>)
      | (Inr _, regs) \<Rightarrow>
          let usages = queue_usages (fst regs) (snd regs)
          in (if usages = [] then Inr []
              else (case read_queue_stats (contact_stats servers injected (ps_apps p)) usages of
                 Inl (UnsupportedBrokerError m) \<Rightarrow> Inl (CommandError m)
               | Inl e \<Rightarrow> Inl e
               | Inr st \<Rightarrow> listing_rows c d st usages), p\<lparr>ps_registries := regs\<rparr>))"

section \<open>A worker starts only with its queues\<close>

text \<open>
  A task module that exists and imports a package that does not: the system check breaks down on it
  (W000) and takes its tasks back, start-up passes over it, with the tasks above the failing line still
  registered and no log line.
\<close>

lemma missing_dependency_is_silent:
  assumes "tm_import m regs = (Some (ModuleNotFoundError n), regs')" "n \<noteq> tm_name m" "dr_dumpers (fst regs) \<noteq> []"
  shows "ensure_modules_loaded (m # ms) regs = ensure_modules_loaded ms regs'"
    and "check_block_dumper_queues s derive as limits configured (m # ms) regs =
      ([W000 (ModuleNotFoundError n)], fst regs', snd regs)"
  using assms by (simp_all add: check_block_dumper_queues_def import_task_module_def replace_functions_def get_functions_def)

text \<open>
  C16. A worker never consumes with queues that do not match their policies. Let the task modules load
  and some \<open>BlockDumper\<close> exist. When \<open>setup_celery_tasks\<close> returns, every queue of every dumper is in
  its app's table with the arguments of its policy and the broker accepted it. When it raises because
  the broker cannot be reached, the queues are in the tables all the same. An error that says the queues are
  wrong (other arguments, a bad setting, another transport) makes it exit with the message for the operator,
  which Celery's signal dispatch does not swallow; any other error is one the broker of some dumper's app
  gave, and is raised as it is. In all cases the handlers are connected and no app loses a queue it had.
\<close>

theorem worker_starts_only_with_its_queues:
  assumes "ensure_modules_loaded modules (ps_registries p) = (Inr (), reg, tasks)" and "dr_dumpers reg \<noteq> []"
    and "setup_celery_tasks s derive modules p = (r, p')"
  shows "ps_signals p' \<and> ps_registries p' = (reg, tasks) \<and>
    (\<forall>i n k. map_of (app_queues (ps_apps p i)) n = Some k \<longrightarrow> map_of (app_queues (ps_apps p' i)) n = Some k) \<and>
    (r = Inr () \<or> (\<exists>m. r = Inl (Raised (BrokerUnreachableError m))) \<longrightarrow>
      (\<forall>d \<in> set (dr_dumpers reg). \<forall>q \<in> set (dumper_queues d).
        \<exists>k. map_of (app_queues (ps_apps p' (celery_app d))) (q_name q) = Some k \<and>
          same_dict (declared_arguments derive k) (declared_arguments derive (queue_definition (ps_apps p (celery_app d)) q)) \<and>
          (r = Inr () \<longrightarrow> app_broker (ps_apps p (celery_app d)) k = Inr ()))) \<and>
    (case fst (prepare_block_dumpers s derive reg True (ps_apps p)) of
       Inr _ \<Rightarrow> r = Inr ()
     | Inl e \<Rightarrow>
         if is_setup_error e then r = Inl (Exited (queue_setup_error_message e))
         else r = Inl (Raised e) \<and> (\<exists>d \<in> set (dr_dumpers reg). \<exists>k. app_broker (ps_apps p (celery_app d)) k = Inl e))"
proof -
  obtain v as where prep: "prepare_block_dumpers s derive reg True (ps_apps p) = (v, as)" by (metis surj_pair)
  have p': "p' = p\<lparr>ps_registries := (reg, tasks), ps_apps := as, ps_signals := True\<rparr>"
    and r: "r = (case v of Inr _ \<Rightarrow> Inr () | Inl e \<Rightarrow> Inl (if is_setup_error e then Exited (queue_setup_error_message e) else Raised e))"
    using assms prep
    by (auto simp: setup_celery_tasks_def connect_worker_signals_def Let_def split: sum.splits option.splits)
  have ok: "v = Inr ()" if "r = Inr ()" using that r by (cases v) (auto split: if_splits)
  have unreachable: "v = Inl (BrokerUnreachableError m)" if "r = Inl (Raised (BrokerUnreachableError m))" for m
    using that r by (cases v) (auto split: if_splits)
  have "case v of Inr _ \<Rightarrow> r = Inr () | Inl e \<Rightarrow>
      if is_setup_error e then r = Inl (Exited (queue_setup_error_message e))
      else r = Inl (Raised e) \<and> (\<exists>d \<in> set (dr_dumpers reg). \<exists>k. app_broker (ps_apps p (celery_app d)) k = Inl e)"
    using r prepare_errors [of s derive reg True "ps_apps p" _ as] prep by (cases v) auto
  then show ?thesis
    using prepare_installs [OF prep] ok unreachable by (auto simp: p' prep)
qed

definition sample_process :: process where
  "sample_process = \<lparr>ps_registries = sample_registries, ps_apps = (\<lambda>_. sample_app), ps_signals = False\<rparr>"

theorem worker_starts_only_with_its_queues_witness:
  "\<exists>p' k. setup_celery_tasks default_settings (\<lambda>args _. args) [] sample_process = (Inr (), p') \<and> ps_signals p' \<and>
     map_of (app_queues (ps_apps p' 0)) (q_name sample_queue) = Some k \<and> app_broker sample_app k = Inr ()"
proof -
  have "\<exists>p'. setup_celery_tasks default_settings (\<lambda>args _. args) [] sample_process = (Inr (), p')"
    by (simp add: setup_celery_tasks_def sample_process_def sample_registries_def prepare_block_dumpers_def
        empty_dumper_registry_def sample_dumper_def dumper_queues_def throttle_poll_seconds_def default_settings_def
        broker_contact_factory_def sample_app_def Let_def sample_queue_def connect_worker_signals_def)
  then obtain p' where p': "setup_celery_tasks default_settings (\<lambda>args _. args) [] sample_process = (Inr (), p')" ..
  have "ensure_modules_loaded [] (ps_registries sample_process) = (Inr (), fst sample_registries, snd sample_registries)"
    "dr_dumpers (fst sample_registries) = [sample_dumper]"
    by (simp_all add: sample_process_def sample_registries_def)
  from worker_starts_only_with_its_queues [OF this(1) _ p'] this(2) p' show ?thesis
    by (auto simp: sample_dumper_def dumper_queues_def sample_process_def)
qed

end
