(* ===== verification/Job_Machine.thy ===== *)
theory Job_Machine
  imports Task_Runner Reconciler Maintenance
begin

text \<open>
  What the library promises for one unit of work (a task, a block and arguments), as a machine of five
  phases, and the whole system of \<open>BlockDumper\<close> processes as a step relation on worlds. The system
  refines the machine: every step of a process moves every unit of work along the machine.
\<close>

section \<open>The specification\<close>

text \<open>The numbers are the tries so far. A unit of work that waits is pending or has a retry to come.\<close>

datatype phase = Unknown | Waiting nat | Active nat | Succeeded nat "json option" | Abandoned nat

text \<open>\<open>allow n\<close>: the retry rules give another try after \<open>n\<close> tries.\<close>

inductive job_step :: "(nat \<Rightarrow> bool) \<Rightarrow> phase \<Rightarrow> phase \<Rightarrow> bool" for allow where
  recorded: "job_step allow Unknown (Waiting 0)"
| started: "job_step allow (Waiting n) (Active (Suc n))"
| succeeded: "job_step allow (Active n) (Succeeded n result)"
| failed: "allow n \<Longrightarrow> job_step allow (Active n) (Waiting n)"
| exhausted: "job_step allow (Active n) (Abandoned n)"
| abandoned: "job_step allow (Waiting n) (Abandoned n)"

abbreviation job_steps :: "(nat \<Rightarrow> bool) \<Rightarrow> phase \<Rightarrow> phase \<Rightarrow> bool" where
  "job_steps allow \<equiv> (job_step allow)\<^sup>*\<^sup>*"

inductive_cases job_step_finalE: "job_step allow (Succeeded n v) p" "job_step allow (Abandoned n) p"

lemma job_steps_mono: "job_steps allow p q \<Longrightarrow> (\<And>n. allow n \<Longrightarrow> allow' n) \<Longrightarrow> job_steps allow' p q"
proof (induction rule: rtranclp_induct)
  case (step q r)
  have "job_step allow' q r" using step.hyps(2) step.prems by cases (auto intro: job_step.intros)
  then show ?case using step by (meson rtranclp.rtrancl_into_rtrancl)
qed simp

text \<open>A machine that allows at most \<open>m\<close> tries runs down a rank.\<close>

fun within_tries :: "nat \<Rightarrow> phase \<Rightarrow> bool" where
  "within_tries m (Waiting n) = (n < m)"
| "within_tries m (Active n) = (n \<le> m)"
| "within_tries m _ = True"

fun phase_rank :: "nat \<Rightarrow> phase \<Rightarrow> nat" where
  "phase_rank m Unknown = 2 * m + 1"
| "phase_rank m (Waiting n) = 2 * (m - n)"
| "phase_rank m (Active n) = 2 * (m - n) + 1"
| "phase_rank m _ = 0"

lemma job_step_rank:
  assumes "job_step (\<lambda>n. n < m) p q" "within_tries m p" "0 < m"
  shows "within_tries m q \<and> phase_rank m q < phase_rank m p"
  using assms by cases auto

section \<open>Simulation\<close>

text \<open>
  A concrete system whose steps move every part of the abstract state (one part per key) along an
  abstract machine, and the runs of such a system when the machine runs down a rank.
\<close>

locale simulation =
  fixes cstep :: "'c \<Rightarrow> 'c \<Rightarrow> bool" and inv :: "'c \<Rightarrow> bool"
    and abs :: "'c \<Rightarrow> 'k \<Rightarrow> 'a" and astep :: "'a \<Rightarrow> 'a \<Rightarrow> bool"
  assumes inv_step: "inv c \<Longrightarrow> cstep c c' \<Longrightarrow> inv c'"
    and simulates: "inv c \<Longrightarrow> cstep c c' \<Longrightarrow> astep\<^sup>*\<^sup>* (abs c k) (abs c' k)"
begin

lemma steps_simulate:
  assumes "cstep\<^sup>*\<^sup>* c c'" "inv c"
  shows "inv c' \<and> astep\<^sup>*\<^sup>* (abs c k) (abs c' k)"
  using assms
proof (induction rule: rtranclp_induct)
  case (step c' c'')
  then show ?case using inv_step simulates by (meson rtranclp_trans)
qed simp

lemma run_inv: "inv (w 0) \<Longrightarrow> (\<And>j. cstep (w j) (w (Suc j))) \<Longrightarrow> inv (w j)"
  by (induction j) (auto intro: inv_step)

end

locale settling = simulation cstep inv abs astep
  for cstep :: "'c \<Rightarrow> 'c \<Rightarrow> bool" and inv :: "'c \<Rightarrow> bool"
    and abs :: "'c \<Rightarrow> 'k \<Rightarrow> 'a" and astep :: "'a \<Rightarrow> 'a \<Rightarrow> bool" +
  fixes good :: "'a \<Rightarrow> bool" and rank :: "'a \<Rightarrow> nat"
  assumes rank_step: "astep p q \<Longrightarrow> good p \<Longrightarrow> good q \<and> rank q < rank p"
begin

lemma steps_rank: "astep\<^sup>*\<^sup>* p q \<Longrightarrow> good p \<Longrightarrow> good q \<and> (p = q \<or> rank q < rank p)"
proof (induction rule: rtranclp_induct)
  case (step q r)
  then have "good q" "p = q \<or> rank q < rank p" by simp_all
  then show ?case using rank_step [OF step.hyps(2)] by auto
qed simp

text \<open>In an infinite run every part of the abstract state changes at most \<open>rank\<close> times.\<close>

lemma changes_bounded:
  assumes start: "inv (w 0)" "good (abs (w 0) k)" and run: "\<And>j. cstep (w j) (w (Suc j))"
  defines "J \<equiv> {j. abs (w (Suc j)) k \<noteq> abs (w j) k}"
  shows "finite J \<and> card J \<le> rank (abs (w 0) k)"
proof -
  let ?\<rho> = "\<lambda>j. rank (abs (w j) k)"
  have step: "astep\<^sup>*\<^sup>* (abs (w j) k) (abs (w (Suc j)) k)" for j
    using simulates [OF run_inv [OF start(1) run] run] .
  have good: "good (abs (w j) k)" for j
    by (induction j) (use start(2) steps_rank [OF step] in auto)
  have down: "?\<rho> (Suc j) \<le> ?\<rho> j" "j \<in> J \<Longrightarrow> ?\<rho> (Suc j) < ?\<rho> j" for j
    using steps_rank [OF step good, of j] by (auto simp: J_def)
  have anti: "i \<le> j \<Longrightarrow> ?\<rho> j \<le> ?\<rho> i" for i j
    by (rule lift_Suc_antimono_le [of ?\<rho>]) (use down(1) in auto)
  have "?\<rho> (Suc j) < ?\<rho> (Suc i)" if "i < j" "j \<in> J" for i j
    using down(2) [OF that(2)] anti [of "Suc i" j] that(1) by simp
  then have inj: "inj_on (\<lambda>j. ?\<rho> (Suc j)) J" by (intro linorder_inj_onI) (auto simp: neq_iff)
  have range: "(\<lambda>j. ?\<rho> (Suc j)) ` J \<subseteq> {..< ?\<rho> 0}"
    using down(2) anti [of 0] by (auto intro: less_le_trans)
  show ?thesis
    using inj_on_finite [OF inj range] card_inj_on_le [OF inj range] by simp
qed

text \<open>A run that leaves every state that is not final ends in a final state and stays there.\<close>

lemma ends_final:
  assumes "inv (w 0)" "good (abs (w 0) k)" "\<And>j. cstep (w j) (w (Suc j))"
    and leaves: "\<And>j. \<not> final (abs (w j) k) \<Longrightarrow> \<exists>i\<ge>j. abs (w i) k \<noteq> abs (w j) k"
  shows "\<exists>n p. final p \<and> (\<forall>j\<ge>n. abs (w j) k = p)"
proof -
  let ?J = "{j. abs (w (Suc j)) k \<noteq> abs (w j) k}"
  have "finite ?J" using changes_bounded [of w k, OF assms(1-3)] by blast
  then obtain n where n: "\<And>j. j \<in> ?J \<Longrightarrow> j < n" using finite_nat_set_iff_bounded by auto
  have stays: "abs (w j) k = abs (w n) k" if "n \<le> j" for j
    using that
  proof (induction rule: dec_induct)
    case (step j)
    then have "j \<notin> ?J" using n by fastforce
    then show ?case using step by simp
  qed simp
  then have "final (abs (w n) k)" using leaves [of n] by metis
  then show ?thesis using stays by blast
qed

end

section \<open>Rows and phases\<close>

definition row_phase :: "task_attempt \<Rightarrow> phase" where
  "row_phase r = (case status r of
     PENDING \<Rightarrow> Waiting (attempt_count r)
   | RUNNING \<Rightarrow> Active (attempt_count r)
   | SUCCESS \<Rightarrow> Succeeded (attempt_count r) (execution_result r)
   | FAILED \<Rightarrow> if give_up_reason r = None then Waiting (attempt_count r) else Abandoned (attempt_count r))"

lemma row_phase_new: "row_phase (new_attempt i b p a t) = Waiting 0"
  by (simp add: row_phase_def new_attempt_def)

type_synonym job = "int \<times> string \<times> string"

definition phase_of :: "db \<Rightarrow> job \<Rightarrow> phase" where
  "phase_of d k = (case k of (block, path, args) \<Rightarrow>
     (case find_key block path args d of None \<Rightarrow> Unknown | Some r \<Rightarrow> row_phase r))"

lemma phase_of_empty [simp]: "phase_of empty_db k = Unknown"
  by (simp add: phase_of_def find_key_def empty_db_def split: prod.split)

text \<open>The row of a unit of work.\<close>

definition job_row :: "db \<Rightarrow> job \<Rightarrow> task_attempt option" where
  "job_row d k = (case k of (block, path, args) \<Rightarrow> find_key block path args d)"

lemma job_row_Some: "db_ok d \<Longrightarrow> job_row d k = Some r \<longleftrightarrow> row (attempt_id r) d = Some r \<and> attempt_key r = k"
  by (cases k) (auto simp: job_row_def find_key_eq_Some row_eq_Some)

lemma job_row_key: "job_row d k = Some r \<Longrightarrow> attempt_key r = k"
  by (cases k) (auto simp: job_row_def find_key_def find_Some_iff)

lemma phase_of_job_row: "phase_of d k = (case job_row d k of None \<Rightarrow> Unknown | Some r \<Rightarrow> row_phase r)"
  by (cases k) (simp add: phase_of_def job_row_def)

text \<open>With the sweep on, every claim has a lease.\<close>

definition leased_ok :: "bool \<Rightarrow> task_attempt \<Rightarrow> bool" where
  "leased_ok sw r \<longleftrightarrow> row_ok r \<and> (sw \<longrightarrow> status r = RUNNING \<longrightarrow> lease_expires_at r \<noteq> None)"

lemma row_step_leased: "row_step s R sw T r r' \<Longrightarrow> leased_ok sw r \<Longrightarrow> leased_ok sw r'"
  unfolding leased_ok_def
proof (intro conjI impI)
  assume step: "row_step s R sw T r r'" and ok: "row_ok r \<and> (sw \<longrightarrow> status r = RUNNING \<longrightarrow> lease_expires_at r \<noteq> None)"
  show "row_ok r'" using row_step_row_ok [OF step] ok by blast
  show "lease_expires_at r' \<noteq> None" if "sw" "status r' = RUNNING"
    using step ok that by cases (auto simp: write_defs reset_write_def split: option.splits if_splits)
qed

interpretation leased: row_invariant s R sw T "leased_ok sw"
proof
  show "leased_ok sw (new_attempt i b p a t)" for i b p a t
    using row_ok_new by (simp add: leased_ok_def)
qed (rule row_step_leased)

lemma row_step_phase:
  assumes "row_step s R sw T r r'" "leased_ok sw r" "\<And>r. R r \<Longrightarrow> allow (attempt_count r)"
  shows "(job_step allow)\<^sup>=\<^sup>= (row_phase r) (row_phase r')"
  using assms(1)
proof cases
  case (claimed c token lease)
  then show ?thesis
    using job_step.started [of allow "attempt_count r"] by (simp add: row_phase_def guard_defs claim_write_def)
next
  case (success token c v)
  then show ?thesis
    using job_step.succeeded [of allow "attempt_count r" v] by (simp add: row_phase_def guard_defs success_write_def)
next
  case (failed delay c)
  then show ?thesis
    using assms(3) [of r] job_step.failed [of allow "attempt_count r"] job_step.exhausted [of allow "attempt_count r"]
    by (auto simp: row_phase_def failure_write_def failure_fields_def split: option.splits)
next
  case (given_up c reason)
  then show ?thesis
    using job_step.abandoned [of allow "attempt_count r"]
    by (auto simp: row_phase_def still_runnable_def give_up_write_def)
next
  case (reset stale_before ttl_queues c)
  then have "status r \<noteq> RUNNING" "give_up_reason r = None" "status r \<noteq> SUCCESS"
    using stuck_not_given_up assms(2) by (auto simp: leased_ok_def)
  then show ?thesis using reset by (cases "status r") (simp_all add: row_phase_def reset_write_def)
qed (auto simp: row_phase_def guard_defs dispatch_write_def expired_message_iff expired_message_write_def
    deadline_write_def requeue_write_def split: status.splits)

section \<open>The table refines the machine\<close>

definition leased_table :: "bool \<Rightarrow> db \<Rightarrow> bool" where
  "leased_table sw d \<longleftrightarrow> db_ok d \<and> rows_ok (leased_ok sw) d"

text \<open>The retry rules in force, by the number of tries.\<close>

definition allows :: "ctx \<Rightarrow> nat \<Rightarrow> bool" where
  "allows x n \<longleftrightarrow> settings_allows_retry (cfg x) n \<or> list_ex (\<lambda>(_, q). allows_retry (retry q) n) (queues x)"

lemma may_retry_allows: "may_retry x r \<Longrightarrow> allows x (attempt_count r)"
  by (auto simp: may_retry_def allows_def)

lemma allows_at_most: "tries_at_most x m \<Longrightarrow> allows x n \<Longrightarrow> n < m"
  by (fastforce simp: tries_at_most_def allows_def list_ex_iff list_all_iff allows_retry_def
      settings_allows_retry_def split: option.splits)

lemma attempt_step_phase:
  assumes "attempt_step (cfg x) (may_retry x) sw T d d'" "leased_table sw d"
  shows "(job_step (allows x))\<^sup>=\<^sup>= (phase_of d k) (phase_of d' k)"
proof -
  obtain block path args where k: "k = (block, path, args)" by (metis surj_pair)
  have ok: "db_ok d" "db_ok d'" using assms attempt_step_db_ok by (auto simp: leased_table_def)
  show ?thesis
  proof (cases "find_key block path args d")
    case (Some r)
    then have r: "row (attempt_id r) d = Some r" "attempt_key r = k"
      using find_key_eq_Some [OF ok(1)] row_eq_Some [OF ok(1)] by (auto simp: k)
    obtain r' where r': "row (attempt_id r) d' = Some r'" "row_step (cfg x) (may_retry x) sw T r r'"
      using attempt_step_row [OF assms(1) ok(1) r(1)] by blast
    have "find_key block path args d' = Some r'"
      using row_mem [OF r'(1)] row_step_key [OF r'(2)] r(2) by (simp add: find_key_eq_Some [OF ok(2)] k)
    moreover have "leased_ok sw r" using assms(2) r(1) rows_okD by (auto simp: leased_table_def)
    ultimately show ?thesis
      using row_step_phase [OF r'(2), where allow = "allows x"] may_retry_allows Some by (simp add: phase_of_def k)
  next
    case None
    show ?thesis
    proof (cases "find_key block path args d'")
      case (Some r')
      then have r': "row (attempt_id r') d' = Some r'" "attempt_key r' = k"
        using find_key_eq_Some [OF ok(2)] row_eq_Some [OF ok(2)] by (auto simp: k)
      have "row (attempt_id r') d = None"
      proof (rule ccontr)
        assume "row (attempt_id r') d \<noteq> None"
        then obtain r where r: "row (attempt_id r') d = Some r" by blast
        then have "attempt_key r = k" using attempt_step_row [OF assms(1) ok(1) r] r' row_step_key by fastforce
        then show False using None row_mem [OF r] by (auto simp: find_key_None k)
      qed
      then have "row_phase r' = Waiting 0"
        using attempt_step_new_rows [OF assms(1) ok(1) r'(1)] row_phase_new by metis
      then show ?thesis using None Some job_step.recorded [of "allows x"] by (simp add: phase_of_def k)
    qed (simp add: phase_of_def k None)
  qed
qed

interpretation lifecycle: simulation "attempt_step (cfg x) (may_retry x) (sweeping x) T" "leased_table (sweeping x)"
    phase_of "job_step (allows x)"
proof
  show "leased_table (sweeping x) d'" if "leased_table (sweeping x) d"
    "attempt_step (cfg x) (may_retry x) (sweeping x) T d d'" for d d'
    using that leased.step_keeps attempt_step_db_ok by (auto simp: leased_table_def)
  show "job_steps (allows x) (phase_of d k) (phase_of d' k)" if "leased_table (sweeping x) d"
    "attempt_step (cfg x) (may_retry x) (sweeping x) T d d'" for d d' k
    using attempt_step_phase [OF that(2,1), of k] by (auto elim: sup2E)
qed

section \<open>The system\<close>

text \<open>
  One action of one process of a project with the context \<open>x\<close>: the scheduler or a backfill submits a
  block, a worker runs a message or dies while it does, the sweep recovers attempts, the operator gives up;
  and time passes. Submissions, runs and recoveries are several statements each, between which others act:
  any steps of the lifecycle (claims with other tokens, for a run). Of the gap between the read of an expired
  lease and its failure one thing is assumed: the attempt is not claimed anew with the new lease expired too.
\<close>

inductive system_step :: "ctx \<Rightarrow> world \<Rightarrow> world \<Rightarrow> bool" for x where
  submit: "others_between x UNIV g \<Longrightarrow>
    system_step x w (snd (execute_amid g x item block args use_archive queue head w))"
| work: "others_act x T v \<Longrightarrow> system_step x w (snd (run x v f block kwargs w))"
| died_claimed: "others_act x T v \<Longrightarrow> system_step x w (died_claimed x v f block kwargs w)"
| died_committed: "others_act x T v \<Longrightarrow> system_step x w (died_committed x v f block kwargs w)"
| sweep: "others_between x UNIV g \<Longrightarrow> (\<And>i. others_between x UNIV (gs i)) \<Longrightarrow>
    (\<And>i. no_second_lease i (gs i FailingLease)) \<Longrightarrow> (stale_after \<noteq> None \<Longrightarrow> sweeping x) \<Longrightarrow>
    system_step x w (snd (reconcile_amid g gs x locked stale_after limit head w))"
| give_up: "system_step x w (snd (handle_give_up x task from_block to_block dry w))"
| tick: "system_step x w (w\<lparr>clk := c\<rparr>)"

text \<open>The submission and the sweep that nobody interferes with.\<close>

lemma submit_alone: "system_step x w (snd (execute x item block args use_archive queue head w))"
  unfolding execute_def by (rule system_step.submit) (rule others_alone)

lemma sweep_alone:
  "(stale_after \<noteq> None \<Longrightarrow> sweeping x) \<Longrightarrow> system_step x w (snd (reconcile x locked stale_after limit head w))"
  unfolding reconcile_def by (intro system_step.sweep others_alone) (simp_all add: no_second_lease_def)

abbreviation system_steps :: "ctx \<Rightarrow> world \<Rightarrow> world \<Rightarrow> bool" where
  "system_steps x \<equiv> (system_step x)\<^sup>*\<^sup>*"

lemma system_step_evolves:
  assumes "system_step x w w'" "db_ok (table w)"
  shows "evolves x UNIV (table w) (table w')"
  using assms(1)
proof cases
  case (submit g item block args use_archive queue head)
  then show ?thesis using takes_stepsD [OF execute_amid_takes_steps assms(2)] by simp
next
  case (work T v f block kwargs)
  have "evolves x (insert (claim_token v) T) (table w) (table w')"
    using run_evolves [OF work(2) assms(2) surjective_pairing] by (simp add: work(1))
  then show ?thesis by (rule evolves_tokens) simp
next
  case (died_claimed T v f block kwargs)
  show ?thesis unfolding died_claimed(1)
    by (rule evolves_tokens [OF died_evolves(1) [OF died_claimed(2) assms(2)]]) simp
next
  case (died_committed T v f block kwargs)
  show ?thesis unfolding died_committed(1)
    by (rule evolves_tokens [OF died_evolves(2) [OF died_committed(2) assms(2)]]) simp
next
  case (sweep g gs stale_after locked limit head)
  then show ?thesis using takes_stepsD [OF reconcile_amid_takes_steps assms(2)] by simp
next
  case (give_up task from_block to_block dry)
  then show ?thesis using handlesD [OF handle_give_up_handles assms(2)] by simp
qed simp

interpretation system: simulation "system_step x" "\<lambda>w. leased_table (sweeping x) (table w)"
    "\<lambda>w. phase_of (table w)" "job_step (allows x)"
proof
  fix w w' assume inv: "leased_table (sweeping x) (table w)" and step: "system_step x w w'"
  have "attempt_steps (cfg x) (may_retry x) (sweeping x) UNIV (table w) (table w')"
    using system_step_evolves [OF step] inv by (simp add: leased_table_def evolves_def)
  note sim = lifecycle.steps_simulate [OF this inv]
  show "leased_table (sweeping x) (table w')" using sim by blast
  show "job_steps (allows x) (phase_of (table w) k) (phase_of (table w') k)" for k using sim by blast
qed

text \<open>A system whose retry rules allow at most \<open>Suc m\<close> tries.\<close>

interpretation bounded_system: settling "\<lambda>w w'. tries_at_most x (Suc m) \<and> system_step x w w'"
    "\<lambda>w. leased_table (sweeping x) (table w)" "\<lambda>w. phase_of (table w)" "job_step (\<lambda>n. n < Suc m)"
    "within_tries (Suc m)" "phase_rank (Suc m)"
proof
  fix w w' assume inv: "leased_table (sweeping x) (table w)" and step: "tries_at_most x (Suc m) \<and> system_step x w w'"
  show "leased_table (sweeping x) (table w')" using system.inv_step inv step by blast
  show "job_steps (\<lambda>n. n < Suc m) (phase_of (table w) k) (phase_of (table w') k)" for k
    by (rule job_steps_mono [OF system.simulates [OF inv]]) (use step allows_at_most in blast)+
next
  show "within_tries (Suc m) q \<and> phase_rank (Suc m) q < phase_rank (Suc m) p"
    if "job_step (\<lambda>n. n < Suc m) p q" "within_tries (Suc m) p" for p q
    using job_step_rank [OF that] by simp
qed

lemma empty_leased [simp]: "leased_table sw empty_db"
  by (simp add: leased_table_def)

lemma system_from_empty:
  "system_steps x w0 w \<Longrightarrow> table w0 = empty_db \<Longrightarrow>
   leased_table (sweeping x) (table w) \<and> job_steps (allows x) Unknown (phase_of (table w) k)"
  using system.steps_simulate [of x w0 w k] by simp

end
