(* ===== verification/Job_Progress.thy ===== *)
theory Job_Progress
  imports Job_Machine
begin

text \<open>
  Every recorded unit of work of a \<open>BlockDumper\<close> is finished: in a run of the system that is weakly fair to
  its workers and its sweeps, it succeeds or is abandoned, whatever workers die on the way. The first
  section follows one row through the steps of the lifecycle, the second what a worker and the sweeps do
  for a row that waits for them, the third puts infinite runs together.
\<close>

section \<open>One row along the steps\<close>

abbreviation row_steps :: "ctx \<Rightarrow> string set \<Rightarrow> task_attempt \<Rightarrow> task_attempt \<Rightarrow> bool" where
  "row_steps x T \<equiv> (row_step (cfg x) (may_retry x) (sweeping x) T)\<^sup>*\<^sup>*"

lemma evolves_row_steps:
  assumes "evolves x T d d'" "db_ok d" "row i d = Some r"
  shows "\<exists>r'. row i d' = Some r' \<and> row_steps x T r r'"
  using assms(1) unfolding evolves_def
proof (induction rule: rtranclp_induct)
  case (step y z)
  then obtain ry where ry: "row i y = Some ry" "row_steps x T r ry" by blast
  have "db_ok y" using attempt_steps_db_ok [OF step.hyps(1) assms(2)] .
  then show ?case
    using attempt_step_row [OF step.hyps(2) _ ry(1)] ry(2) by (meson rtranclp.rtrancl_into_rtrancl)
qed (use assms(3) in blast)

lemma row_steps_key: "row_steps x T r r' \<Longrightarrow> attempt_id r' = attempt_id r \<and> attempt_key r' = attempt_key r"
  by (induction rule: rtranclp_induct) (auto dest: row_step_key)

lemma evolves_job_row:
  assumes "evolves x T d d'" "db_ok d" "job_row d k = Some r"
  shows "\<exists>r'. job_row d' k = Some r' \<and> row_steps x T r r'"
proof -
  have r: "row (attempt_id r) d = Some r" "attempt_key r = k" using assms(2,3) job_row_Some by blast+
  obtain r' where r': "row (attempt_id r) d' = Some r'" "row_steps x T r r'"
    using evolves_row_steps [OF assms(1,2) r(1)] by blast
  then show ?thesis
    using job_row_Some [OF evolves_db_ok [OF assms(1,2)]] row_steps_key [OF r'(2)] r(2) by metis
qed

lemma evolves_job_row_id:
  assumes "evolves x T d d'" "db_ok d" "job_row d k = Some r" "row (attempt_id r) d' = Some r'"
  shows "job_row d' k = Some r'"
  using evolves_job_row [OF assms(1-3)] assms(4) row_steps_key job_row_Some [OF evolves_db_ok [OF assms(1,2)]]
  by (metis option.inject)

text \<open>Properties of rows that steps keep.\<close>

lemma row_steps_keep:
  assumes "row_steps x T r r'" "row_ok r" "P r"
    and "\<And>r r'. row_step (cfg x) (may_retry x) (sweeping x) T r r' \<Longrightarrow> row_ok r \<Longrightarrow> P r \<Longrightarrow> P r'"
  shows "P r' \<and> row_ok r'"
  using assms(1)
proof (induction rule: rtranclp_induct)
  case (step ry rz)
  then show ?case using assms(4) row_step_row_ok by blast
qed (use assms in blast)

lemma evolves_keep:
  assumes "evolves x T d d'" "table_ok d" "row i d = Some r" "P r"
    and "\<And>r r'. row_step (cfg x) (may_retry x) (sweeping x) T r r' \<Longrightarrow> row_ok r \<Longrightarrow> P r \<Longrightarrow> P r'"
  shows "\<exists>r'. row i d' = Some r' \<and> P r' \<and> attempt_key r' = attempt_key r"
proof -
  have ok: "db_ok d" "row_ok r" using assms(2) rows_okD [OF _ assms(3), of row_ok] by (simp_all add: table_ok_def)
  obtain r' where r': "row i d' = Some r'" "row_steps x T r r'" using evolves_row_steps [OF assms(1) ok(1) assms(3)] by blast
  moreover have "P r' \<and> row_ok r'" using r'(2) ok(2) assms(4) by (rule row_steps_keep) (rule assms(5))
  ultimately show ?thesis using row_steps_key by blast
qed

text \<open>More than \<open>n\<close> tries, or no more tries at all.\<close>

definition beyond :: "nat \<Rightarrow> task_attempt \<Rightarrow> bool" where
  "beyond n r \<longleftrightarrow> n < attempt_count r \<or> status r = SUCCESS \<or> give_up_reason r \<noteq> None"

lemma row_step_beyond: "row_step s R sw T r r' \<Longrightarrow> row_ok r \<Longrightarrow> beyond n r \<Longrightarrow> beyond n r'"
  unfolding beyond_def using row_step_count row_step_success row_step_given_up by (metis order_less_le_trans)

definition queued :: "nat \<Rightarrow> task_attempt \<Rightarrow> bool" where
  "queued n r \<longleftrightarrow> status r = PENDING \<and> attempt_count r = n"

lemma row_step_queued:
  assumes "row_step s R sw T r r'" "row_ok r" "queued n r \<or> beyond n r"
  shows "queued n r' \<or> beyond n r'"
proof (cases "beyond n r")
  case False
  then have "status r = PENDING" "attempt_count r = n" using assms(3) by (auto simp: queued_def)
  with assms(1) show ?thesis
    by cases (auto simp: queued_def beyond_def guard_defs give_up_write_def queue_is_stuck_def)
qed (use row_step_beyond assms in blast)

text \<open>A claim sets the lease; no other step changes it while the attempt runs.\<close>

definition leased_until :: "nat \<Rightarrow> instant option \<Rightarrow> task_attempt \<Rightarrow> bool" where
  "leased_until n e r \<longleftrightarrow> n < attempt_count r \<or>
     attempt_count r = n \<and> (status r = RUNNING \<longrightarrow> lease_expires_at r = e)"

lemma row_step_leased_until: "row_step s R sw T r r' \<Longrightarrow> leased_until n e r \<Longrightarrow> leased_until n e r'"
  by (induction rule: row_step.induct)
    (auto simp: leased_until_def write_defs reset_write_def split: option.splits)

text \<open>Without claims an attempt does not become RUNNING.\<close>

lemma row_steps_running:
  assumes "row_steps x {} r r'" "status r' = RUNNING"
  shows "status r = RUNNING \<and> lease_expires_at r = lease_expires_at r'"
  using assms
proof (induction rule: converse_rtranclp_induct)
  case (step r ry)
  then have "status ry = RUNNING" "lease_expires_at ry = lease_expires_at r'" by simp_all
  with step.hyps(1) show ?case
    by cases (auto simp: write_defs reset_write_def split: option.splits)
qed simp

text \<open>A failed attempt that waits for its retry, and one the stuck-task sweep will find.\<close>

definition overdue :: "settings \<Rightarrow> instant \<Rightarrow> task_attempt \<Rightarrow> bool" where
  "overdue s t r \<longleftrightarrow> status r = FAILED \<and> give_up_reason r = None \<and> col_lt (next_retry_at r) t \<and>
     (dispatch_queue r \<noteq> None \<or> int (attempt_count r) < get_max_attempt_limit s)"

lemma overdue_stuck: "overdue s t r \<Longrightarrow> stuck_filter s t qs r"
  by (auto simp: overdue_def stuck_filter_def col_iff)

definition resting :: "settings \<Rightarrow> nat \<Rightarrow> instant \<Rightarrow> task_attempt \<Rightarrow> bool" where
  "resting s n t r \<longleftrightarrow> status r = FAILED \<and> give_up_reason r = None \<and> attempt_count r = n \<and>
     next_retry_at r = Some t \<and> (dispatch_queue r \<noteq> None \<or> int n < get_max_attempt_limit s)"

lemma row_step_resting:
  assumes "row_step s R sw T r r'" "row_ok r" "resting s n t r \<or> queued n r \<or> beyond n r"
  shows "resting s n t r' \<or> queued n r' \<or> beyond n r'"
proof (cases "resting s n t r")
  case True
  with assms(1) show ?thesis
    by cases (auto simp: resting_def queued_def beyond_def guard_defs write_defs reset_write_def)
qed (use row_step_queued [OF assms(1,2)] assms(3) in blast)

text \<open>The retry rules that gave a failed attempt another try let the sweep find it.\<close>

definition retry_ok :: "settings \<Rightarrow> task_attempt \<Rightarrow> bool" where
  "retry_ok s r \<longleftrightarrow> row_ok r \<and> (status r = FAILED \<longrightarrow> give_up_reason r = None \<longrightarrow>
     dispatch_queue r \<noteq> None \<or> int (attempt_count r) < get_max_attempt_limit s)"

lemma row_step_retry_ok:
  assumes "row_step (cfg x) (may_retry x) sw T r r'" "retry_ok (cfg x) r"
  shows "retry_ok (cfg x) r'"
proof -
  have "row_ok r'" using row_step_row_ok assms by (auto simp: retry_ok_def)
  moreover have "dispatch_queue r' \<noteq> None \<or> int (attempt_count r') < get_max_attempt_limit (cfg x)"
    if "status r' = FAILED" "give_up_reason r' = None"
    using assms(1)
  proof cases
    case (failed delay c)
    then have "may_retry x r" using that by (auto simp: failure_write_def failure_fields_def split: option.splits)
    moreover have "dispatch_queue r' = dispatch_queue r" "attempt_count r' = attempt_count r"
      using failed by (auto simp: failure_write_def failure_fields_def split: option.splits)
    ultimately show ?thesis by (auto simp: may_retry_def settings_allows_retry_def)
  qed (use assms(2) that in \<open>auto simp: retry_ok_def guard_defs write_defs reset_write_def split: option.splits\<close>)
  ultimately show ?thesis by (simp add: retry_ok_def)
qed

interpretation retried: row_invariant "cfg x" "may_retry x" sw T "retry_ok (cfg x)"
proof
  show "retry_ok (cfg x) (new_attempt i b p a t)" for i b p a t
    using row_ok_new by (simp add: retry_ok_def)
qed (rule row_step_retry_ok)

section \<open>Who moves a row on\<close>

subsection \<open>A worker\<close>

text \<open>A worker that gets a message of the unit of work \<open>k\<close>; it may die once it has claimed the attempt.\<close>

definition served :: "ctx \<Rightarrow> job \<Rightarrow> world \<Rightarrow> world \<Rightarrow> bool" where
  "served x k w w' \<longleftrightarrow> (\<exists>T v f block kwargs lease.
     k = (block, get_executable_path f, serialize_args (db_kwargs kwargs)) \<and> others_act x T v \<and>
     lease_seconds (cfg x) (hard_limit v) = Inr lease \<and>
     (w' = snd (run x v f block kwargs w) \<or> w' = died_claimed x v f block kwargs w))"

lemma claim_attempt_table:
  assumes "find_attempt block path args (table w) = Some task" "status task = PENDING"
    and "lease_seconds (cfg x) (hard_limit v) = Inr lease"
  defines "c \<equiv> claim (clk w) (attempt_id task) (claim_token v) lease (before_claim v (table w))"
  shows "table (snd (claim_attempt x v block path args w)) =
    (if fst c then snd c else snd (give_up_if_past_deadline (clk w) (attempt_id task) (snd c)))"
  using assms(1-3) unfolding c_def
  by (auto simp: claim_attempt_def Let_def case_prod_beta split: option.splits bool.splits prod.splits sum.splits)

text \<open>A worker that gets the message of a PENDING attempt starts it, finds it started, or gives it up.\<close>

lemma claim_attempt_beyond:
  assumes "others_act x T v" "table_ok (table w)" "find_attempt block path args (table w) = Some r"
    and "queued n r" "lease_seconds (cfg x) (hard_limit v) = Inr lease"
  shows "\<exists>r'. row (attempt_id r) (table (snd (claim_attempt x v block path args w))) = Some r' \<and> beyond n r'"
proof -
  let ?i = "attempt_id r" and ?d0 = "before_claim v (table w)" and ?c = "clk w"
  have ok: "db_ok (table w)" using assms(2) by (simp add: table_ok_def)
  have r: "row ?i (table w) = Some r"
    using assms(3) find_key_eq_Some [OF ok] row_eq_Some [OF ok] by (simp add: find_attempt_def)
  have ev: "evolves x T (table w) ?d0" using assms(1) ok unfolding others_act_def by blast
  obtain r0 where r0: "row ?i ?d0 = Some r0" and q0: "queued n r0 \<or> beyond n r0"
    using evolves_keep [OF ev assms(2) r, of "\<lambda>r. queued n r \<or> beyond n r"] assms(4) row_step_queued by blast
  have ok0: "db_ok ?d0" and rok0: "row_ok r0"
    using evolves_table_ok [OF ev assms(2)] rows_okD [OF _ r0, of row_ok] by (simp_all add: table_ok_def)
  have table: "table (snd (claim_attempt x v block path args w)) =
      (if fst (claim ?c ?i (claim_token v) lease ?d0) then snd (claim ?c ?i (claim_token v) lease ?d0)
       else snd (give_up_if_past_deadline ?c ?i (snd (claim ?c ?i (claim_token v) lease ?d0))))"
    using claim_attempt_table [OF assms(3) _ assms(5)] assms(4) by (simp add: queued_def)
  show ?thesis
  proof (cases "claim_guard ?c r0")
    case True
    then have "fst (claim ?c ?i (claim_token v) lease ?d0)"
      using update_by_id_won [OF ok0] r0 unfolding claim_def by blast
    moreover have "beyond n (claim_write ?c (claim_token v) lease r0)"
      using q0 by (auto simp: queued_def beyond_def True claim_write_def)
        (use True in \<open>auto simp: claim_guard_def\<close>)
    ultimately show ?thesis using table r0 True by (simp add: claim_def row_update_by_id)
  next
    case False
    then have lost: "\<not> fst (claim ?c ?i (claim_token v) lease ?d0)"
      "snd (claim ?c ?i (claim_token v) lease ?d0) = ?d0"
      using update_by_id_won [OF ok0] update_by_id_lost [OF _ ok0] r0 unfolding claim_def by fastforce+
    have "past_deadline ?c r0" if "queued n r0"
      using that False rok0
      by (auto simp: queued_def guard_defs row_ok_def col_iff split: option.splits)
    then have "beyond n (if past_deadline ?c r0 then give_up_write ?c BLOCK_AGE r0 else r0)"
      using q0 by (auto simp: beyond_def)
    then show ?thesis
      using table lost r0 by (simp add: give_up_if_past_deadline_def row_update_by_id)
  qed
qed

lemma served_beyond:
  assumes "served x k w w'" "table_ok (table w)" "job_row (table w) k = Some r" "queued n r"
  shows "\<exists>r'. job_row (table w') k = Some r' \<and> beyond n r'"
proof -
  obtain T v f block kwargs lease where s: "k = (block, get_executable_path f, serialize_args (db_kwargs kwargs))"
      "others_act x T v" "lease_seconds (cfg x) (hard_limit v) = Inr lease"
      "w' = snd (run x v f block kwargs w) \<or> w' = died_claimed x v f block kwargs w"
    using assms(1) unfolding served_def by blast
  have ok: "db_ok (table w)" using assms(2) by (simp add: table_ok_def)
  obtain c w1 where cl: "claim_attempt x v block (get_executable_path f) (serialize_args (db_kwargs kwargs)) w = (c, w1)"
    by fastforce
  have ev1: "evolves x (insert (claim_token v) T) (table w) (table w1)"
    using claim_attempt_evolves [OF s(2) ok cl] by blast
  have "find_attempt block (get_executable_path f) (serialize_args (db_kwargs kwargs)) (table w) = Some r"
    using assms(3) s(1) by (simp add: job_row_def find_attempt_def)
  then obtain r1 where r1: "row (attempt_id r) (table w1) = Some r1" "beyond n r1"
    using claim_attempt_beyond [OF s(2) assms(2) _ assms(4) s(3)] cl by fastforce
  have ok1: "table_ok (table w1)" using evolves_table_ok [OF ev1 assms(2)] .
  have ev2: "evolves x (insert (claim_token v) T) (table w1) (table w')"
    using s(4) run_after_claim [OF s(2) ok surjective_pairing cl] cl by (auto simp: died_claimed_def)
  obtain r' where r': "row (attempt_id r) (table w') = Some r'" "beyond n r'"
    using evolves_keep [OF ev2 ok1 r1(1), of "beyond n"] r1(2) row_step_beyond by blast
  then show ?thesis using evolves_job_row_id [OF evolves_trans [OF ev1 ev2] ok assms(3)] by blast
qed

subsection \<open>The lease sweep\<close>

text \<open>A sweep that has the unit of work in its batch of expired leases.\<close>

definition lease_swept :: "ctx \<Rightarrow> job \<Rightarrow> world \<Rightarrow> world \<Rightarrow> bool" where
  "lease_swept x k w w' \<longleftrightarrow> (\<exists>locked stale_after limit head r.
     job_row (table w) k = Some r \<and>
     attempt_id r \<in> set (expired_lease_ids (clk w) limit (dumper_paths (registry x)) (table w)) \<and>
     w' = snd (reconcile x locked stale_after limit head w))"

lemma lease_swept_stops:
  assumes "lease_swept x k w w'" "db_ok (table w)" "sweeping x" "\<And>r. \<exists>delay. retry_delay x r = Inr delay"
    and "job_row (table w') k = Some r'"
  shows "status r' \<noteq> RUNNING"
proof
  assume run: "status r' = RUNNING"
  obtain locked stale_after limit head r where r: "job_row (table w) k = Some r"
      "attempt_id r \<in> set (expired_lease_ids (clk w) limit (dumper_paths (registry x)) (table w))"
    and w': "w' = snd (reconcile x locked stale_after limit head w)"
    using assms(1) unfolding lease_swept_def by blast
  let ?w1 = "after_leases x limit head w"
  have row: "row (attempt_id r) (table w) = Some r" using r(1) job_row_Some [OF assms(2)] by blast
  have exp: "lease_expired (clk w) r" "dumper_paths (registry x) \<noteq> []"
    using expired_lease_ids_mem [OF r(2) assms(2)] row by auto
  have w1: "evolves x {} (table w) (table ?w1)" "db_ok (table ?w1)"
    using handlesD [OF after_leases_handles assms(2)] by blast+
  obtain r1 where r1: "job_row (table ?w1) k = Some r1" "row_steps x {} r r1"
    using evolves_job_row [OF w1(1) assms(2) r(1)] by blast
  have "evolves x {} (table ?w1) (table w')"
    using reconcile_after_leases [OF assms(3) exp(2) w1(2)] by (simp add: w')
  then have "row_steps x {} r1 r'" using evolves_job_row [OF _ w1(2) r1(1)] assms(5) by fastforce
  from row_steps_running [OF this run] row_steps_running [OF r1(2)]
  have "lease_expired (clk w) r1" using exp(1) by (simp add: lease_expired_def)
  moreover have "row (attempt_id r) (table ?w1) = Some r1"
    using r1 row_steps_key job_row_Some [OF w1(2)] by metis
  ultimately show False
    using lease_loop_clears [OF assms(2,4)] r(2) unfolding after_leases_def by blast
qed

subsection \<open>The stuck-task sweep\<close>

text \<open>The attempts the third loop of \<open>reconcile\<close> works on.\<close>

definition stuck_batch :: "ctx \<Rightarrow> seconds \<Rightarrow> int \<Rightarrow> int option \<Rightarrow> world \<Rightarrow> nat list" where
  "stuck_batch x secs limit head w =
     (case ttl_windows x of Inl e \<Rightarrow> []
      | Inr windows \<Rightarrow>
          let w1 = after_leases x limit head w; k = left_for_messages x limit w;
              w2 = after_messages x windows k head w1
          in stuck_attempt_ids (cfg x) (py_now (clk w) - secs) (left_for_stuck x windows k w1)
               (dumper_paths (registry x)) (map fst windows) (table w2))"

definition stuck_swept :: "ctx \<Rightarrow> seconds \<Rightarrow> job \<Rightarrow> world \<Rightarrow> world \<Rightarrow> bool" where
  "stuck_swept x secs k w w' \<longleftrightarrow> (\<exists>locked limit head r.
     job_row (table w) k = Some r \<and> \<not> locked (attempt_id r) \<and>
     attempt_id r \<in> set (stuck_batch x secs limit head w) \<and>
     w' = snd (reconcile x locked (Some secs) limit head w))"

text \<open>An attempt that the sweep has dealt with: as long as nobody claims it, it stays so.\<close>

definition dealt_with :: "task_attempt \<Rightarrow> bool" where
  "dealt_with r \<longleftrightarrow> status r = PENDING \<or> status r = SUCCESS \<or> give_up_reason r \<noteq> None"

lemma row_step_dealt_with:
  assumes "row_step s R sw {} r r'" "row_ok r" "dealt_with r"
  shows "dealt_with r'"
proof (cases "status r = SUCCESS \<or> give_up_reason r \<noteq> None")
  case False
  then have "status r = PENDING" using assms(3) by (auto simp: dealt_with_def)
  with assms(1) show ?thesis
    by cases (auto simp: dealt_with_def guard_defs give_up_write_def)
qed (use row_step_success [OF assms(1,2)] row_step_given_up [OF assms(1,2)] in \<open>auto simp: dealt_with_def\<close>)

lemma row_step_overdue:
  assumes "row_step s R sw {} r r'" "row_ok r" "overdue s t r \<or> dealt_with r"
  shows "overdue s t r' \<or> dealt_with r'"
proof (cases "overdue s t r")
  case True
  with assms(1) show ?thesis
    by cases (auto simp: overdue_def dealt_with_def guard_defs write_defs reset_write_def)
qed (use row_step_dealt_with assms in blast)

lemma recover_stuck_task_deals:
  assumes "table_ok (table w)" "row i (table w) = Some r" "overdue (cfg x) t r \<or> dealt_with r"
    and "\<not> locked i" "executable_path r \<in> set (dumper_paths (registry x))" "sweeping x"
  shows "\<exists>r'. row i (table (snd (recover_stuck_task x locked t qs head i w))) = Some r' \<and> dealt_with r'"
proof -
  let ?w' = "snd (recover_stuck_task x locked t qs head i w)"
  have ok: "db_ok (table w)" and rok: "row_ok r"
    using assms(1) rows_okD [OF _ assms(2), of row_ok] by (simp_all add: table_ok_def)
  have ev: "evolves x {} (table w) (table ?w')" using handlesD [OF recover_stuck_task_handles [OF assms(6)] ok] by blast
  show ?thesis
  proof (cases "dealt_with r")
    case True
    then show ?thesis using evolves_keep [OF ev assms(1,2), of dealt_with] row_step_dealt_with by blast
  next
    case False
    then have stuck: "queue_is_stuck (cfg x) r t qs"
      using assms(3) overdue_stuck by (auto simp: queue_is_stuck_iff_filter)
    obtain item where item: "get_by_executable_path (executable_path r) (registry x) = Some item"
      using assms(5) find_None_iff [of "\<lambda>item. item_path item = executable_path r" "registry x"]
      by (cases "get_by_executable_path (executable_path r) (registry x)")
        (auto simp: memory.by_path_first dumper_paths_def get_functions_def)
    let ?d = "snd (update_by_id i (\<lambda>_. True) (reset_write (clk w)) (table w))"
    have res: "reset_to_pending (clk w) r (table w) = (reset_write (clk w) r, ?d)"
      using reset_to_pending_as_update [OF ok, of r] assms(2) row_id [OF assms(2)] by simp
    have row: "row i ?d = Some (reset_write (clk w) r)" using assms(2) by (simp add: row_update_by_id)
    have w': "?w' = snd (redispatch x item (reset_write (clk w) r) (status r) head (w\<lparr>table := ?d\<rparr>))"
      using assms(2,4) stuck item res by (simp add: recover_stuck_task_alone)
    have okd: "db_ok ?d" using ok by simp
    have "evolves x {} ?d (table ?w')"
      unfolding w' using handlesD [OF redispatch_handles, of "w\<lparr>table := ?d\<rparr>" x "{}"] okd by simp
    then obtain r' where r': "row i (table ?w') = Some r'" "row_steps x {} (reset_write (clk w) r) r'"
      using evolves_row_steps [OF _ okd row] by blast
    have "row_ok (reset_write (clk w) r)"
      using row_step_row_ok [OF row_step.reset [OF stuck assms(6)] rok] .
    then have "dealt_with r' \<and> row_ok r'"
      by (rule row_steps_keep [OF r'(2), of dealt_with]) (use row_step_dealt_with in \<open>auto simp: dealt_with_def\<close>)
    then show ?thesis using r'(1) by blast
  qed
qed

lemma executable_path_key: "attempt_key r' = attempt_key r \<Longrightarrow> executable_path r' = executable_path r"
  by (simp add: attempt_key_def)

lemma stuck_loop_deals:
  fixes w :: world and ids :: "nat list"
  assumes "table_ok (table w)" "row i (table w) = Some r" "overdue (cfg x) t r \<or> dealt_with r" "i \<in> set ids"
    and "\<not> locked i" "executable_path r \<in> set (dumper_paths (registry x))" "sweeping x"
  shows "\<exists>r'. row i (table (fold (\<lambda>i w. snd (recover_stuck_task x locked t qs head i w)) ids w)) = Some r' \<and> dealt_with r'"
proof -
  let ?h = "\<lambda>i w. snd (recover_stuck_task x locked t qs head i w)"
  obtain xs ys where ids: "ids = xs @ i # ys" using split_list [OF assms(4)] by blast
  define w1 where "w1 = fold ?h xs w"
  have loop: "evolves x {} (table v) (table (fold ?h js v)) \<and> table_ok (table (fold ?h js v))" if "table_ok (table v)" for js v
    using handlesD [OF stuck_loop_handles [OF assms(7)], of v "{}"] that evolves_table_ok unfolding table_ok_def by blast
  have one: "table_ok (table (?h i v))" if "table_ok (table v)" for v using loop [OF that, of "[i]"] by simp
  obtain r1 where r1: "row i (table w1) = Some r1" "overdue (cfg x) t r1 \<or> dealt_with r1" "attempt_key r1 = attempt_key r"
    using evolves_keep [of x "{}" "table w" "table w1" i r "\<lambda>r. overdue (cfg x) t r \<or> dealt_with r"]
      loop [OF assms(1)] assms(1-3) row_step_overdue unfolding w1_def by blast
  have ok1: "table_ok (table w1)" using loop [OF assms(1)] by (simp add: w1_def)
  have "executable_path r1 \<in> set (dumper_paths (registry x))" using assms(6) executable_path_key [OF r1(3)] by simp
  then obtain r2 where r2: "row i (table (?h i w1)) = Some r2" "dealt_with r2"
    using recover_stuck_task_deals [where locked = locked, OF ok1 r1(1,2) assms(5) _ assms(7)] by blast
  then show ?thesis
    using evolves_keep [of x "{}" "table (?h i w1)" "table (fold ?h ys (?h i w1))" i r2 dealt_with]
      loop [OF one [OF ok1]] one [OF ok1] row_step_dealt_with by (auto simp: ids w1_def)
qed

lemma stuck_swept_deals:
  assumes "stuck_swept x secs k w w'" "table_ok (table w)" "sweeping x" "job_row (table w) k = Some r"
    and "overdue (cfg x) (py_now (clk w) - secs) r"
  shows "\<exists>r'. job_row (table w') k = Some r' \<and> dealt_with r'"
proof -
  let ?i = "attempt_id r" and ?t = "py_now (clk w) - secs"
  obtain locked limit head where s: "\<not> locked ?i" "?i \<in> set (stuck_batch x secs limit head w)"
      "w' = snd (reconcile x locked (Some secs) limit head w)"
    using assms(1,4) unfolding stuck_swept_def by auto
  obtain windows where ws: "ttl_windows x = Inr windows"
    using s(2) by (cases "ttl_windows x") (auto simp: stuck_batch_def)
  define w1 where "w1 = after_leases x limit head w"
  define n where "n = left_for_messages x limit w"
  define w2 where "w2 = after_messages x windows n head w1"
  have ok: "db_ok (table w)" using assms(2) by (simp add: table_ok_def)
  have row: "row ?i (table w) = Some r" using assms(4) job_row_Some [OF ok] by blast
  have w1: "evolves x {} (table w) (table w1)" "clk w1 = clk w" "db_ok (table w1)"
    using handlesD [OF after_leases_handles ok] by (auto simp: w1_def)
  have w2: "evolves x {} (table w) (table w2)" "clk w2 = clk w"
    using handlesD [OF after_messages_handles w1(3)] w1 evolves_trans by (auto simp: w2_def)
  have ok2: "table_ok (table w2)" using evolves_table_ok [OF w2(1) assms(2)] .
  obtain r2 where r2: "row ?i (table w2) = Some r2" "overdue (cfg x) ?t r2 \<or> dealt_with r2" "attempt_key r2 = attempt_key r"
    using evolves_keep [OF w2(1) assms(2) row, of "\<lambda>r. overdue (cfg x) ?t r \<or> dealt_with r"] assms(5) row_step_overdue
    by blast
  have mem: "?i \<in> set (stuck_attempt_ids (cfg x) ?t (left_for_stuck x windows n w1)
      (dumper_paths (registry x)) (map fst windows) (table w2))"
    using s(2) ws by (simp add: stuck_batch_def Let_def w1_def n_def w2_def)
  then have path: "executable_path r2 \<in> set (dumper_paths (registry x))"
    using stuck_attempt_ids_mem r2(1) ok2 by (fastforce simp: table_ok_def)
  then have "dumper_paths (registry x) \<noteq> []" by auto
  then have w': "w' = fold (\<lambda>i w. snd (recover_stuck_task x locked ?t (map fst windows) head i w))
      (stuck_attempt_ids (cfg x) ?t (left_for_stuck x windows n w1) (dumper_paths (registry x)) (map fst windows) (table w2)) w2"
    using s(3) ws w2(2) reconcile_world [of x locked "Some secs" limit head w]
    by (simp add: Let_def after_stuck_def w1_def n_def w2_def)
  obtain r' where r': "row ?i (table w') = Some r'" "dealt_with r'"
    using stuck_loop_deals [where locked = locked, OF ok2 r2(1,2) mem s(1) path assms(3)] unfolding w' by blast
  have "evolves x {} (table w) (table w')"
    using handlesD [OF reconcile_handles ok, of "Some secs" x "{}"] assms(3) s(3) by blast
  then show ?thesis using r' evolves_job_row_id [OF _ ok assms(4)] by blast
qed

section \<open>Infinite runs\<close>

definition system_run :: "ctx \<Rightarrow> (nat \<Rightarrow> world) \<Rightarrow> bool" where
  "system_run x w \<longleftrightarrow> table (w 0) = empty_db \<and> (\<forall>j. system_step x (w j) (w (Suc j)))"

lemma run_steps: "system_run x w \<Longrightarrow> system_steps x (w 0) (w j)"
  by (induction j) (auto simp: system_run_def intro: rtranclp.rtrancl_into_rtrancl)

lemma run_leased: "system_run x w \<Longrightarrow> leased_table (sweeping x) (table (w j))"
  using system_from_empty [OF run_steps] by (simp add: system_run_def)

lemma run_table_ok: "system_run x w \<Longrightarrow> table_ok (table (w j))"
  using run_leased [of x w j] by (auto simp: leased_table_def table_ok_def rows_ok_def leased_ok_def)

lemma run_db_ok: "system_run x w \<Longrightarrow> db_ok (table (w j))"
  using run_table_ok by (simp add: table_ok_def)

lemma run_evolves_to:
  assumes "system_run x w" "i \<le> j"
  shows "evolves x UNIV (table (w i)) (table (w j))"
  using assms(2)
proof (induction rule: dec_induct)
  case (step j)
  have "evolves x UNIV (table (w j)) (table (w (Suc j)))"
    using assms(1) run_db_ok [OF assms(1)] by (intro system_step_evolves) (auto simp: system_run_def)
  then show ?case using step.IH evolves_trans by blast
qed simp

lemma run_retry_ok: "system_run x w \<Longrightarrow> rows_ok (retry_ok (cfg x)) (table (w j))"
  using run_evolves_to [of x w 0 j] retried.steps_keep [of x "sweeping x" UNIV "table (w 0)" "table (w j)"]
  by (simp add: evolves_def system_run_def)

text \<open>The row of a unit of work through a run.\<close>

lemma run_row_ok: "system_run x w \<Longrightarrow> job_row (table (w j)) k = Some r \<Longrightarrow> row_ok r \<and> retry_ok (cfg x) r \<and> leased_ok (sweeping x) r"
  using job_row_Some [OF run_db_ok, of x w j k r] rows_okD run_table_ok [of x w j] run_retry_ok [of x w j] run_leased [of x w j]
  unfolding table_ok_def leased_table_def by blast

lemma run_job_row:
  assumes "system_run x w" "i \<le> j" "job_row (table (w i)) k = Some r" "P r"
    and "\<And>r r'. row_step (cfg x) (may_retry x) (sweeping x) UNIV r r' \<Longrightarrow> row_ok r \<Longrightarrow> P r \<Longrightarrow> P r'"
  shows "\<exists>r'. job_row (table (w j)) k = Some r' \<and> P r'"
proof -
  have "row (attempt_id r) (table (w i)) = Some r" using assms(1,3) job_row_Some run_db_ok by blast
  from evolves_keep [where P = P, OF run_evolves_to [OF assms(1,2)] run_table_ok [OF assms(1)] this assms(4)] assms(5)
  obtain r' where "row (attempt_id r) (table (w j)) = Some r'" "P r'" by blast
  then show ?thesis
    using evolves_job_row_id [OF run_evolves_to [OF assms(1,2)] run_db_ok [OF assms(1)] assms(3)] by blast
qed

text \<open>
  Weak fairness: what could be done at all times from some time on is done at some later time. \<open>fair_run\<close>
  is fair to the unit of work \<open>k\<close>: a worker gets a message of an attempt that stays PENDING, and a
  sweep, with the timeout \<open>secs\<close>, has an attempt in its batch that stays there to be recovered.
\<close>

definition weakly_fair :: "(nat \<Rightarrow> bool) \<Rightarrow> (nat \<Rightarrow> bool) \<Rightarrow> bool" where
  "weakly_fair enabled taken \<longleftrightarrow> (\<forall>j. (\<forall>i\<ge>j. enabled i) \<longrightarrow> (\<exists>i\<ge>j. taken i))"

definition job_in :: "(task_attempt \<Rightarrow> bool) \<Rightarrow> world \<Rightarrow> job \<Rightarrow> bool" where
  "job_in P w k \<longleftrightarrow> (case job_row (table w) k of None \<Rightarrow> False | Some r \<Rightarrow> P r)"

definition fair_run :: "ctx \<Rightarrow> seconds \<Rightarrow> job \<Rightarrow> (nat \<Rightarrow> world) \<Rightarrow> bool" where
  "fair_run x secs k w \<longleftrightarrow>
     weakly_fair (\<lambda>i. job_in (\<lambda>r. status r = PENDING) (w i) k) (\<lambda>i. served x k (w i) (w (Suc i))) \<and>
     weakly_fair (\<lambda>i. job_in (lease_expired (clk (w i))) (w i) k) (\<lambda>i. lease_swept x k (w i) (w (Suc i))) \<and>
     weakly_fair (\<lambda>i. job_in (overdue (cfg x) (py_now (clk (w i)) - secs)) (w i) k)
       (\<lambda>i. stuck_swept x secs k (w i) (w (Suc i)))"

definition time_passes :: "(nat \<Rightarrow> world) \<Rightarrow> bool" where
  "time_passes w \<longleftrightarrow> (\<forall>t. \<exists>j. \<forall>i\<ge>j. t < py_now (clk (w i)) \<and> t < db_now (clk (w i)))"

lemma fair_runD:
  assumes "fair_run x secs k w"
  shows "(\<And>i. j \<le> i \<Longrightarrow> job_in (\<lambda>r. status r = PENDING) (w i) k) \<Longrightarrow> \<exists>i\<ge>j. served x k (w i) (w (Suc i))"
    and "(\<And>i. j \<le> i \<Longrightarrow> job_in (lease_expired (clk (w i))) (w i) k) \<Longrightarrow> \<exists>i\<ge>j. lease_swept x k (w i) (w (Suc i))"
    and "(\<And>i. j \<le> i \<Longrightarrow> job_in (overdue (cfg x) (py_now (clk (w i)) - secs)) (w i) k) \<Longrightarrow>
      \<exists>i\<ge>j. stuck_swept x secs k (w i) (w (Suc i))"
  using assms unfolding fair_run_def weakly_fair_def by simp_all

lemma row_phase_Waiting:
  "row_ok r \<Longrightarrow> row_phase r = Waiting n \<longleftrightarrow> attempt_count r = n \<and> give_up_reason r = None \<and>
    (status r = PENDING \<or> status r = FAILED)"
  by (auto simp: row_phase_def row_ok_def split: status.splits if_splits)

lemma row_phase_Active: "row_phase r = Active n \<longleftrightarrow> status r = RUNNING \<and> attempt_count r = n"
  by (auto simp: row_phase_def split: status.splits)

lemma waiting_not_beyond: "row_ok r \<Longrightarrow> row_phase r = Waiting n \<Longrightarrow> \<not> beyond n r"
  by (auto simp: row_phase_Waiting beyond_def)

lemma phase_job_row:
  "phase_of (table w) k = p \<Longrightarrow> p \<noteq> Unknown \<Longrightarrow> \<exists>r. job_row (table w) k = Some r \<and> row_phase r = p"
  by (auto simp: phase_of_job_row split: option.splits)

lemma run_recorded:
  assumes "system_run x w" "phase_of (table (w i)) k \<noteq> Unknown" "i \<le> j"
  shows "phase_of (table (w j)) k \<noteq> Unknown"
proof -
  obtain r where "job_row (table (w i)) k = Some r" using phase_job_row assms(2) by blast
  then obtain r' where "job_row (table (w j)) k = Some r'"
    using run_job_row [OF assms(1,3), of k r "\<lambda>_. True"] by blast
  then show ?thesis by (simp add: phase_of_job_row row_phase_def split: status.splits)
qed

lemma pending_leaves:
  assumes "system_run x w" "fair_run x secs k w" "job_row (table (w j)) k = Some r" "queued n r"
  shows "\<exists>i\<ge>j. phase_of (table (w i)) k \<noteq> Waiting n"
proof (rule ccontr)
  assume "\<not> ?thesis"
  then have wait: "phase_of (table (w i)) k = Waiting n" if "j \<le> i" for i using that by blast
  have queued: "\<exists>r. job_row (table (w i)) k = Some r \<and> queued n r" if le: "j \<le> i" for i
  proof -
    obtain r' where r': "job_row (table (w i)) k = Some r'" "queued n r' \<or> beyond n r'"
      using run_job_row [OF assms(1) le assms(3), of "\<lambda>r. queued n r \<or> beyond n r"] assms(4) row_step_queued by blast
    then show ?thesis using wait [OF le] waiting_not_beyond run_row_ok [OF assms(1) r'(1)] by (auto simp: phase_of_job_row)
  qed
  then have "job_in (\<lambda>r. status r = PENDING) (w i) k" if "j \<le> i" for i
    using that by (force simp: job_in_def queued_def)
  from fair_runD(1) [OF assms(2) this] obtain i where i: "j \<le> i" "served x k (w i) (w (Suc i))" by blast
  obtain r0 where "job_row (table (w i)) k = Some r0" "queued n r0" using queued [OF i(1)] by blast
  then obtain r' where r': "job_row (table (w (Suc i))) k = Some r'" "beyond n r'"
    using served_beyond [OF i(2) run_table_ok [OF assms(1)]] by blast
  then show False
    using wait [of "Suc i"] i(1) waiting_not_beyond run_row_ok [OF assms(1) r'(1)] by (auto simp: phase_of_job_row)
qed

lemma waiting_leaves:
  assumes "system_run x w" "fair_run x secs k w" "time_passes w" "sweeping x" "phase_of (table (w j)) k = Waiting n"
  shows "\<exists>i\<ge>j. phase_of (table (w i)) k \<noteq> Waiting n"
proof (rule ccontr)
  assume "\<not> ?thesis"
  then have wait: "phase_of (table (w i)) k = Waiting n" if "j \<le> i" for i using that by blast
  have failed: "status r = FAILED \<and> attempt_count r = n \<and> give_up_reason r = None"
    if "j \<le> i" "job_row (table (w i)) k = Some r" for i r
  proof -
    have "row_phase r = Waiting n" "row_ok r"
      using wait [OF that(1)] that(2) run_row_ok [OF assms(1)] by (auto simp: phase_of_job_row)
    moreover have "\<not> queued n r" using pending_leaves [OF assms(1,2) that(2)] wait that(1) order_trans by blast
    ultimately show ?thesis by (auto simp: row_phase_Waiting queued_def)
  qed
  obtain r where r: "job_row (table (w j)) k = Some r" using phase_job_row [OF assms(5)] by auto
  have "row_ok r" "retry_ok (cfg x) r" using run_row_ok [OF assms(1) r] by blast+
  then obtain t where rest: "resting (cfg x) n t r"
    using failed [OF order_refl r] unfolding resting_def retry_ok_def row_ok_def by auto
  have resting: "\<exists>r'. job_row (table (w i)) k = Some r' \<and> resting (cfg x) n t r'" if le: "j \<le> i" for i
  proof -
    obtain r' where r': "job_row (table (w i)) k = Some r'" "resting (cfg x) n t r' \<or> queued n r' \<or> beyond n r'"
      using run_job_row [OF assms(1) le r, of "\<lambda>r. resting (cfg x) n t r \<or> queued n r \<or> beyond n r"] rest row_step_resting
      by blast
    then show ?thesis using failed [OF le r'(1)] by (auto simp: queued_def beyond_def)
  qed
  obtain j' where j': "\<And>i. j' \<le> i \<Longrightarrow> t + secs < py_now (clk (w i))" using assms(3) unfolding time_passes_def by blast
  have overdue: "job_in (overdue (cfg x) (py_now (clk (w i)) - secs)) (w i) k" if "max j j' \<le> i" for i
    using resting [of i] j' [of i] that by (auto simp: job_in_def resting_def overdue_def)
  from fair_runD(3) [OF assms(2) this] obtain i where i: "max j j' \<le> i" "stuck_swept x secs k (w i) (w (Suc i))"
    by blast
  obtain r0 where "job_row (table (w i)) k = Some r0" "overdue (cfg x) (py_now (clk (w i)) - secs) r0"
    using overdue [OF i(1)] by (auto simp: job_in_def split: option.splits)
  then obtain r' where "job_row (table (w (Suc i))) k = Some r'" "dealt_with r'"
    using stuck_swept_deals [OF i(2) run_table_ok [OF assms(1)] assms(4)] by blast
  then show False using failed [of "Suc i"] i(1) by (auto simp: dealt_with_def)
qed

lemma active_leaves:
  assumes "system_run x w" "fair_run x secs k w" "time_passes w" "sweeping x" "\<And>r. \<exists>delay. retry_delay x r = Inr delay"
    and "phase_of (table (w j)) k = Active n"
  shows "\<exists>i\<ge>j. phase_of (table (w i)) k \<noteq> Active n"
proof (rule ccontr)
  assume "\<not> ?thesis"
  then have active: "phase_of (table (w i)) k = Active n" if "j \<le> i" for i using that by blast
  obtain r where r: "job_row (table (w j)) k = Some r" "status r = RUNNING" "attempt_count r = n"
    using phase_job_row [OF assms(6)] by (auto simp: row_phase_Active)
  obtain e where e: "lease_expires_at r = Some e"
    using run_row_ok [OF assms(1) r(1)] assms(4) r(2) by (auto simp: leased_ok_def)
  have leased: "\<exists>r'. job_row (table (w i)) k = Some r' \<and> status r' = RUNNING \<and> lease_expires_at r' = Some e" if le: "j \<le> i" for i
  proof -
    have "leased_until n (Some e) r" using r e by (simp add: leased_until_def)
    then obtain r' where r': "job_row (table (w i)) k = Some r'" "leased_until n (Some e) r'"
      using run_job_row [OF assms(1) le r(1), of "leased_until n (Some e)"] row_step_leased_until by blast
    then show ?thesis using active [OF le] by (auto simp: phase_of_job_row row_phase_Active leased_until_def)
  qed
  obtain j' where j': "\<And>i. j' \<le> i \<Longrightarrow> e < db_now (clk (w i))" using assms(3) unfolding time_passes_def by blast
  have "job_in (lease_expired (clk (w i))) (w i) k" if "max j j' \<le> i" for i
    using leased [of i] j' [of i] that by (auto simp: job_in_def lease_expired_def)
  from fair_runD(2) [OF assms(2) this] obtain i where i: "max j j' \<le> i" "lease_swept x k (w i) (w (Suc i))"
    by blast
  then show False
    using lease_swept_stops [OF i(2) run_db_ok [OF assms(1)] assms(4,5)] leased [of "Suc i"] by auto
qed

section \<open>Every unit of work is finished\<close>

text \<open>
  C4. Every recorded unit of work is finished. Take an infinite run of the scheduler, the workers, the
  sweeps and the operator from an empty table, with retry rules that allow at most \<open>m\<close> tries, the
  stuck-task sweep switched on and usable retry delays; time passes, and the run is weakly fair to the unit
  of work. Then from some time on it has succeeded with one result or is abandoned for good. Workers may
  die after a claim or before they send a retry, messages and races may go any way.
\<close>

theorem every_job_is_finished:
  assumes "tries_at_most x m" and "0 < m" and "sweeping x" and "\<And>r. \<exists>delay. retry_delay x r = Inr delay"
    and "system_run x w" and "time_passes w" and "fair_run x secs k w"
    and "phase_of (table (w i)) k \<noteq> Unknown"
  shows "\<exists>n. (\<exists>tries v. \<forall>j\<ge>n. phase_of (table (w j)) k = Succeeded tries v) \<or>
    (\<exists>tries. \<forall>j\<ge>n. phase_of (table (w j)) k = Abandoned tries)"
proof -
  let ?final = "\<lambda>p. (\<exists>tries v. p = Succeeded tries v) \<or> (\<exists>tries. p = Abandoned tries)"
  obtain m' where m: "m = Suc m'" using assms(2) by (cases m) auto
  have leaves: "\<exists>i\<ge>j. phase_of (table (w i)) k \<noteq> phase_of (table (w j)) k" if "\<not> ?final (phase_of (table (w j)) k)" for j
  proof (cases "phase_of (table (w j)) k")
    case Unknown
    then show ?thesis using assms(8) run_recorded [OF assms(5,8)] by (metis nle_le)
  next
    case (Waiting n)
    then show ?thesis using waiting_leaves [OF assms(5,7,6,3) Waiting] by simp
  next
    case (Active n)
    then show ?thesis using active_leaves [OF assms(5,7,6,3,4) Active] by simp
  qed (use that in auto)
  have "\<exists>n p. ?final p \<and> (\<forall>j\<ge>n. phase_of (table (w j)) k = p)"
    using bounded_system.ends_final [of x w m' k ?final] leaves assms(1,5) by (simp add: m system_run_def)
  then show ?thesis by blast
qed

text \<open>
  A block is submitted, the worker dies with the claim, the sweep finds the lease expired and sends the
  retry, and the second worker succeeds.
\<close>

definition world_at :: "instant \<Rightarrow> world \<Rightarrow> world" where
  "world_at t w = w\<lparr>clk := \<lparr>py_now = t, db_now = t\<rparr>\<rparr>"

fun sample_recovery :: "nat \<Rightarrow> world" where
  "sample_recovery 0 = sample_world"
| "sample_recovery (Suc j) =
     (let w = sample_recovery j; v = sample_delivery (\<lambda>w. w); f = sample_function (Returns (JInt 1))
      in if j = 0 then snd (execute sample_ctx sample_item 100 [] False None None w)
         else if j = 1 then died_claimed sample_ctx v f 100 [] w
         else if j = 2 then world_at 2000 w
         else if j = 3 then snd (reconcile sample_ctx (\<lambda>_. False) (Some 1800) 200 None w)
         else if j = 4 then snd (run sample_ctx v f 100 [] w)
         else world_at (of_nat j) w)"

lemma sample_sweeping: "sweeping sample_ctx"
  by (simp add: sweeping_def sample_ctx_def stale_task_settings_def default_settings_def is_positive_number_get
      is_positive_integer_get)

lemma sample_tries: "tries_at_most sample_ctx 3"
  by (simp add: tries_at_most_def sample_ctx_def get_max_attempt_limit_def default_settings_def sample_queue_def
      default_retry_policy_def)

lemma sample_recovery_run: "system_run sample_ctx sample_recovery"
proof -
  have others: "others_act sample_ctx {} (sample_delivery (\<lambda>w. w))"
    by (simp add: others_act_def sample_delivery_def)
  have "system_step sample_ctx (sample_recovery j) (sample_recovery (Suc j))" for j
    using sample_sweeping submit_alone system_step.died_claimed [OF others] system_step.work [OF others]
      sweep_alone system_step.tick
    by (simp add: Let_def world_at_def)
  then show ?thesis by (simp add: system_run_def sample_world_def)
qed

lemma sample_recovery_tick: "5 \<le> j \<Longrightarrow> sample_recovery (Suc j) = world_at (of_nat j) (sample_recovery j)"
  by (simp add: Let_def)

lemma sample_recovery_end:
  "phase_of (table (sample_recovery (5 + j))) (100, ''app.task'', ''{}'') = Succeeded 2 (Some (JInt 1))"
proof (induction j)
  case 0
  show ?case by code_simp
next
  case (Suc j)
  then show ?case using sample_recovery_tick [of "5 + j"] by (simp add: world_at_def)
qed

theorem every_job_is_finished_witness:
  "\<exists>n. (\<exists>tries v. \<forall>j\<ge>n. phase_of (table (sample_recovery j)) (100, ''app.task'', ''{}'') = Succeeded tries v) \<or>
     (\<exists>tries. \<forall>j\<ge>n. phase_of (table (sample_recovery j)) (100, ''app.task'', ''{}'') = Abandoned tries)"
proof (rule every_job_is_finished)
  let ?k = "(100, ''app.task'', ''{}'')"
  have fin: "phase_of (table (sample_recovery j)) ?k = Succeeded 2 (Some (JInt 1))" if "5 \<le> j" for j
    using sample_recovery_end [of "j - 5"] that by simp
  show "phase_of (table (sample_recovery 5)) ?k \<noteq> Unknown" using fin by simp
  have "\<not> job_in P (sample_recovery j) ?k"
    if "5 \<le> j" "\<And>r. P r \<Longrightarrow> status r \<noteq> SUCCESS" for P j
    using fin [OF that(1)] that(2)
    by (auto simp: job_in_def phase_of_job_row row_phase_def split: option.splits status.splits if_splits)
  then have fair: "weakly_fair (\<lambda>i. job_in (P i) (sample_recovery i) ?k) taken"
    if "\<And>i r. P i r \<Longrightarrow> status r \<noteq> SUCCESS" for P taken
    using that unfolding weakly_fair_def by (meson linear)
  show "fair_run sample_ctx 1800 ?k sample_recovery"
    unfolding fair_run_def by (intro conjI fair) (auto simp: lease_expired_def overdue_def)
  show "time_passes sample_recovery"
    unfolding time_passes_def
  proof
    fix t :: instant
    obtain n where n: "t < of_nat n" using reals_Archimedean2 by blast
    have "t < py_now (clk (sample_recovery i)) \<and> t < db_now (clk (sample_recovery i))" if "n + 7 \<le> i" for i
    proof -
      define j where "j = i - 1"
      then have i: "i = Suc j" "n \<le> j" "6 \<le> j" using that by simp_all
      then have "clk (sample_recovery i) = \<lparr>py_now = of_nat j, db_now = of_nat j\<rparr>"
        using sample_recovery_tick [of j] by (simp add: world_at_def)
      moreover have "t < of_nat j" using n i(2) by (metis less_le_trans of_nat_le_iff)
      ultimately show ?thesis by simp
    qed
    then show "\<exists>j. \<forall>i\<ge>j. t < py_now (clk (sample_recovery i)) \<and> t < db_now (clk (sample_recovery i))" by blast
  qed
qed (use sample_tries sample_sweeping sample_delays sample_recovery_run in auto)

end
