(* ===== verification/Block_Task_Machine.thy ===== *)
theory Block_Task_Machine
  imports Block_Task Block_Processor Job_Machine
begin

text \<open>
  The processes that carry \<open>@block_task\<close> attempts as one interleaved system, and the machine they refine.

  A worker runs its message in a transaction that locks the row (\<^const>\<open>wrapper_transaction\<close>), so the
  transaction is one step. The retry is scheduled after the commit with the attempt the worker has
  loaded, so it is a step of its own. A submission is a step per statement (\<^const>\<open>submission_step\<close>): the
  attempt is read without a lock, and what was read may be saved later over the whole row. The state holds,
  beside the world, the attempts whose workers are between commit and retry, and the submissions in progress.
\<close>

section \<open>The specification\<close>

datatype block_phase = Unrecorded | Queued nat | Resting nat | Completed | Exhausted nat

inductive block_job_step :: "(nat \<Rightarrow> bool) \<Rightarrow> block_phase \<Rightarrow> block_phase \<Rightarrow> bool" for allow where
  recorded: "block_job_step allow Unrecorded (Queued 0)"
| completed: "block_job_step allow (Queued n) Completed"
| failed: "allow (Suc n) \<Longrightarrow> block_job_step allow (Queued n) (Resting (Suc n))"
| exhausted: "\<not> allow (Suc n) \<Longrightarrow> block_job_step allow (Queued n) (Exhausted (Suc n))"
| reopened: "block_job_step allow (Resting n) (Queued n)"

abbreviation block_job_steps :: "(nat \<Rightarrow> bool) \<Rightarrow> block_phase \<Rightarrow> block_phase \<Rightarrow> bool" where
  "block_job_steps allow \<equiv> (block_job_step allow)\<^sup>*\<^sup>*"

inductive_cases block_job_finalE: "block_job_step allow Completed p" "block_job_step allow (Exhausted n) p"

text \<open>With at most \<open>m\<close> tries the machine runs down a rank.\<close>

fun within_block_tries :: "nat \<Rightarrow> block_phase \<Rightarrow> bool" where
  "within_block_tries m (Queued n) = (n < m)"
| "within_block_tries m (Resting n) = (n < m)"
| "within_block_tries m (Exhausted n) = (n \<le> m)"
| "within_block_tries m _ = True"

fun block_rank :: "nat \<Rightarrow> block_phase \<Rightarrow> nat" where
  "block_rank m Unrecorded = 2 * m + 1"
| "block_rank m (Queued n) = 2 * (m - n)"
| "block_rank m (Resting n) = 2 * (m - n) + 1"
| "block_rank m _ = 0"

lemma block_job_step_rank:
  assumes "block_job_step allow p q" "within_block_tries m p" "0 < m" "\<And>n. allow n \<Longrightarrow> n < m"
  shows "within_block_tries m q \<and> block_rank m q < block_rank m p"
  using assms(1)
proof cases
  case (failed n)
  then show ?thesis using assms(4) [of "Suc n"] by simp
qed (use assms in auto)

section \<open>Rows by unit of work\<close>

lemma job_row_update_by_id:
  "keeps_key f \<Longrightarrow> job_row (snd (update_by_id i p f d)) k =
    map_option (\<lambda>r. if attempt_id r = i \<and> p r then f r else r) (job_row d k)"
  by (cases k) (simp add: job_row_def find_key_def update_by_id_def update_rows_def find_map_keep keeps_key_def)

lemma job_row_save:
  assumes "db_ok d" "row (attempt_id r) d = Some r0" "attempt_key r = attempt_key r0"
  shows "job_row (save t r d) k = (if k = attempt_key r then Some (r\<lparr>updated_at := t\<rparr>) else job_row d k)"
proof -
  let ?f = "\<lambda>x. if x = r0 then r\<lparr>updated_at := t\<rparr> else x"
  have key: "keeps_key ?f" using assms(3) row_id [OF assms(2)] by (simp add: keeps_key_def attempt_key_def)
  have "save t r d = snd (update_by_id (attempt_id r) (\<lambda>_. True) ?f d)"
    by (rule save_as_update [OF assms(1,2)]) simp
  moreover have "job_row d k = Some r0" if "k = attempt_key r"
    using that assms row_id [OF assms(2)] by (simp add: job_row_Some)
  moreover have "job_row d k \<noteq> Some r0" if "k \<noteq> attempt_key r"
    using that assms(3) job_row_key by metis
  ultimately show ?thesis
    using row_id [OF assms(2)] by (cases "job_row d k") (auto simp: job_row_update_by_id [OF key])
qed

lemma job_row_insert:
  assumes "db_ok d" "find_key b p a d = None"
  shows "job_row (snd (insert_attempt b p a t d)) k = (if k = (b, p, a) then Some (new_attempt (next_id d) b p a t) else job_row d k)"
proof -
  have "find q (xs @ [x]) = (case find q xs of None \<Rightarrow> if q x then Some x else None | Some y \<Rightarrow> Some y)"
    for q and x :: task_attempt and xs by (induction xs) auto
  then show ?thesis
    using assms(2) by (cases k) (auto simp: job_row_def find_key_def insert_attempt_def Let_def split: option.splits)
qed

section \<open>What the processes do to a unit of work\<close>

text \<open>A submission, seen by the row of its unit of work.\<close>

definition submit_due :: "clocks \<Rightarrow> settings \<Rightarrow> task_attempt \<Rightarrow> bool" where
  "submit_due c s r \<longleftrightarrow> status r = FAILED \<and> task_can_retry s r \<and>
     (next_retry_at r = None \<or> col_le (next_retry_at r) (py_now c))"

definition submit_write :: "clocks \<Rightarrow> settings \<Rightarrow> string option \<Rightarrow> task_attempt \<Rightarrow> task_attempt" where
  "submit_write c s queue r =
     (if status r = PENDING \<or> submit_due c s r
      then r\<lparr>status := PENDING, celery_queue_override := queue, updated_at := py_now c\<rparr> else r)"

lemma celery_execute_table:
  "table (snd (celery_execute x item block args use_archive queue w)) =
     (case task_create_or_get_pending (clk w) (cfg x) block (item_path item) (Some args) (table w) of
        ((task, created), d) \<Rightarrow>
          if \<not> created \<and> status task \<noteq> PENDING then d else snd (task_record_dispatch (clk w) task queue d))"
  by (auto simp: celery_execute_alone apply_async_alt split: prod.splits if_splits sum.splits)

lemma job_row_dispatch:
  assumes "db_ok d" "row (attempt_id task) d = Some task"
  shows "job_row (snd (task_record_dispatch c task queue d)) k =
    (if k = attempt_key task then Some (task\<lparr>celery_queue_override := queue, updated_at := py_now c\<rparr>) else job_row d k)"
proof -
  let ?f = "\<lambda>r. r\<lparr>celery_queue_override := queue, updated_at := py_now c\<rparr>"
  have key: "keeps_key ?f" by (simp add: keeps_key_def attempt_key_def)
  have "job_row d k = Some task" if "k = attempt_key task" using assms that by (simp add: job_row_Some)
  moreover have "attempt_id r \<noteq> attempt_id task" if "job_row d k = Some r" "k \<noteq> attempt_key task" for r
  proof
    assume "attempt_id r = attempt_id task"
    moreover have "row (attempt_id r) d = Some r" using that(1) by (simp add: job_row_Some [OF assms(1)])
    ultimately have "r = task" using assms(2) by (metis option.inject)
    then show False using job_row_key [OF that(1)] that(2) by simp
  qed
  ultimately show ?thesis
    by (cases "job_row d k") (auto simp: task_record_dispatch_def job_row_update_by_id [OF key])
qed

lemma celery_execute_job_row:
  assumes "db_ok (table w)" "key = (block, item_path item, serialize_args args)"
  shows "job_row (table (snd (celery_execute x item block args use_archive queue w))) k =
    (if k \<noteq> key then job_row (table w) k
     else Some (case job_row (table w) key of
         None \<Rightarrow> (new_attempt (next_id (table w)) block (item_path item) (serialize_args args) (py_now (clk w)))
           \<lparr>celery_queue_override := queue, updated_at := py_now (clk w)\<rparr>
       | Some r \<Rightarrow> submit_write (clk w) (cfg x) queue r))"
proof -
  obtain task created d where
    c: "task_create_or_get_pending (clk w) (cfg x) block (item_path item) (Some args) (table w) = ((task, created), d)"
    by (metis surj_pair)
  have task: "row (attempt_id task) d = Some task" "attempt_key task = key" "created \<longrightarrow> status task = PENDING" and ok: "db_ok d"
    using task_create_or_get_pending_row [OF assms(1) c] assms keeps_rows_db_ok by blast+
  have final: "job_row (table (snd (celery_execute x item block args use_archive queue w))) k =
      (if k = key then Some (if status task = PENDING
         then task\<lparr>celery_queue_override := queue, updated_at := py_now (clk w)\<rparr> else task) else job_row d k)"
    using job_row_dispatch [OF ok task(1)] task ok by (auto simp: celery_execute_table c job_row_Some)
  show ?thesis
  proof (cases "job_row (table w) key")
    case None
    then have none: "find_key block (item_path item) (serialize_args args) (table w) = None"
      by (simp add: job_row_def assms(2))
    then have "task = new_attempt (next_id (table w)) block (item_path item) (serialize_args args) (py_now (clk w))"
      "d = snd (insert_attempt block (item_path item) (serialize_args args) (py_now (clk w)) (table w))"
      using c by (auto simp: task_create_or_get_pending_alone reopens_def get_or_create_def insert_attempt_def Let_def)
    then show ?thesis using final None job_row_insert [OF assms(1) none] assms(2) by simp
  next
    case (Some r)
    let ?t = "r\<lparr>status := PENDING, updated_at := py_now (clk w)\<rparr>"
    have r: "row (attempt_id r) (table w) = Some r" "attempt_key r = key" using Some assms(1) by (simp_all add: job_row_Some)
    have found: "find_key block (item_path item) (serialize_args args) (table w) = Some r"
      using Some by (simp add: job_row_def assms(2))
    show ?thesis
    proof (cases "submit_due (clk w) (cfg x) r")
      case True
      then have "task = ?t" "d = save (py_now (clk w)) ?t (table w)"
        using c by (auto simp: task_create_or_get_pending_alone reopens_def get_or_create_def found submit_due_def Let_def)
      moreover have "job_row (save (py_now (clk w)) ?t (table w)) k = job_row (table w) k" if "k \<noteq> key"
        using job_row_save [OF assms(1), of ?t r] r that by (simp add: attempt_key_def)
      ultimately show ?thesis unfolding final Some using True by (simp add: submit_write_def)
    next
      case False
      then have "task = r" "d = table w"
        using c by (auto simp: task_create_or_get_pending_alone reopens_def get_or_create_def found submit_due_def Let_def split: if_splits)
      then show ?thesis unfolding final Some using False by (simp add: submit_write_def)
    qed
  qed
qed

text \<open>The transaction of a worker, seen by the row of its unit of work.\<close>

lemma wrapper_transaction_cases:
  assumes "db_ok (table w)" "wd_meanwhile v w = w" "wrapper_transaction x v f block kwargs w = (r, w')"
  obtains (same) "w' = w" "\<And>t. r \<noteq> Inr (FailureCommitted t)" "\<And>res. r \<noteq> Inr (Returned (Some res))"
  | (success) task a where "job_row (table w) (attempt_key task) = Some task" "status task = PENDING" "status a = SUCCESS"
      "attempt_id a = attempt_id task"
      "db_ok (table w')" "clk w' = clk w" "\<And>t. r \<noteq> Inr (FailureCommitted t)"
      "\<And>k. job_row (table w') k = (if k = attempt_key task then Some a else job_row (table w) k)"
      "attempt_key task = (block, get_executable_path f, serialize_args (db_kwargs kwargs))"
  | (failure) task t where "r = Inr (FailureCommitted t)" "job_row (table w) (attempt_key task) = Some task"
      "status task = PENDING" "attempt_key t = attempt_key task" "status t = FAILED" "attempt_count t = Suc (attempt_count task)"
      "attempt_id t = attempt_id task"
      "task_can_retry (cfg x) t \<longrightarrow> next_retry_at t \<noteq> None" "db_ok (table w')" "clk w' = clk w"
      "\<And>k. job_row (table w') k = (if k = attempt_key task then Some t else job_row (table w) k)"
      "attempt_key task = (block, get_executable_path f, serialize_args (db_kwargs kwargs))"
proof (cases "wd_lock_error v = None \<and> (\<exists>task. find_attempt block (get_executable_path f)
    (serialize_args (db_kwargs kwargs)) (table w) = Some task \<and> status task = PENDING)")
  case False
  then show ?thesis using assms(3)
    by (intro same) (auto simp: wrapper_transaction_def Let_def split: option.splits if_splits)
next
  case True
  then obtain task where task: "wd_lock_error v = None" "status task = PENDING"
    "find_attempt block (get_executable_path f) (serialize_args (db_kwargs kwargs)) (table w) = Some task" by blast
  have job: "job_row (table w) (attempt_key task) = Some task"
    and is_key: "attempt_key task = (block, get_executable_path f, serialize_args (db_kwargs kwargs))"
    using task(3) by (auto simp: find_attempt_def job_row_def find_key_def find_Some_iff attempt_key_def)
  then have row: "row (attempt_id task) (table w) = Some task" using assms(1) by (simp add: job_row_Some)
  let ?s = "started (clk w) (wd_task_id v) task"
  define d where "d = snd (task_mark_as_started (clk w) task (wd_task_id v) (table w))"
  have st: "task_mark_as_started (clk w) task (wd_task_id v) (table w) = (?s, d)"
    and d: "row (attempt_id ?s) d = Some ?s" "db_ok d" and key: "attempt_key ?s = attempt_key task"
    using mark_as_started [OF assms(1) row, of "clk w" "wd_task_id v"]
    by (auto simp: d_def prod_eq_iff started_def attempt_key_def)
  have other: "job_row d k = job_row (table w) k" if "k \<noteq> attempt_key task" for k
    using that job_row_save [OF assms(1), of ?s task "py_now (clk w)" k] row key
    by (simp add: d_def task_mark_as_started_def started_def Let_def)
  have failed: thesis if u: "wrapper_failed x v name u unsaveable d w = (r, w')" "row (attempt_id u) d = Some ?s" "attempt_key u = attempt_key task"
      "attempt_count u = attempt_count task" "attempt_id u = attempt_id task" for name u unsaveable
  proof (cases "\<exists>t d'. task_mark_as_failed (clk w) (cfg x) u d = Inr (t, d') \<and> \<not> unsaveable \<and> wd_usable v")
    case False
    then show ?thesis using u by (intro same) (auto simp: wrapper_failed_def split: sum.splits if_splits)
  next
    case True
    then obtain t d' where t: "task_mark_as_failed (clk w) (cfg x) u d = Inr (t, d')" "\<not> unsaveable" "wd_usable v" by blast
    then have res: "r = Inr (FailureCommitted t)" "table w' = d'" "clk w' = clk w" using u by (auto simp: wrapper_failed_def)
    have saved: "d' = save (py_now (clk w)) t d" "updated_at t = py_now (clk w)" "attempt_id t = attempt_id u" "attempt_key t = attempt_key u"
        "status t = FAILED" "attempt_count t = Suc (attempt_count u)" "task_can_retry (cfg x) t \<longrightarrow> next_retry_at t \<noteq> None"
      using t(1) by (auto simp: task_mark_as_failed_def attempt_key_def task_can_retry_def Let_def split: if_splits sum.splits)
    have "t\<lparr>updated_at := py_now (clk w)\<rparr> = t" using saved(2) by simp
    then have "job_row d' k = (if k = attempt_key task then Some t else job_row (table w) k)" for k
      using job_row_save [OF d(2), of t ?s "py_now (clk w)" k] saved u key other by simp
    moreover have "db_ok d'" using row_save(2) [OF d(2), of t ?s] saved u key by simp
    ultimately show ?thesis using failure [OF res(1) job task(2)] res saved u is_key by simp
  qed
  note unfolded = assms(3) [unfolded wrapper_transaction_def Let_def task assms(2) st option.case prod.case]
  show ?thesis
  proof (cases "body f (execution_kwargs f block kwargs)")
    case (Returns val)
    let ?a = "?s\<lparr>status := SUCCESS, execution_result := stored_result val, last_attempted_at := Some (py_now (clk w)),
      next_retry_at := None, updated_at := py_now (clk w)\<rparr>"
    have a: "attempt_id ?a = attempt_id ?s" "attempt_key ?a = attempt_key task" using key by (simp_all add: attempt_key_def)
    show ?thesis
    proof (cases "wd_usable v")
      case True
      then have res: "table w' = save (py_now (clk w)) ?a d" "clk w' = clk w" "r = Inr (Returned (Some (JDict [(''result'', val)])))"
        using unfolded Returns task(2) by (auto simp: task_mark_as_success_def Let_def)
      have "job_row (table w') k = (if k = attempt_key task then Some ?a else job_row (table w) k)" for k
        using job_row_save [OF d(2), of ?a ?s "py_now (clk w)" k] d(1) a key other res(1) by simp
      moreover have "db_ok (table w')" using row_save(2) [OF d(2), of ?a ?s] d(1) a key res(1) by simp
      ultimately show ?thesis using success [OF job task(2), of ?a] res is_key by (simp add: started_def)
    next
      case False
      then show ?thesis
        using unfolded Returns task(2) failed [of "last_part (get_executable_path f)" ?a False] d(1) a
        by (simp add: task_mark_as_success_def Let_def started_def)
    qed
  next
    case ReturnsUnserializable
    then show ?thesis
      using unfolded task(2) failed [of "last_part (get_executable_path f)" "?s\<lparr>status := SUCCESS, next_retry_at := None\<rparr>" True] d(1) key
      by (simp add: started_def attempt_key_def)
  next
    case (Exits m)
    then show ?thesis using unfolded task(2) by (intro same) auto
  next
    case (Raises e)
    then show ?thesis
      using unfolded task(2) failed [of "last_part (get_executable_path f)" ?s False] d(1) key by (simp add: started_def)
  qed
qed

section \<open>Phases\<close>

definition block_allows :: "ctx \<Rightarrow> nat \<Rightarrow> bool" where
  "block_allows x n \<longleftrightarrow> int n < get_max_attempt_limit (cfg x)"

definition row_block_phase :: "ctx \<Rightarrow> task_attempt \<Rightarrow> block_phase" where
  "row_block_phase x r = (case status r of
     PENDING \<Rightarrow> Queued (attempt_count r)
   | RUNNING \<Rightarrow> Queued (attempt_count r)
   | SUCCESS \<Rightarrow> Completed
   | FAILED \<Rightarrow> if block_allows x (attempt_count r) then Resting (attempt_count r) else Exhausted (attempt_count r))"

definition block_phase_of :: "ctx \<Rightarrow> db \<Rightarrow> job \<Rightarrow> block_phase" where
  "block_phase_of x d k = (case job_row d k of None \<Rightarrow> Unrecorded | Some r \<Rightarrow> row_block_phase x r)"

text \<open>A failure whose retry time has not come.\<close>

definition rests :: "ctx \<Rightarrow> clocks \<Rightarrow> task_attempt \<Rightarrow> bool" where
  "rests x c r \<longleftrightarrow> status r = FAILED \<and> task_can_retry (cfg x) r \<and>
     (case next_retry_at r of None \<Rightarrow> False | Some eta \<Rightarrow> py_now c < eta)"

lemma rests_not_due: "rests x c r \<Longrightarrow> \<not> submit_due c (cfg x) r"
  by (auto simp: rests_def submit_due_def split: option.splits)

lemma rests_not_stuck: "rests x c r \<Longrightarrow> stale_before \<le> py_now c \<Longrightarrow> \<not> is_stuck (cfg x) r stale_before"
  by (auto simp: rests_def is_stuck_def split: option.splits)

text \<open>
  An attempt without what the dispatch of a message writes. Retries look at nothing else, so a submission that
  records its dispatch late does not disturb them.
\<close>

definition core :: "task_attempt \<Rightarrow> task_attempt" where
  "core r = r\<lparr>celery_queue_override := None, updated_at := 0\<rparr>"

lemma core_eqD:
  assumes "core r = core t"
  shows "status r = status t" "attempt_count r = attempt_count t" "attempt_key r = attempt_key t"
    "attempt_id r = attempt_id t" "next_retry_at r = next_retry_at t"
  using arg_cong [OF assms, of status] arg_cong [OF assms, of attempt_count] arg_cong [OF assms, of attempt_key]
    arg_cong [OF assms, of attempt_id] arg_cong [OF assms, of next_retry_at]
  by (simp_all add: core_def attempt_key_def)

lemma core_dispatch [simp]: "core (r\<lparr>celery_queue_override := q, updated_at := t\<rparr>) = core r"
  by (simp add: core_def)

lemma rests_core: "core r = core t \<Longrightarrow> rests x c r = rests x c t"
  using core_eqD [of r t] by (simp add: rests_def task_can_retry_def)

lemma row_block_phase_core: "core r = core t \<Longrightarrow> row_block_phase x r = row_block_phase x t"
  unfolding row_block_phase_def by (simp only: core_eqD [of r t])

definition holds_core :: "db \<Rightarrow> job \<Rightarrow> task_attempt \<Rightarrow> bool" where
  "holds_core d k t \<longleftrightarrow> map_option core (job_row d k) = Some (core t)"

lemma holds_coreE:
  assumes "holds_core d k t"
  obtains r where "job_row d k = Some r" "core r = core t"
  using assms by (auto simp: holds_core_def)

text \<open>
  What a process may do to a unit of work in one step: it moves along the machine, no claim becomes
  visible, and a failure whose retry time has not come is left alone, but for what a dispatch writes.
\<close>

definition claim_free :: "db \<Rightarrow> job \<Rightarrow> bool" where
  "claim_free d k \<longleftrightarrow> (\<forall>r. job_row d k = Some r \<longrightarrow> status r \<noteq> RUNNING)"

definition carried :: "ctx \<Rightarrow> world \<Rightarrow> world \<Rightarrow> bool" where
  "carried x w w' \<longleftrightarrow> db_ok (table w') \<and> clk w' = clk w \<and>
     (\<forall>k. claim_free (table w) k \<longrightarrow> claim_free (table w') k \<and>
        block_job_steps (block_allows x) (block_phase_of x (table w) k) (block_phase_of x (table w') k) \<and>
        (\<forall>t. holds_core (table w) k t \<longrightarrow> rests x (clk w) t \<longrightarrow> holds_core (table w') k t))"

lemma carried_refl: "db_ok (table w) \<Longrightarrow> table w' = table w \<Longrightarrow> clk w' = clk w \<Longrightarrow> carried x w w'"
  by (simp add: carried_def)

lemma carried_trans [trans]: "carried x w w' \<Longrightarrow> carried x w' w'' \<Longrightarrow> carried x w w''"
  unfolding carried_def by (metis rtranclp_trans)

text \<open>A step that writes one unit of work.\<close>

lemma carried_one:
  assumes "db_ok (table w')" "clk w' = clk w"
    and "\<And>k. k \<noteq> key \<Longrightarrow> job_row (table w') k = job_row (table w) k"
    and "job_row (table w') key = Some r'" "status r' \<noteq> RUNNING"
    and "claim_free (table w) key \<Longrightarrow>
      (block_job_step (block_allows x))\<^sup>=\<^sup>= (block_phase_of x (table w) key) (row_block_phase x r')"
    and "\<And>t. job_row (table w) key = Some t \<Longrightarrow> rests x (clk w) t \<Longrightarrow> core r' = core t"
  shows "carried x w w'"
  unfolding carried_def
proof (intro conjI allI impI)
  fix k assume free: "claim_free (table w) k"
  show "claim_free (table w') k"
    using free assms(3) [of k] assms(4,5) by (cases "k = key") (auto simp: claim_free_def)
  show "block_job_steps (block_allows x) (block_phase_of x (table w) k) (block_phase_of x (table w') k)"
    using free assms(3) [of k] assms(4,6) by (cases "k = key") (auto simp: block_phase_of_def)
  show "holds_core (table w') k t" if "holds_core (table w) k t" "rests x (clk w) t" for t
    using that(1)
  proof (rule holds_coreE)
    fix r assume "job_row (table w) k = Some r" "core r = core t"
    then show ?thesis
      using that(2) assms(3) [of k] assms(4) assms(7) [of r] rests_core [of r t x "clk w"]
      by (cases "k = key") (auto simp: holds_core_def)
  qed
qed (use assms in auto)

lemma submit_due_later: "submit_due c s r \<Longrightarrow> py_now c \<le> py_now c' \<Longrightarrow> submit_due c' s r"
  by (auto simp: submit_due_def col_iff split: option.splits)

lemma reopens_due: "reopens c s task created \<longleftrightarrow> \<not> created \<and> submit_due c s task"
  by (auto simp: reopens_def submit_due_def)

text \<open>
  What a submission has read may be saved without harm when no run of the attempt was committed since: the row
  is as it was, but for a dispatch, or another process has made it PENDING.
\<close>

definition unraced :: "db \<Rightarrow> task_attempt \<Rightarrow> bool" where
  "unraced d t \<longleftrightarrow> (\<exists>r. job_row d (attempt_key t) = Some r \<and> attempt_id r = attempt_id t \<and>
     (core r = core t \<or> status r = PENDING \<and> attempt_count r = attempt_count t))"

fun submission_safe :: "db \<Rightarrow> submission \<Rightarrow> bool" where
  "submission_safe d (Reopens c t) = unraced d t"
| "submission_safe d _ = True"

fun submission_due :: "ctx \<Rightarrow> clocks \<Rightarrow> submission \<Rightarrow> bool" where
  "submission_due x c (Reopens _ t) = submit_due c (cfg x) t"
| "submission_due x c _ = True"

lemma submission_due_later: "submission_due x c s \<Longrightarrow> py_now c \<le> py_now c' \<Longrightarrow> submission_due x c' s"
  by (cases s) (auto intro: submit_due_later)

lemma submission_step_next:
  assumes "submission_step x s w = (Inr (Some s'), w')" "db_ok (table w)"
  shows "submission_due x (clk w') s' \<and> submission_safe (table w') s'"
proof (cases s)
  case (Looks c)
  obtain task created d where g: "get_or_create (sc_block c) (item_path (sc_item c)) (serialize_args (sc_args c))
      (py_now (clk w)) (table w) = ((task, created), d)" by (metis surj_pair)
  show ?thesis
  proof (cases "reopens (clk w) (cfg x) task created")
    case True
    then have found: "find_key (sc_block c) (item_path (sc_item c)) (serialize_args (sc_args c)) (table w) = Some task" "d = table w"
      using g by (auto simp: get_or_create_def reopens_def insert_attempt_def Let_def split: option.splits prod.splits)
    then have "job_row d (attempt_key task) = Some task"
      using find_key_eq_Some [OF assms(2)] row_eq_Some [OF assms(2)] by (simp add: job_row_Some [OF assms(2)])
    then show ?thesis using assms(1) Looks g True by (auto simp: unraced_def reopens_due)
  next
    case False
    then show ?thesis using assms(1) Looks g by (auto split: if_splits)
  qed
qed (use assms(1) in \<open>auto simp: reopen_loaded_def task_record_dispatch_def Let_def split: prod.splits sum.splits\<close>)

lemma submission_step_carried:
  assumes "db_ok (table w)" "submission_due x (clk w) s" "submission_safe (table w) s" "submission_step x s w = (r, w')"
  shows "carried x w w'"
proof (cases s)
  case (Looks c)
  let ?key = "(sc_block c, item_path (sc_item c), serialize_args (sc_args c))"
  show ?thesis
  proof (cases "find_key (sc_block c) (item_path (sc_item c)) (serialize_args (sc_args c)) (table w)")
    case None
    then have w': "table w' = snd (insert_attempt (sc_block c) (item_path (sc_item c)) (serialize_args (sc_args c)) (py_now (clk w)) (table w))"
        "clk w' = clk w"
      using assms(4) Looks by (auto simp: get_or_create_def split: prod.splits)
    have "db_ok (table w')" using keeps_rows_db_ok [OF keeps_rows_insert [OF None] assms(1)] w'(1) by simp
    moreover have "job_row (table w) ?key = None" using None by (simp add: job_row_def)
    ultimately show ?thesis
      using block_job_step.recorded [of "block_allows x"] w'
      by (intro carried_one [where key = ?key]) (auto simp: job_row_insert [OF assms(1) None] block_phase_of_def
        row_block_phase_def new_attempt_def)
  next
    case (Some t)
    then show ?thesis using assms(1,4) Looks by (intro carried_refl) (auto simp: get_or_create_def)
  qed
next
  case (Reopens c t)
  let ?t = "t\<lparr>status := PENDING, updated_at := py_now (clk w)\<rparr>"
  obtain q where q: "job_row (table w) (attempt_key t) = Some q" "attempt_id q = attempt_id t"
    "core q = core t \<or> status q = PENDING \<and> attempt_count q = attempt_count t"
    using assms(3) Reopens by (auto simp: unraced_def)
  have due: "submit_due (clk w) (cfg x) t" using assms(2) Reopens by simp
  have row: "row (attempt_id ?t) (table w) = Some q" "attempt_key ?t = attempt_key q"
    using q(1,2) job_row_key [OF q(1)] by (simp_all add: job_row_Some [OF assms(1)] attempt_key_def)
  have w': "w' = w\<lparr>table := save (py_now (clk w)) ?t (table w)\<rparr>"
    using assms(4) Reopens by (simp add: reopen_loaded_def Let_def)
  have rows: "job_row (table w') k = (if k = attempt_key t then Some ?t else job_row (table w) k)" for k
    using job_row_save [OF assms(1) row, of "py_now (clk w)" k] by (simp add: w' attempt_key_def)
  have "(block_job_step (block_allows x))\<^sup>=\<^sup>= (row_block_phase x q) (row_block_phase x ?t)"
    using q(3)
  proof (elim disjE conjE)
    assume "core q = core t"
    then show ?thesis
      using row_block_phase_core [of q t x] due block_job_step.reopened [of "block_allows x" "attempt_count t"]
      by (simp add: submit_due_def row_block_phase_def task_can_retry_def block_allows_def)
  qed (simp add: row_block_phase_def)
  moreover have "\<not> rests x (clk w) q"
    using q(3) rests_core [of q t x "clk w"] rests_not_due [of x "clk w" t] due by (auto simp: rests_def)
  ultimately show ?thesis
    using row_save(2) [OF assms(1) row] q(1)
    by (intro carried_one [where key = "attempt_key t" and r' = ?t]) (simp_all add: rows block_phase_of_def, simp_all add: w')
next
  case (Dispatches c t)
  let ?f = "\<lambda>r. r\<lparr>celery_queue_override := sc_queue c, updated_at := py_now (clk w)\<rparr>"
  have key: "keeps_key ?f" by (simp add: keeps_key_def attempt_key_def)
  have w': "w' = w\<lparr>table := snd (update_by_id (attempt_id t) (\<lambda>_. True) ?f (table w))\<rparr>"
    using assms(4) Dispatches by (simp add: task_record_dispatch_def)
  have rows: "job_row (table w') k = map_option (\<lambda>r. if attempt_id r = attempt_id t then ?f r else r) (job_row (table w) k)" for k
    using job_row_update_by_id [OF key] by (simp add: w')
  then have same: "map_option core (job_row (table w') k) = map_option core (job_row (table w) k)" for k
    by (cases "job_row (table w) k") simp_all
  have "block_phase_of x (table w') k = block_phase_of x (table w) k" for k
    by (cases "job_row (table w) k") (simp_all add: block_phase_of_def rows row_block_phase_core [OF core_dispatch])
  moreover have "claim_free (table w') k" if "claim_free (table w) k" for k
    using that by (auto simp: claim_free_def rows)
  moreover have "db_ok (table w')" using key assms(1) by (simp add: w')
  moreover have "clk w' = clk w" by (simp add: w')
  ultimately show ?thesis unfolding carried_def holds_core_def same by auto
next
  case (Sends c t)
  then show ?thesis using assms(1,4) by (intro carried_refl) (auto simp: apply_async_alt split: if_splits)
qed

lemma reset_to_pending_carried:
  assumes "db_ok (table w)" "row i (table w) = Some task" "is_stuck (cfg x) task stale_before" "stale_before \<le> py_now (clk w)"
  shows "carried x w (w\<lparr>table := snd (reset_to_pending (clk w) task (table w))\<rparr>)"
proof -
  let ?r' = "reset_write (clk w) task"
  have row: "row (attempt_id task) (table w) = Some task" "job_row (table w) (attempt_key task) = Some task"
    using assms(1,2) row_id [OF assms(2)] by (simp_all add: job_row_Some)
  have d: "snd (reset_to_pending (clk w) task (table w)) = save (py_now (clk w)) ?r' (table w)"
    by (simp add: reset_to_pending_def reset_write_def Let_def)
  have key: "attempt_id ?r' = attempt_id task" "attempt_key ?r' = attempt_key task"
    by (simp_all add: reset_write_def attempt_key_def)
  have "?r'\<lparr>updated_at := py_now (clk w)\<rparr> = ?r'" by (simp add: reset_write_def)
  then have rows: "job_row (save (py_now (clk w)) ?r' (table w)) k = (if k = attempt_key task then Some ?r' else job_row (table w) k)" for k
    using job_row_save [OF assms(1), of ?r' task "py_now (clk w)" k] row(1) key by simp
  have ok: "db_ok (save (py_now (clk w)) ?r' (table w))" using row_save(2) [OF assms(1), of ?r' task] row(1) key by simp
  have "(block_job_step (block_allows x))\<^sup>=\<^sup>= (row_block_phase x task) (row_block_phase x ?r')"
    using assms(3) block_job_step.reopened [of "block_allows x" "attempt_count task"]
    by (cases "status task") (auto simp: is_stuck_def row_block_phase_def reset_write_def block_allows_def split: if_splits)
  moreover have "\<not> rests x (clk w) task" using rests_not_stuck assms(3,4) by blast
  ultimately show ?thesis
    unfolding d using ok row(2)
    by (intro carried_one [where key = "attempt_key task" and r' = ?r']) (simp_all add: rows block_phase_of_def)
qed

lemma claim_stuck_task_carried:
  assumes "db_ok (table w)" "stale_before \<le> py_now (clk w)" "claim_stuck_task x locked stale_before i w = (r, w')"
  shows "carried x w w'"
proof (cases "\<exists>task item. \<not> locked i \<and> row i (table w) = Some task \<and> is_stuck (cfg x) task stale_before \<and>
    get_by_executable_path (executable_path task) (registry x) = Some item")
  case False
  then have "w' = w" using assms(3) by (auto simp: claim_stuck_task_def split: option.splits if_splits)
  then show ?thesis using assms(1) by (simp add: carried_refl)
next
  case True
  then obtain task item where t: "\<not> locked i" "row i (table w) = Some task" "is_stuck (cfg x) task stale_before"
    "get_by_executable_path (executable_path task) (registry x) = Some item" by blast
  then have "w' = w\<lparr>table := snd (reset_to_pending (clk w) task (table w))\<rparr>"
    using assms(3) by (auto simp: claim_stuck_task_def case_prod_beta)
  then show ?thesis using reset_to_pending_carried [OF assms(1) t(2,3) assms(2)] by simp
qed

lemma wrapper_transaction_carried:
  assumes "db_ok (table w)" "wd_meanwhile v w = w" "wrapper_transaction x v f block kwargs w = (r, w')"
  shows "carried x w w'"
  using assms
proof (cases rule: wrapper_transaction_cases)
  case same
  then show ?thesis using assms(1) by (simp add: carried_refl)
next
  case (success task a)
  then show ?thesis
    using block_job_step.completed [of "block_allows x" "attempt_count task"]
    by (intro carried_one [where key = "attempt_key task" and r' = a])
      (simp_all add: block_phase_of_def row_block_phase_def rests_def)
next
  case (failure task t)
  have "block_job_step (block_allows x) (row_block_phase x task) (row_block_phase x t)"
    using failure(3,5,6) block_job_step.failed block_job_step.exhausted by (simp add: row_block_phase_def)
  with failure show ?thesis
    by (intro carried_one [where key = "attempt_key task" and r' = t]) (simp_all add: block_phase_of_def rests_def)
qed

lemma wrapper_transaction_path:
  assumes "wrapper_transaction x v f block kwargs w = (Inr (FailureCommitted t), w')"
  shows "executable_path t = get_executable_path f"
proof -
  have failed: "executable_path t = executable_path u" if "wrapper_failed x v name u unsaveable d w1 = (Inr (FailureCommitted t), w')"
    for name u unsaveable d w1
    using that by (auto simp: wrapper_failed_def task_mark_as_failed_def Let_def split: sum.splits if_splits)
  obtain task where "find_attempt block (get_executable_path f) (serialize_args (db_kwargs kwargs)) (table w) = Some task"
    using assms by (auto simp: wrapper_transaction_def Let_def split: option.splits)
  then have "executable_path task = get_executable_path f" "executable_path t = executable_path task"
    using assms failed
    by (auto simp: wrapper_transaction_def Let_def find_attempt_def find_key_def find_Some_iff attempt_key_def
        task_mark_as_started_def task_mark_as_success_def split: option.splits if_splits outcome.splits)
  then show ?thesis by simp
qed

section \<open>The system\<close>

text \<open>
  The attempts in the second component are those whose workers have committed a failure and have not
  scheduled the retry yet; the third are the submissions in progress. With \<open>late\<close> a worker may be arbitrarily
  slow before the retry, and a submission between its read and its save. Without, the worker gets there before
  the retry time, and no run of the attempt is committed between the read and the save. Processes of other
  tasks, and time, do what they like to the rest of the world.
\<close>

type_synonym block_task_state = "world \<times> task_attempt list \<times> submission list"

text \<open>The submission of a stuck attempt that was reset.\<close>

definition stuck_submission :: "int option \<Rightarrow> (registry_item \<times> status \<times> task_attempt) option \<Rightarrow> submission list" where
  "stuck_submission head won = (case won of
     None \<Rightarrow> []
   | Some (item, previous, task) \<Rightarrow>
       (case stored_args task of
          Inl e \<Rightarrow> []
        | Inr args \<Rightarrow> [Looks \<lparr>sc_item = item, sc_block = block_number task, sc_args = args,
            sc_archive = stuck_needs_archive head task, sc_queue = celery_queue_override task\<rparr>]))"

inductive block_task_step :: "ctx \<Rightarrow> bool \<Rightarrow> string set \<Rightarrow> block_task_state \<Rightarrow> block_task_state \<Rightarrow> bool"
  for x late paths where
  submit: "block_task_step x late paths (w, L, S) (w, L, S @ [Looks c])"
| advance: "late \<or> submission_safe (table w) s \<Longrightarrow> submission_step x s w = (r, w') \<Longrightarrow>
    block_task_step x late paths (w, L, S @ s # S') (w', L, S @ (case r of Inr (Some s') \<Rightarrow> [s'] | _ \<Rightarrow> []) @ S')"
| abandon: "block_task_step x late paths (w, L, S @ s # S') (w, L, S @ S')"
| work: "get_executable_path f \<in> paths \<Longrightarrow> wd_meanwhile v w = w \<Longrightarrow> wrapper_transaction x v f block kwargs w = (r, w') \<Longrightarrow>
    block_task_step x late paths (w, L, S) (w', case r of Inr (FailureCommitted t) \<Rightarrow> L @ [t] | _ \<Rightarrow> L, S)"
| retry: "t \<in> set L \<Longrightarrow> late \<or> rests x (clk w) t \<or> \<not> task_can_retry (cfg x) t \<Longrightarrow>
    block_task_step x late paths (w, L, S) (retry_after_commit x t w, remove1 t L, S)"
| crash: "block_task_step x late paths (w, L, S) (w, remove1 t L, S)"
| sweep: "stale_before \<le> py_now (clk w) \<Longrightarrow> claim_stuck_task x locked stale_before i w = (r, w') \<Longrightarrow>
    block_task_step x late paths (w, L, S) (w', L, S @ stuck_submission head r)"
| elsewhere: "db_ok (table w') \<Longrightarrow> py_now (clk w) \<le> py_now (clk w') \<Longrightarrow>
    (\<And>block path args. path \<in> paths \<Longrightarrow> job_row (table w') (block, path, args) = job_row (table w) (block, path, args)) \<Longrightarrow>
    block_task_step x late paths (w, L, S) (w', L, S)"

abbreviation block_task_steps :: "ctx \<Rightarrow> bool \<Rightarrow> string set \<Rightarrow> block_task_state \<Rightarrow> block_task_state \<Rightarrow> bool" where
  "block_task_steps x late paths \<equiv> (block_task_step x late paths)\<^sup>*\<^sup>*"

text \<open>
  The invariant of one unit of work: no claim is visible; a worker that is between its commit and the
  retry time holds the row as it is in the table, but for a dispatch, and there is at most one such worker.
\<close>

definition waits :: "ctx \<Rightarrow> clocks \<Rightarrow> job \<Rightarrow> task_attempt \<Rightarrow> bool" where
  "waits x c k t \<longleftrightarrow> attempt_key t = k \<and> rests x c t"

definition job_inv :: "ctx \<Rightarrow> job \<Rightarrow> world \<times> task_attempt list \<Rightarrow> bool" where
  "job_inv x k st \<longleftrightarrow> (case st of (w, L) \<Rightarrow> claim_free (table w) k \<and> (\<forall>t \<in> set L. status t = FAILED) \<and>
     (\<forall>t \<in> set L. waits x (clk w) k t \<longrightarrow> holds_core (table w) k t) \<and>
     length (filter (waits x (clk w) k) L) \<le> 1)"

lemma rests_later: "rests x c' t \<Longrightarrow> py_now c \<le> py_now c' \<Longrightarrow> rests x c t"
  by (auto simp: rests_def split: option.splits)

lemma length_filter_weaken:
  assumes "\<And>t. P t \<Longrightarrow> Q t" shows "length (filter P L) \<le> length (filter Q L)"
  using assms by (induction L) (auto simp: le_SucI)

text \<open>Steps that add no worker and leave a waiting row alone keep the invariant.\<close>

lemma job_inv_frame:
  assumes "job_inv x k (w, L)" "py_now (clk w) \<le> py_now (clk w')" "claim_free (table w') k"
    and "\<And>t. holds_core (table w) k t \<Longrightarrow> rests x (clk w) t \<Longrightarrow> holds_core (table w') k t"
    and "set L' \<subseteq> set L" "\<And>P. length (filter P L') \<le> length (filter P L)"
  shows "job_inv x k (w', L')"
proof -
  have weaker: "waits x (clk w') k t \<Longrightarrow> waits x (clk w) k t" for t
    using rests_later assms(2) by (auto simp: waits_def)
  have "length (filter (waits x (clk w') k) L') \<le> length (filter (waits x (clk w) k) L)"
    using assms(6) [of "waits x (clk w') k"] length_filter_weaken [of "waits x (clk w') k" "waits x (clk w) k" L] weaker
    by (meson le_trans)
  moreover have "holds_core (table w') k t" if "t \<in> set L'" "waits x (clk w') k t" for t
    using that weaker [OF that(2)] assms(1,4,5) by (auto simp: job_inv_def waits_def)
  ultimately show ?thesis using assms(1,3,5) by (auto simp: job_inv_def)
qed

lemma length_filter_remove1: "length (filter P (remove1 t L)) \<le> length (filter P L)"
  by (simp add: filter_remove1 length_remove1)

lemmas job_inv_drop = job_inv_frame [OF _ _ _ _ set_remove1_subset length_filter_remove1]

lemma schedule_retry_job_row:
  assumes "db_ok (table w)" "holds_core (table w) (attempt_key t) t" "status t = FAILED" "next_retry_at t = Some eta"
  shows "job_row (table (snd (schedule_retry x t w))) k =
      (if k = attempt_key t then Some (t\<lparr>status := PENDING, updated_at := py_now (clk w)\<rparr>) else job_row (table w) k)"
    and "db_ok (table (snd (schedule_retry x t w)))" and "clk (snd (schedule_retry x t w)) = clk w"
proof -
  let ?t = "t\<lparr>status := PENDING, updated_at := py_now (clk w)\<rparr>"
  obtain r where r: "job_row (table w) (attempt_key t) = Some r" "core r = core t" using assms(2) by (rule holds_coreE)
  have row: "row (attempt_id ?t) (table w) = Some r" "attempt_key ?t = attempt_key r"
    using r(1) core_eqD [OF r(2)] by (simp_all add: job_row_Some [OF assms(1)] attempt_key_def)
  have retry: "task_schedule_to_retry (clk w) t (celery_queue_override t) (table w) = (?t, save (py_now (clk w)) ?t (table w))"
    by (simp add: task_schedule_to_retry_def Let_def)
  have w': "table (snd (schedule_retry x t w)) = save (py_now (clk w)) ?t (table w)" "clk (snd (schedule_retry x t w)) = clk w"
    using assms(3,4) by (simp_all add: schedule_retry_def retry apply_async_def Let_def split: option.split sum.split)
  show "job_row (table (snd (schedule_retry x t w))) k = (if k = attempt_key t then Some ?t else job_row (table w) k)"
    unfolding w' using job_row_save [OF assms(1) row, of "py_now (clk w)" k] by (simp add: attempt_key_def)
  show "db_ok (table (snd (schedule_retry x t w)))" unfolding w' using row_save(2) [OF assms(1) row] .
  show "clk (snd (schedule_retry x t w)) = clk w" by (rule w'(2))
qed

definition block_task_inv :: "ctx \<Rightarrow> string set \<Rightarrow> block_task_state \<Rightarrow> bool" where
  "block_task_inv x paths st \<longleftrightarrow> (case st of (w, L, S) \<Rightarrow> db_ok (table w) \<and>
     (\<forall>t \<in> set L. executable_path t \<in> paths) \<and> (\<forall>s \<in> set S. submission_due x (clk w) s) \<and>
     (\<forall>k. fst (snd k) \<in> paths \<longrightarrow> job_inv x k (w, L)))"

lemma block_task_invD:
  assumes "block_task_inv x paths (w, L, S)"
  shows "db_ok (table w)" "fst (snd k) \<in> paths \<Longrightarrow> job_inv x k (w, L)"
    "t \<in> set L \<Longrightarrow> rests x (clk w) t \<Longrightarrow> holds_core (table w) (attempt_key t) t"
    "s \<in> set S \<Longrightarrow> submission_due x (clk w) s"
proof -
  show ok: "db_ok (table w)" and inv: "fst (snd k) \<in> paths \<Longrightarrow> job_inv x k (w, L)" for k
    using assms unfolding block_task_inv_def prod.case by blast+
  show "submission_due x (clk w) s" if "s \<in> set S" using assms that by (simp add: block_task_inv_def)
  assume t: "t \<in> set L" "rests x (clk w) t"
  then have "fst (snd (attempt_key t)) \<in> paths" using assms by (simp add: block_task_inv_def attempt_key_def)
  then show "holds_core (table w) (attempt_key t) t" using inv t by (auto simp: job_inv_def waits_def)
qed

text \<open>The retry of a failure whose time has not come.\<close>

lemma retry_step_job:
  assumes "block_task_inv x paths (w, L, S)" "t \<in> set L" "rests x (clk w) t" "fst (snd k) \<in> paths"
  shows "job_inv x k (snd (schedule_retry x t w), remove1 t L) \<and>
    block_job_steps (block_allows x) (block_phase_of x (table w) k) (block_phase_of x (table (snd (schedule_retry x t w))) k)"
proof -
  note inv = block_task_invD(2) [OF assms(1,4)] and row = block_task_invD(3) [OF assms(1-3)]
  obtain eta where t: "status t = FAILED" "task_can_retry (cfg x) t" "next_retry_at t = Some eta"
    using assms(3) by (auto simp: rests_def split: option.splits)
  note rows = schedule_retry_job_row [OF block_task_invD(1) [OF assms(1)] row t(1,3)]
  show ?thesis
  proof (cases "attempt_key t = k")
    case True
    have waits: "waits x (clk w) k t" using True assms(3) by (simp add: waits_def)
    then have "t \<in> set (filter (waits x (clk w) k) L)" "length (filter (waits x (clk w) k) L) \<le> 1"
      using inv assms(2) by (simp_all add: job_inv_def)
    then have "filter (waits x (clk w) k) L = [t]" by (cases "filter (waits x (clk w) k) L") auto
    then have "filter (waits x (clk w) k) (remove1 t L) = []" by (simp add: filter_remove1)
    then have "\<forall>s \<in> set (remove1 t L). \<not> waits x (clk w) k s" by (auto simp: filter_empty_conv)
    moreover have "claim_free (table (snd (schedule_retry x t w))) k" using rows(1) [of x k] True by (simp add: claim_free_def)
    moreover have "\<forall>s \<in> set (remove1 t L). status s = FAILED"
      using inv set_remove1_subset [of t L] by (auto simp: job_inv_def)
    ultimately have "job_inv x k (snd (schedule_retry x t w), remove1 t L)" using rows(3) by (simp add: job_inv_def)
    moreover have "block_job_step (block_allows x) (block_phase_of x (table w) k)
        (block_phase_of x (table (snd (schedule_retry x t w))) k)"
    proof -
      obtain r where r: "job_row (table w) k = Some r" "core r = core t" using holds_coreE [OF row] True by blast
      then have "block_phase_of x (table w) k = row_block_phase x t"
        using row_block_phase_core [OF r(2)] by (simp add: block_phase_of_def r(1))
      then show ?thesis
        using rows(1) [of x k] True t block_job_step.reopened [of "block_allows x" "attempt_count t"]
        by (simp add: block_phase_of_def row_block_phase_def task_can_retry_def block_allows_def)
    qed
    ultimately show ?thesis by blast
  next
    case False
    then have same: "job_row (table (snd (schedule_retry x t w))) k = job_row (table w) k" using rows(1) by simp
    then have "claim_free (table (snd (schedule_retry x t w))) k" using inv by (simp add: job_inv_def claim_free_def)
    then show ?thesis
      using job_inv_drop [OF inv, of "snd (schedule_retry x t w)" t] same rows(3) by (simp add: block_phase_of_def holds_core_def)
  qed
qed

text \<open>One step: the invariant of a unit of work of the tasks in \<open>paths\<close>, and its phase.\<close>

lemma block_task_step_job:
  assumes "block_task_step x False paths (w, L, S) (w', L', S')" "block_task_inv x paths (w, L, S)" "fst (snd k) \<in> paths"
  shows "job_inv x k (w', L') \<and>
    block_job_steps (block_allows x) (block_phase_of x (table w) k) (block_phase_of x (table w') k)"
proof -
  note ok = block_task_invD(1) [OF assms(2)] and inv = block_task_invD(2) [OF assms(2,3)]
  have free: "claim_free (table w) k" using inv by (simp add: job_inv_def)
  have carried: "job_inv x k (w', L) \<and>
      block_job_steps (block_allows x) (block_phase_of x (table w) k) (block_phase_of x (table w') k)" if "carried x w w'"
  proof -
    have now: "py_now (clk w) \<le> py_now (clk w')" using that by (simp add: carried_def)
    have c: "claim_free (table w') k" "\<And>t. holds_core (table w) k t \<Longrightarrow> rests x (clk w) t \<Longrightarrow> holds_core (table w') k t"
      "block_job_steps (block_allows x) (block_phase_of x (table w) k) (block_phase_of x (table w') k)"
      using that free unfolding carried_def by blast+
    show ?thesis using job_inv_frame [OF inv now c(1,2), of L] c(3) by simp
  qed
  show ?thesis
    using assms(1)
  proof cases
    case (submit c)
    then show ?thesis using inv by simp
  next
    case (advance s r S1 S2)
    then have "carried x w w'"
      using submission_step_carried [OF ok] block_task_invD(4) [OF assms(2), of s] by simp
    then show ?thesis using carried advance(2) by simp
  next
    case (abandon S1 s S2)
    then show ?thesis using inv by simp
  next
    case (work f v block kwargs r)
    note c = carried [OF wrapper_transaction_carried [OF ok work(4,5)]]
    show ?thesis
    proof (cases "\<exists>t. r = Inr (FailureCommitted t)")
      case False
      then have "L' = L" using work(1) by (auto split: sum.splits transaction_exit.splits)
      then show ?thesis using c by blast
    next
      case True
      then obtain t where t: "r = Inr (FailureCommitted t)" by blast
      have L': "L' = L @ [t]" using work(1) t by simp
      from ok work(4,5) show ?thesis
      proof (cases rule: wrapper_transaction_cases)
        case (failure task u)
        then have u: "u = t" using t by simp
        have "\<not> waits x (clk w') k s" if "s \<in> set L" "attempt_key task = k" for s
        proof
          assume "waits x (clk w') k s"
          then have "holds_core (table w) k s" "status s = FAILED"
            using that(1) inv failure(10) by (auto simp: job_inv_def waits_def rests_def)
          then obtain r where "job_row (table w) k = Some r" "status r = FAILED" using core_eqD(1) by (metis holds_coreE)
          then show False using failure(2,3) that(2) by simp
        qed
        then have none: "filter (waits x (clk w') k) L = []" if "attempt_key task = k"
          using that by (auto simp: filter_empty_conv)
        have "job_inv x k (w', L @ [t])"
          using c failure(4,5) failure(11) [of k] none u
          by (cases "attempt_key task = k") (auto simp: job_inv_def waits_def filter_empty_conv holds_core_def)
        then show ?thesis using c L' by simp
      qed (use t in blast)+
    qed
  next
    case (retry t)
    show ?thesis
    proof (cases "rests x (clk w) t")
      case True
      then have "w' = snd (schedule_retry x t w)" using retry(1) by (simp add: retry_after_commit_def rests_def)
      then show ?thesis using retry_step_job [OF assms(2) retry(4) True assms(3)] retry(2) by simp
    next
      case False
      then have "w' = w" using retry by (simp add: retry_after_commit_def)
      then show ?thesis
        using job_inv_drop [OF inv, of w t] free retry(2) by simp
    qed
  next
    case (crash t)
    then show ?thesis
      using job_inv_drop [OF inv, of w t] free by simp
  next
    case (sweep stale_before locked i r head)
    then show ?thesis using claim_stuck_task_carried [OF ok] carried by simp
  next
    case elsewhere
    have "job_row (table w') k = job_row (table w) k" using elsewhere(5) assms(3) by (cases k) simp
    then show ?thesis
      using job_inv_frame [OF inv elsewhere(4), of L] free elsewhere(1) by (simp add: claim_free_def block_phase_of_def holds_core_def)
  qed
qed

lemma retry_after_commit_clk: "clk (retry_after_commit x t w) = clk w"
  by (auto simp: retry_after_commit_def schedule_retry_def task_schedule_to_retry_def apply_async_alt Let_def
      split: option.split sum.split)

lemma block_task_step_inv:
  assumes "block_task_step x False paths (w, L, S) (w', L', S')" "block_task_inv x paths (w, L, S)"
  shows "block_task_inv x paths (w', L', S')"
proof -
  note ok = block_task_invD(1) [OF assms(2)]
  have L: "\<forall>t \<in> set L. executable_path t \<in> paths" using assms(2) by (simp add: block_task_inv_def)
  have due: "submission_due x c s" if "s \<in> set S" "py_now (clk w) \<le> py_now c" for s c
    using block_task_invD(4) [OF assms(2) that(1)] that(2) by (rule submission_due_later)
  have "db_ok (table w') \<and> (\<forall>t \<in> set L'. executable_path t \<in> paths) \<and> (\<forall>s \<in> set S'. submission_due x (clk w') s)"
    using assms(1)
  proof cases
    case (submit c)
    then show ?thesis using ok L due by auto
  next
    case (advance s r S1 S2)
    have s: "carried x w w'"
      using submission_step_carried [OF ok _ _ advance(5)] block_task_invD(4) [OF assms(2), of s] advance by simp
    have "submission_due x (clk w') s'" if "r = Inr (Some s')" for s'
      using submission_step_next [OF _ ok] advance(5) that by blast
    then show ?thesis
      using s L due advance(1-3) by (auto simp: carried_def split: sum.splits option.splits)
  next
    case (abandon S1 s S2)
    then show ?thesis using ok L due by auto
  next
    case (work f v block kwargs r)
    have "executable_path t \<in> paths" if "r = Inr (FailureCommitted t)" for t
      using that work(3,5) by (auto dest: wrapper_transaction_path)
    then show ?thesis
      using wrapper_transaction_carried [OF ok work(4,5)] L work(1,2) due
      by (auto simp: carried_def split: sum.splits transaction_exit.splits)
  next
    case (retry t)
    have "db_ok (table w')"
    proof (cases "rests x (clk w) t")
      case True
      then obtain eta where "status t = FAILED" "task_can_retry (cfg x) t" "next_retry_at t = Some eta"
        by (auto simp: rests_def split: option.splits)
      then show ?thesis
        using schedule_retry_job_row(2) [OF ok block_task_invD(3) [OF assms(2) retry(4) True]] retry(1)
        by (simp add: retry_after_commit_def)
    next
      case False
      then show ?thesis using retry ok by (simp add: retry_after_commit_def)
    qed
    then show ?thesis using retry(1-3) L due set_remove1_subset [of t L] retry_after_commit_clk by auto
  next
    case (crash t)
    then show ?thesis using ok L due set_remove1_subset [of t L] by auto
  next
    case (sweep stale_before locked i r head)
    have "submission_due x c s" if "s \<in> set (stuck_submission head r)" for c s
      using that by (auto simp: stuck_submission_def split: option.splits prod.splits sum.splits)
    then show ?thesis using claim_stuck_task_carried [OF ok sweep(3,4)] L due sweep(1,2) by (auto simp: carried_def)
  next
    case elsewhere
    then show ?thesis using L due by auto
  qed
  then show ?thesis
    using block_task_step_job [OF assms] unfolding block_task_inv_def prod.case by blast
qed

text \<open>Units of work of other tasks are not this machine's business.\<close>

definition block_task_phase :: "ctx \<Rightarrow> string set \<Rightarrow> block_task_state \<Rightarrow> job \<Rightarrow> block_phase" where
  "block_task_phase x paths st k = (if fst (snd k) \<in> paths then block_phase_of x (table (fst st)) k else Unrecorded)"

interpretation block_tasks: simulation "block_task_step x False paths" "block_task_inv x paths"
    "block_task_phase x paths" "block_job_step (block_allows x)"
proof
  fix c c' assume inv: "block_task_inv x paths c" and step: "block_task_step x False paths c c'"
  obtain w L S w' L' S' where c: "c = (w, L, S)" "c' = (w', L', S')" by (metis surj_pair)
  show "block_task_inv x paths c'" using block_task_step_inv step inv c by blast
  show "block_job_steps (block_allows x) (block_task_phase x paths c k) (block_task_phase x paths c' k)" for k
    using block_task_step_job [of x paths w L S w' L' S' k] step inv c by (auto simp: block_task_phase_def)
qed

interpretation bounded_block_tasks: settling "block_task_step x False paths" "block_task_inv x paths"
    "block_task_phase x paths" "block_job_step (block_allows x)"
    "within_block_tries (max 1 (nat (get_max_attempt_limit (cfg x))))" "block_rank (max 1 (nat (get_max_attempt_limit (cfg x))))"
proof
  fix p q assume "block_job_step (block_allows x) p q" "within_block_tries (max 1 (nat (get_max_attempt_limit (cfg x)))) p"
  then show "within_block_tries (max 1 (nat (get_max_attempt_limit (cfg x)))) q \<and>
      block_rank (max 1 (nat (get_max_attempt_limit (cfg x)))) q < block_rank (max 1 (nat (get_max_attempt_limit (cfg x)))) p"
    by (rule block_job_step_rank) (auto simp: block_allows_def)
qed

lemma block_task_inv_start: "table w = empty_db \<Longrightarrow> block_task_inv x paths (w, [], [])"
  by (auto simp: block_task_inv_def job_inv_def claim_free_def job_row_def find_key_def empty_db_def db_ok_def)

lemma block_task_phase_start [simp]: "table w = empty_db \<Longrightarrow> block_task_phase x paths (w, L, S) k = Unrecorded"
  by (cases k) (simp add: block_task_phase_def block_phase_of_def job_row_def find_key_def empty_db_def)

section \<open>Properties\<close>

text \<open>A sample project with one \<open>@block_task\<close> task.\<close>

definition sample_block_item :: registry_item where
  "sample_block_item = sample_item\<lparr>live_queue := None\<rparr>"

definition sample_block_ctx :: ctx where
  "sample_block_ctx = sample_ctx\<lparr>registry := [sample_block_item], queues := []\<rparr>"

text \<open>A submission nobody interferes with, as steps of the system.\<close>

lemma submission_run_steps:
  assumes "db_ok (table w)" "submission_due x (clk w) s" "submission_safe (table w) s"
  shows "block_task_steps x late paths (w, L, S @ [s]) (snd (submission_run alone x s w), L, S) \<and>
    db_ok (table (snd (submission_run alone x s w)))"
  using assms
proof (induction "statements_left s" arbitrary: s w rule: less_induct)
  case less
  obtain r w1 where one: "submission_step x s w = (r, w1)" by fastforce
  have ok1: "db_ok (table w1)" using submission_step_carried [OF less.prems one] by (simp add: carried_def)
  have gap: "submission_gap alone s w = w" by (cases s) simp_all
  have step: "block_task_step x late paths (w, L, S @ [s]) (w1, L, S @ (case r of Inr (Some s') \<Rightarrow> [s'] | _ \<Rightarrow> []))"
    using block_task_step.advance [where S' = "[]", OF disjI2 [OF less.prems(3)] one] by simp
  show ?case
  proof (cases "\<exists>s'. r = Inr (Some s')")
    case True
    then obtain s' where r: "r = Inr (Some s')" by blast
    have s': "submission_due x (clk w1) s' \<and> submission_safe (table w1) s'"
      using submission_step_next one less.prems(1) r by blast
    have run: "submission_run alone x s w = submission_run alone x s' w1"
      using one r gap by (simp add: submission_run.simps [of alone x s w])
    have "block_task_steps x late paths (w1, L, S @ [s']) (snd (submission_run alone x s' w1), L, S) \<and>
        db_ok (table (snd (submission_run alone x s' w1)))"
      using less.hyps [of s' w1] submission_step_left one ok1 r s' by blast
    then show ?thesis using step r unfolding run by (auto intro: converse_rtranclp_into_rtranclp)
  next
    case False
    then have "snd (submission_run alone x s w) = w1"
      using one gap by (auto simp: submission_run.simps [of alone x s w] split: sum.splits option.splits)
    moreover have "block_task_step x late paths (w, L, S @ [s]) (w1, L, S)"
      using step False by (auto split: sum.splits option.splits)
    ultimately show ?thesis using ok1 by auto
  qed
qed

lemma celery_execute_steps:
  assumes "db_ok (table w)"
  shows "block_task_steps x late paths (w, L, S) (snd (celery_execute x item block args use_archive queue w), L, S)"
    and "db_ok (table (snd (celery_execute x item block args use_archive queue w)))"
proof -
  let ?c = "\<lparr>sc_item = item, sc_block = block, sc_args = args, sc_archive = use_archive, sc_queue = queue\<rparr>"
  have e: "celery_execute x item block args use_archive queue w = submission_run alone x (Looks ?c) w"
    by (simp add: celery_execute_def celery_execute_amid_def del: alone_id)
  note run = submission_run_steps [OF assms, of x "Looks ?c" late paths L S]
  show "block_task_steps x late paths (w, L, S) (snd (celery_execute x item block args use_archive queue w), L, S)"
    unfolding e using run block_task_step.submit [of x late paths w L S ?c]
    by (auto intro: converse_rtranclp_into_rtranclp)
  show "db_ok (table (snd (celery_execute x item block args use_archive queue w)))" unfolding e using run by simp
qed

text \<open>
  C5. The processes that carry \<open>@block_task\<close> attempts refine the machine of \<^const>\<open>block_job_step\<close>: from an
  empty table, in every interleaving of the statements of submissions, of worker runs, crashes, sweeps and
  other processes, in which (1) a worker that schedules the retry of a failure saves it before the retry time
  and (2) no run of an attempt is committed between a submission's read of it and its save as PENDING, each
  unit of work is recorded once, a success is final, every failure counts one try, and another try follows
  exactly while the limit allows it. C11 and \<open>late_submission_undoes_success\<close> show what happens otherwise.
\<close>

theorem block_tasks_refine_machine:
  assumes "table w0 = empty_db" and "block_task_steps x False paths (w0, [], []) (w, L, S)"
    and "block_task_step x False paths (w, L, S) (w', L', S')" and "path \<in> paths"
  shows "block_job_steps (block_allows x) Unrecorded (block_phase_of x (table w) (block, path, args)) \<and>
    block_job_steps (block_allows x) (block_phase_of x (table w) (block, path, args)) (block_phase_of x (table w') (block, path, args))"
proof -
  note run = block_tasks.steps_simulate [OF assms(2) block_task_inv_start [OF assms(1)], of "(block, path, args)"]
  with block_tasks.simulates [OF _ assms(3), of "(block, path, args)"] assms(1,4)
  show ?thesis by (simp add: block_task_phase_def block_phase_of_def job_row_def find_key_def empty_db_def)
qed

definition sample_submission :: submission_call where
  "sample_submission = \<lparr>sc_item = sample_block_item, sc_block = 100, sc_args = [], sc_archive = False, sc_queue = None\<rparr>"

definition sample_looked :: world where
  "sample_looked = snd (submission_step sample_block_ctx (Looks sample_submission) sample_world)"

lemma sample_looks:
  "\<exists>s. block_task_step sample_block_ctx late {''app.task''} (sample_world, [], [Looks sample_submission]) (sample_looked, [], s) \<and>
     block_phase_of sample_block_ctx (table sample_looked) (100, ''app.task'', ''{}'') = Queued 0"
proof -
  have key: "item_path sample_block_item = ''app.task''" "serialize_args [] = ''{}''"
    by (simp_all add: sample_block_item_def sample_item_def item_path_def serialize_args_def dumps_def)
  have ok: "db_ok (table sample_world)" and none: "find_key 100 ''app.task'' ''{}'' (table sample_world) = None"
    by (simp_all add: sample_world_def find_key_def empty_db_def db_ok_def)
  have t: "table sample_looked = snd (insert_attempt 100 ''app.task'' ''{}'' (py_now (clk sample_world)) (table sample_world))"
    by (simp add: sample_looked_def sample_submission_def key get_or_create_def none insert_attempt_def Let_def)
  have "block_phase_of sample_block_ctx (table sample_looked) (100, ''app.task'', ''{}'') = Queued 0"
    unfolding t block_phase_of_def job_row_insert [OF ok none] by (simp add: row_block_phase_def new_attempt_def)
  moreover obtain r where r: "submission_step sample_block_ctx (Looks sample_submission) sample_world = (r, sample_looked)"
    unfolding sample_looked_def by (metis surjective_pairing)
  have "block_task_step sample_block_ctx late {''app.task''} (sample_world, [], [] @ Looks sample_submission # [])
      (sample_looked, [], [] @ (case r of Inr (Some s') \<Rightarrow> [s'] | _ \<Rightarrow> []) @ [])"
    by (rule block_task_step.advance [OF _ r]) simp
  ultimately show ?thesis by auto
qed

theorem block_tasks_refine_machine_witness:
  "block_job_step (block_allows sample_block_ctx) Unrecorded (Queued 0) \<and>
   block_job_steps (block_allows sample_block_ctx) Unrecorded
     (block_phase_of sample_block_ctx (table sample_looked) (100, ''app.task'', ''{}''))"
proof -
  obtain s where s: "block_task_step sample_block_ctx False {''app.task''} (sample_world, [], [Looks sample_submission])
      (sample_looked, [], s)" using sample_looks by blast
  have "block_task_steps sample_block_ctx False {''app.task''} (sample_world, [], []) (sample_world, [], [Looks sample_submission])"
    using block_task_step.submit [of sample_block_ctx False "{''app.task''}" sample_world "[]" "[]" sample_submission] by simp
  from block_tasks_refine_machine [OF _ this s, of "''app.task''"]
  have "block_job_steps (block_allows sample_block_ctx) (block_phase_of sample_block_ctx (table sample_world) (100, ''app.task'', ''{}''))
      (block_phase_of sample_block_ctx (table sample_looked) (100, ''app.task'', ''{}''))"
    by (simp add: sample_world_def)
  then show ?thesis
    by (simp add: sample_world_def block_phase_of_def job_row_def find_key_def empty_db_def block_job_step.recorded)
qed

text \<open>
  C6. Every unit of work of a \<open>@block_task\<close> task settles: in an infinite run of these processes, under the two
  conditions of C5, its phase changes at most \<open>2 * m + 1\<close> times, where \<open>m\<close> is the limit of attempts in the
  settings, and at least 1 (a recorded attempt runs once whatever the limit).
\<close>

theorem block_jobs_settle:
  fixes st :: "nat \<Rightarrow> block_task_state" and block :: int and args :: string
  assumes "table (fst (st 0)) = empty_db" and "snd (st 0) = ([], [])"
    and "\<And>j. block_task_step x False paths (st j) (st (Suc j))" and "path \<in> paths"
  defines "J \<equiv> {j. block_phase_of x (table (fst (st (Suc j)))) (block, path, args) \<noteq>
      block_phase_of x (table (fst (st j))) (block, path, args)}"
  shows "finite J \<and> card J \<le> 2 * max 1 (nat (get_max_attempt_limit (cfg x))) + 1"
proof -
  have start: "st 0 = (fst (st 0), [], [])" using assms(2) by (metis prod.collapse)
  have "block_task_inv x paths (st 0)" "block_task_phase x paths (st 0) (block, path, args) = Unrecorded"
    using block_task_inv_start [OF assms(1)] block_task_phase_start [OF assms(1)] start by metis+
  with bounded_block_tasks.changes_bounded [of x paths st "(block, path, args)"] assms(3,4)
  show ?thesis by (simp add: J_def block_task_phase_def)
qed

theorem block_jobs_settle_witness:
  "\<exists>st :: nat \<Rightarrow> block_task_state. st 0 = (sample_world, [], []) \<and>
     block_phase_of sample_block_ctx (table (fst (st 2))) (100, ''app.task'', ''{}'') = Queued 0 \<and>
     card {j. block_phase_of sample_block_ctx (table (fst (st (Suc j)))) (100, ''app.task'', ''{}'') \<noteq>
       block_phase_of sample_block_ctx (table (fst (st j))) (100, ''app.task'', ''{}'')} \<le> 7"
proof -
  obtain s where s: "block_task_step sample_block_ctx False {''app.task''} (sample_world, [], [Looks sample_submission])
      (sample_looked, [], s)" "block_phase_of sample_block_ctx (table sample_looked) (100, ''app.task'', ''{}'') = Queued 0"
    using sample_looks by blast
  define st :: "nat \<Rightarrow> block_task_state" where "st j = (if j = 0 then (sample_world, [], []) else if j = 1 then (sample_world, [], [Looks sample_submission])
    else (sample_looked, [], s))" for j :: nat
  have ok: "db_ok (table sample_looked)"
    by (simp add: sample_looked_def sample_world_def get_or_create_def find_key_def empty_db_def insert_attempt_def Let_def db_ok_def)
  have idle: "block_task_step sample_block_ctx False {''app.task''} (sample_looked, [], s) (sample_looked, [], s)"
    by (rule block_task_step.elsewhere) (use ok in simp_all)
  have submit: "block_task_step sample_block_ctx False {''app.task''} (sample_world, [], []) (sample_world, [], [Looks sample_submission])"
    using block_task_step.submit [of sample_block_ctx False "{''app.task''}" sample_world "[]" "[]" sample_submission] by simp
  have "block_task_step sample_block_ctx False {''app.task''} (st j) (st (Suc j))" for j
    using s(1) idle submit by (simp add: st_def)
  with block_jobs_settle [of st sample_block_ctx "{''app.task''}" "''app.task''" 100 "''{}''"]
  have "card {j. block_phase_of sample_block_ctx (table (fst (st (Suc j)))) (100, ''app.task'', ''{}'') \<noteq>
       block_phase_of sample_block_ctx (table (fst (st j))) (100, ''app.task'', ''{}'')} \<le>
     2 * max 1 (nat (get_max_attempt_limit (cfg sample_block_ctx))) + 1"
    by (simp add: st_def sample_world_def)
  moreover have "get_max_attempt_limit (cfg sample_block_ctx) = 3"
    by (simp add: sample_block_ctx_def sample_ctx_def get_max_attempt_limit_def default_settings_def)
  ultimately have "card {j. block_phase_of sample_block_ctx (table (fst (st (Suc j)))) (100, ''app.task'', ''{}'') \<noteq>
       block_phase_of sample_block_ctx (table (fst (st j))) (100, ''app.task'', ''{}'')} \<le> 7" by simp
  moreover have "st 0 = (sample_world, [], [])" "fst (st 2) = sample_looked" by (simp_all add: st_def)
  ultimately show ?thesis using s(2) by - (intro exI [of _ st] conjI, simp_all only:)
qed

section \<open>A late retry\<close>

text \<open>How a run starts, for a concrete delivery.\<close>

lemma wrapper_transaction_runs:
  assumes "db_ok (table w)" "job_row (table w) (block, get_executable_path f, serialize_args (db_kwargs kwargs)) = Some task"
    "status task = PENDING" "wd_meanwhile v w = w" "wd_lock_error v = None" "wd_usable v"
  shows "body f (execution_kwargs f block kwargs) = Returns val \<Longrightarrow>
      \<exists>w'. wrapper_transaction x v f block kwargs w = (Inr (Returned (Some (JDict [(''result'', val)]))), w')"
    and "body f (execution_kwargs f block kwargs) = Raises e \<Longrightarrow> (\<And>n. \<exists>delay. get_retry_delay_seconds (cfg x) n = Inr delay) \<Longrightarrow>
      \<exists>t w'. wrapper_transaction x v f block kwargs w = (Inr (FailureCommitted t), w')"
proof -
  have find: "find_attempt block (get_executable_path f) (serialize_args (db_kwargs kwargs)) (table w) = Some task"
    using assms(2) by (simp add: job_row_def find_attempt_def)
  have lock: "respects_lock v task w" using assms(1,4,5) by (simp add: respects_lock_def)
  note claimed = wrapper_claimed [OF assms(1) lock assms(6) find assms(3), where x = x]
  show "\<exists>w'. wrapper_transaction x v f block kwargs w = (Inr (Returned (Some (JDict [(''result'', val)]))), w')"
    if "body f (execution_kwargs f block kwargs) = Returns val"
    by (rule claimed) (simp add: that)
  show "\<exists>t w'. wrapper_transaction x v f block kwargs w = (Inr (FailureCommitted t), w')"
    if e: "body f (execution_kwargs f block kwargs) = Raises e" and delays: "\<And>n. \<exists>delay. get_retry_delay_seconds (cfg x) n = Inr delay"
  proof (rule claimed)
    fix s d w1 name
    assume run: "wrapper_transaction x v f block kwargs w =
      (case body f (execution_kwargs f block kwargs) of
         Returns val \<Rightarrow> (Inr (Returned (Some (JDict [(''result'', val)]))), observe_task_execution_time name (wd_duration v)
            (record_task_execution name ''success'' (w1\<lparr>table := snd (task_mark_as_success (clk w1) s (stored_result val) d)\<rparr>)))
       | ReturnsUnserializable \<Rightarrow> wrapper_failed x v name (s\<lparr>status := SUCCESS, next_retry_at := None\<rparr>) True d w1
       | Raises e \<Rightarrow> wrapper_failed x v name s False d w1
       | Exits m \<Rightarrow> (Inr (FunctionExited m), w1))"
    obtain t d' where "task_mark_as_failed (clk w1) (cfg x) s d = Inr (t, d')"
      using task_mark_as_failed_ok [OF delays] by blast
    then show ?thesis using run e wrapper_failed_commits [OF assms(6)] by simp
  qed
qed

text \<open>The same runs as steps of the system.\<close>

lemma failing_step:
  fixes v :: wrapper_delivery
  assumes "db_ok (table w)" "job_row (table w) (block, get_executable_path f, serialize_args (db_kwargs kwargs)) = Some task"
    "status task = PENDING" "wd_meanwhile v w = w" "wd_lock_error v = None" "wd_usable v"
    "body f (execution_kwargs f block kwargs) = Raises e" "\<And>n. \<exists>delay. get_retry_delay_seconds (cfg x) n = Inr delay"
    "get_executable_path f \<in> paths"
  obtains t w' where "block_task_step x late paths (w, L, S) (w', L @ [t], S)" "db_ok (table w')" "clk w' = clk w"
    "job_row (table w') (attempt_key task) = Some t" "attempt_id t = attempt_id task" "status t = FAILED"
    "attempt_count t = Suc (attempt_count task)" "task_can_retry (cfg x) t \<longrightarrow> next_retry_at t \<noteq> None"
proof -
  obtain t w' where run: "wrapper_transaction x v f block kwargs w = (Inr (FailureCommitted t), w')"
    using wrapper_transaction_runs(2) [OF assms(1-8)] by blast
  have step: "block_task_step x late paths (w, L, S) (w', L @ [t], S)"
    using block_task_step.work [OF assms(9,4) run] by simp
  have task: "u = task" if "attempt_key u = (block, get_executable_path f, serialize_args (db_kwargs kwargs))"
      "job_row (table w) (attempt_key u) = Some u" for u
    using that assms(2) by simp
  from assms(1,4) run show ?thesis
  proof (cases rule: wrapper_transaction_cases)
    case (failure u t')
    then have "t' = t" "u = task" using task by simp_all
    then show ?thesis using that [OF step] failure by simp
  qed blast+
qed

lemma succeeding_step:
  fixes v :: wrapper_delivery
  assumes "db_ok (table w)" "job_row (table w) (block, get_executable_path f, serialize_args (db_kwargs kwargs)) = Some task"
    "status task = PENDING" "wd_meanwhile v w = w" "wd_lock_error v = None" "wd_usable v"
    "body f (execution_kwargs f block kwargs) = Returns val" "get_executable_path f \<in> paths"
  obtains a w' where "block_task_step x late paths (w, L, S) (w', L, S)" "db_ok (table w')" "clk w' = clk w"
    "job_row (table w') (attempt_key task) = Some a" "attempt_id a = attempt_id task" "status a = SUCCESS"
proof -
  have key: "attempt_key task = (block, get_executable_path f, serialize_args (db_kwargs kwargs))"
    using job_row_key [OF assms(2)] by simp
  obtain w' where run: "wrapper_transaction x v f block kwargs w = (Inr (Returned (Some (JDict [(''result'', val)]))), w')"
    using wrapper_transaction_runs(1) [OF assms(1-7)] by blast
  have step: "block_task_step x late paths (w, L, S) (w', L, S)"
    using block_task_step.work [OF assms(8,4) run] by simp
  from assms(1,4) run show ?thesis
  proof (cases rule: wrapper_transaction_cases)
    case (success u a)
    then have "u = task" using assms(2) by simp
    then show ?thesis using that [OF step] success by simp
  qed blast+
qed

text \<open>
  C11. A worker that is late with the retry undoes a success. After its failure is committed the row is
  unlocked, and once the retry time has passed a submission or the sweep may hand the attempt to another
  worker, which may finish it. The first worker then saves the attempt it has loaded over the whole row:
  the completed unit of work is queued again with the old number of tries and without its result.
\<close>

theorem late_retry_undoes_success:
  assumes "db_ok (table w)" and "job_row (table w) (attempt_key t) = Some r" and "status r = SUCCESS"
    and "t \<in> set L" and "attempt_id t = attempt_id r" and "status t = FAILED" and "task_can_retry (cfg x) t"
    and "next_retry_at t = Some eta"
  shows "\<exists>w'. block_task_step x True paths (w, L, S) (w', remove1 t L, S) \<and>
    block_phase_of x (table w) (attempt_key t) = Completed \<and>
    block_phase_of x (table w') (attempt_key t) = Queued (attempt_count t) \<and>
    (\<exists>a. job_row (table w') (attempt_key t) = Some a \<and> execution_result a = execution_result t)"
proof -
  let ?w' = "retry_after_commit x t w" and ?t = "t\<lparr>status := PENDING, updated_at := py_now (clk w)\<rparr>"
  have r: "row (attempt_id ?t) (table w) = Some r" "attempt_key ?t = attempt_key r"
    using assms(1,2,5) by (simp_all add: job_row_Some attempt_key_def)
  have retry: "task_schedule_to_retry (clk w) t (celery_queue_override t) (table w) = (?t, save (py_now (clk w)) ?t (table w))"
    by (simp add: task_schedule_to_retry_def Let_def)
  have "table ?w' = save (py_now (clk w)) ?t (table w)"
    using assms(6-8)
    by (simp add: retry_after_commit_def schedule_retry_def retry apply_async_def Let_def split: option.split sum.split)
  then have "job_row (table ?w') (attempt_key t) = Some ?t"
    using job_row_save [OF assms(1) r, of "py_now (clk w)" "attempt_key t"] by (simp add: attempt_key_def)
  moreover have "block_task_step x True paths (w, L, S) (?w', remove1 t L, S)"
    by (rule block_task_step.retry) (use assms(4) in simp_all)
  ultimately show ?thesis using assms(2,3) by (auto simp: block_phase_of_def row_block_phase_def)
qed

text \<open>A run from an empty table that gets there.\<close>

lemma sample_function_body: "body (sample_function out) kw = out"
  by (simp add: sample_function_def)

theorem late_retry_undoes_success_witness:
  "\<exists>w L w' L'. block_task_steps sample_block_ctx True {''app.task''} (sample_world, [], []) (w, L, []) \<and>
     block_task_step sample_block_ctx True {''app.task''} (w, L, []) (w', L', []) \<and>
     block_phase_of sample_block_ctx (table w) (100, ''app.task'', ''{}'') = Completed \<and>
     block_phase_of sample_block_ctx (table w') (100, ''app.task'', ''{}'') = Queued 1"
proof -
  let ?x = sample_block_ctx and ?P = "{''app.task''}" and ?k = "(100 :: int, ''app.task'', ''{}'')" and ?v = sample_wrapper_delivery
  let ?f = "sample_function (Raises (UserError ''boom''))" and ?g = "sample_function (Returns (JInt 1))"
  let ?submit = "\<lambda>w. snd (celery_execute ?x sample_block_item 100 [] False None w)"
  have key: "(100, item_path sample_block_item, serialize_args []) = ?k"
      "(100, get_executable_path (sample_function out), serialize_args (db_kwargs [])) = ?k" for out
    by (simp_all add: sample_block_item_def sample_item_def item_path_def get_executable_path_def sample_function_def
        db_kwargs_def popped_def serialize_args_def dumps_def)
  have path: "get_executable_path (sample_function out) \<in> ?P" for out
    by (simp add: get_executable_path_def sample_function_def)
  have v: "wd_meanwhile ?v w = w" "wd_lock_error ?v = None" "wd_usable ?v" for w by (simp_all add: sample_wrapper_delivery_def)
  have cfg: "cfg ?x = default_settings" by (simp add: sample_block_ctx_def sample_ctx_def)
  have limit: "get_max_attempt_limit default_settings = 3" by (simp add: get_max_attempt_limit_def default_settings_def)
  have delays: "\<And>n. \<exists>delay. get_retry_delay_seconds (cfg ?x) n = Inr delay" using default_retry_delays cfg by simp
  have ok0: "db_ok (table sample_world)" and none: "job_row (table sample_world) ?k = None"
    by (simp_all add: sample_world_def job_row_def find_key_def empty_db_def db_ok_def)
  define w1 where "w1 = ?submit sample_world"
  obtain r1 where w1: "db_ok (table w1)" "job_row (table w1) ?k = Some r1" "status r1 = PENDING" "attempt_count r1 = 0"
    using celery_execute_job_row [OF ok0 refl, of ?x sample_block_item 100 "[]" False None ?k] celery_execute_steps(2) [OF ok0, of ?x]
    by (simp add: key none w1_def new_attempt_def)
  obtain t w2 where t: "block_task_step ?x True ?P (w1, [], []) (w2, [t], [])" "db_ok (table w2)" "job_row (table w2) ?k = Some t"
      "status t = FAILED" "attempt_count t = 1" "task_can_retry (cfg ?x) t \<longrightarrow> next_retry_at t \<noteq> None" "attempt_key r1 = ?k"
    by (rule failing_step [OF w1(1) _ w1(3) v _ delays path, where block = 100 and kwargs = "[]" and L = "[]" and S = "[]"])
      (use w1 job_row_key [OF w1(2)] in \<open>simp_all add: key(2) sample_function_body\<close>)
  then obtain eta where eta: "next_retry_at t = Some eta" "task_can_retry (cfg ?x) t"
    using limit cfg by (auto simp: task_can_retry_def)
  define w3 where "w3 = w2\<lparr>clk := (clk w2)\<lparr>py_now := max (py_now (clk w2)) eta\<rparr>\<rparr>"
  have w3: "block_task_step ?x True ?P (w2, [t], []) (w3, [t], [])" "db_ok (table w3)" "job_row (table w3) ?k = Some t"
    unfolding w3_def using t by (auto intro!: block_task_step.elsewhere)
  define w4 where "w4 = ?submit w3"
  obtain r4 where w4: "db_ok (table w4)" "job_row (table w4) ?k = Some r4" "status r4 = PENDING" "attempt_id r4 = attempt_id t"
    using celery_execute_job_row [OF w3(2) refl, of ?x sample_block_item 100 "[]" False None ?k] celery_execute_steps(2) [OF w3(2), of ?x]
      t(4) eta w3(3)
    by (simp add: key w4_def submit_write_def submit_due_def) (simp add: w3_def)
  obtain a w5 where a: "block_task_step ?x True ?P (w4, [t], []) (w5, [t], [])" "db_ok (table w5)" "job_row (table w5) ?k = Some a"
      "attempt_id a = attempt_id r4" "status a = SUCCESS"
    by (rule succeeding_step [OF w4(1) _ w4(3) v _ path, where block = 100 and kwargs = "[]" and L = "[t]" and S = "[]"])
      (use w4 job_row_key [OF w4(2)] in \<open>simp_all add: key(2) sample_function_body\<close>)
  have run: "block_task_steps ?x True ?P (sample_world, [], []) (w5, [t], [])"
    using celery_execute_steps(1) [OF ok0, of ?x True ?P "[]" "[]" sample_block_item 100 "[]" False None] t(1) w3(1)
      celery_execute_steps(1) [OF w3(2), of ?x True ?P "[t]" "[]" sample_block_item 100 "[]" False None] a(1)
    unfolding w1_def [symmetric] w4_def [symmetric] by (meson converse_rtranclp_into_rtranclp rtranclp_trans rtranclp.rtrancl_refl)
  have "attempt_key t = ?k" using job_row_key [OF t(3)] .
  then have "\<exists>w'. block_task_step ?x True ?P (w5, [t], []) (w', [], []) \<and> block_phase_of ?x (table w5) ?k = Completed \<and>
      block_phase_of ?x (table w') ?k = Queued 1"
    using late_retry_undoes_success [OF a(2) _ a(5), of t "[t]" ?x eta ?P "[]"] a w4(4) t eta by auto
  with run show ?thesis by blast
qed

text \<open>
  A submission that is late with its save undoes a success in the same way: it has read the failure and found
  its retry due, another process reopened the attempt and a worker finished it, and the submission then saves
  what it read, as PENDING, over the whole row.
\<close>

lemma late_submission_undoes_success:
  assumes "db_ok (table w)" and "job_row (table w) (attempt_key t) = Some r" and "status r = SUCCESS"
    and "attempt_id t = attempt_id r"
  shows "\<exists>w' t'. block_task_step x True paths (w, L, S @ Reopens c t # S') (w', L, S @ Dispatches c t' # S') \<and>
    block_phase_of x (table w) (attempt_key t) = Completed \<and>
    block_phase_of x (table w') (attempt_key t) = Queued (attempt_count t) \<and>
    (\<exists>a. job_row (table w') (attempt_key t) = Some a \<and> execution_result a = execution_result t)"
proof -
  let ?t = "t\<lparr>status := PENDING, updated_at := py_now (clk w)\<rparr>"
  let ?w' = "w\<lparr>table := save (py_now (clk w)) ?t (table w)\<rparr>"
  have row: "row (attempt_id ?t) (table w) = Some r" "attempt_key ?t = attempt_key r"
    using assms(2,4) job_row_key [OF assms(2)] by (simp_all add: job_row_Some [OF assms(1)] attempt_key_def)
  have "job_row (table ?w') (attempt_key t) = Some ?t"
    using job_row_save [OF assms(1) row, of "py_now (clk w)" "attempt_key t"] by (simp add: attempt_key_def)
  moreover have "submission_step x (Reopens c t) w = (Inr (Some (Dispatches c ?t)), ?w')"
    by (simp add: reopen_loaded_def Let_def)
  from block_task_step.advance [OF _ this, of True paths L S S']
  have "block_task_step x True paths (w, L, S @ Reopens c t # S') (?w', L, S @ Dispatches c ?t # S')" by simp
  ultimately show ?thesis using assms(2,3) by (auto simp: block_phase_of_def row_block_phase_def)
qed

end
