(* ===== verification/Queue_Listing.thy ===== *)
theory Queue_Listing
  imports Startup Broker_Contacts
begin

text \<open>
  The broker side of the queues as an operator sees it: the statistics the contacts report, what the
  queue monitor publishes (\<open>_internal/services/queue_monitor.py\<close>), and the table that
  \<open>block_dumper_queues_v1\<close> prints (\<open>management/commands/block_dumper_queues_v1.py\<close>, \<open>numeric.format_number\<close>).
\<close>

section \<open>The printed table\<close>

text \<open>
  \<open>format_number\<close>. \<open>float\<close> of an integer beyond the largest double raises; \<open>show_float\<close> is \<open>str\<close> of a float
  that is not integral.
\<close>

fun format_number :: "(rat \<Rightarrow> string) \<Rightarrow> pynum \<Rightarrow> string res" where
  "format_number show_float (PInt i) = (if \<bar>of_int i\<bar> > float_max then Inl OverflowError else Inr (show_int i))"
| "format_number show_float (PFloat r) = Inr (if of_int \<lfloor>r\<rfloor> = r then show_int \<lfloor>r\<rfloor> else show_float r)"

definition number_cell :: "(rat \<Rightarrow> string) \<Rightarrow> pynum option \<Rightarrow> string res" where
  "number_cell show_float v = (case v of None \<Rightarrow> Inr ''-'' | Some n \<Rightarrow> format_number show_float n)"

definition COLUMNS :: "string list" where
  "COLUMNS = [''QUEUE'', ''ROLE'', ''MESSAGE_TTL'', ''SOFT/HARD'', ''THROTTLE'', ''IN_FLIGHT'', ''WAITING'', ''CONSUMERS'']"

fun role_name :: "role \<Rightarrow> string" where
  "role_name LIVE = ''live''"
| "role_name BACKFILL = ''backfill''"

fun join :: "string \<Rightarrow> string list \<Rightarrow> string" where
  "join sep [] = []"
| "join sep [s] = s"
| "join sep (s # ss) = s @ sep @ join sep ss"

text \<open>The cells of a row, from the values the listing collects.\<close>

definition row_cells :: "(rat \<Rightarrow> string) \<Rightarrow> listing_row \<Rightarrow> string list res" where
  "row_cells show_float r =
     (case number_cell show_float (fst (lr_limits r)) of Inl e \<Rightarrow> Inl e | Inr soft \<Rightarrow>
     (case number_cell show_float (snd (lr_limits r)) of Inl e \<Rightarrow> Inl e | Inr hard \<Rightarrow>
     (case number_cell show_float (lr_message_ttl r) of Inl e \<Rightarrow> Inl e | Inr ttl \<Rightarrow>
     (case number_cell show_float (map_option PInt (lr_throttle r)) of Inl e \<Rightarrow> Inl e | Inr throttled \<Rightarrow>
       let limits = soft @ ''/'' @ hard;
           roles = join ''+'' (map role_name (lr_roles r))
       in Inr [lr_name r, if roles = [] then ''-'' else roles,
            if lr_message_ttl r = None then ''-'' else ttl @ '' s'',
            if limits = ''-/-'' then ''-/-'' else limits @ '' s'',
            throttled, show_nat (lr_inflight r), show_int (lr_waiting r),
            show_int (lr_consumers r) @ (if lr_no_consumers r then ''  no consumers'' else [])]))))"

definition ljust :: "nat \<Rightarrow> string \<Rightarrow> string" where
  "ljust width s = s @ replicate (width - length s) CHR '' ''"

definition rstrip :: "string \<Rightarrow> string" where
  "rstrip s = rev (dropWhile is_space (rev s))"

definition column_widths :: "string list list \<Rightarrow> nat list" where
  "column_widths rows = map (\<lambda>j. Max (set (map (\<lambda>cs. length (cs ! j)) rows))) [0..<length COLUMNS]"

definition table_line :: "nat list \<Rightarrow> string list \<Rightarrow> string" where
  "table_line widths cs = rstrip (join ''  '' (map2 ljust widths cs))"

definition table_lines :: "string list list \<Rightarrow> string list" where
  "table_lines rows = map (table_line (column_widths (COLUMNS # rows))) (COLUMNS # rows)"

fun rows_cells :: "(rat \<Rightarrow> string) \<Rightarrow> listing_row list \<Rightarrow> string list list res" where
  "rows_cells show_float [] = Inr []"
| "rows_cells show_float (r # rs) =
     (case row_cells show_float r of Inl e \<Rightarrow> Inl e
      | Inr cells \<Rightarrow> (case rows_cells show_float rs of Inl e \<Rightarrow> Inl e | Inr rest \<Rightarrow> Inr (cells # rest)))"

text \<open>What the command writes.\<close>

definition print_block_dumper_queues ::
  "(rat \<Rightarrow> string) \<Rightarrow> task_module list \<Rightarrow> (nat \<Rightarrow> amqp_server) \<Rightarrow> injected_contacts \<Rightarrow> clocks \<Rightarrow> db \<Rightarrow> process \<Rightarrow> string list res \<times> process" where
  "print_block_dumper_queues show_float modules servers injected c d p =
     (case handle_block_dumper_queues modules servers injected c d p of
        (Inl e, p') \<Rightarrow> (Inl e, p')
      | (Inr rows, p') \<Rightarrow>
          (if queue_usages (fst (ps_registries p')) (snd (ps_registries p')) = []
           then Inr [''No BlockDumper queues are defined.'']
           else (case rows_cells show_float rows of Inl e \<Rightarrow> Inl e | Inr cells \<Rightarrow> Inr (table_lines cells)), p'))"

section \<open>The columns are aligned\<close>

lemma length_ljust: "length s \<le> n \<Longrightarrow> length (ljust n s) = n"
  by (simp add: ljust_def)

definition column_start :: "nat list \<Rightarrow> nat \<Rightarrow> nat" where
  "column_start widths j = sum_list (take j widths) + 2 * j"

lemma join_column:
  assumes "j < length cs" "length widths = length cs" "\<And>i. i < length cs \<Longrightarrow> length (cs ! i) \<le> widths ! i"
  shows "take (length (cs ! j)) (drop (column_start widths j) (join ''  '' (map2 ljust widths cs))) = cs ! j"
  using assms
proof (induction cs arbitrary: j widths)
  case (Cons c cs)
  obtain n ws where w: "widths = n # ws" using Cons.prems(2) by (cases widths) auto
  have c: "length c \<le> n" "length ws = length cs" and cs: "\<And>i. i < length cs \<Longrightarrow> length (cs ! i) \<le> ws ! i"
    using Cons.prems(2) Cons.prems(3) [of 0] Cons.prems(3) [of "Suc i" for i] w by auto
  show ?case
  proof (cases j)
    case 0
    then show ?thesis using w by (cases ws; cases cs) (simp_all add: column_start_def ljust_def)
  next
    case (Suc i)
    then have i: "i < length cs" using Cons.prems(1) by simp
    then obtain x xs where rest: "map2 ljust ws cs = x # xs" using c(2) by (cases ws; cases cs) auto
    have "join ''  '' (map2 ljust widths (c # cs)) = ljust n c @ ''  '' @ join ''  '' (map2 ljust ws cs)"
      using rest w by simp
    moreover have "column_start widths (Suc i) = length (ljust n c @ ''  '') + column_start ws i"
      using c(1) w by (simp add: column_start_def length_ljust)
    ultimately have "drop (column_start widths j) (join ''  '' (map2 ljust widths (c # cs))) =
        drop (column_start ws i) (join ''  '' (map2 ljust ws cs))"
      using Suc by simp
    then show ?thesis using Cons.IH [OF i c(2) cs] Suc by simp
  qed
qed simp

lemma rstrip_tail: "\<exists>blanks. s = rstrip s @ blanks \<and> list_all is_space blanks"
proof -
  have "s = rev (dropWhile is_space (rev s)) @ rev (takeWhile is_space (rev s))"
    by (metis rev_append rev_rev_ident takeWhile_dropWhile_id)
  moreover have "list_all is_space (rev (takeWhile is_space (rev s)))"
    by (auto simp: list_all_iff dest: set_takeWhileD)
  ultimately show ?thesis unfolding rstrip_def by blast
qed

text \<open>Up to the blanks stripped at its end, every line has the cells of its row at the same columns.\<close>

lemma table_is_aligned:
  assumes "\<And>r. r \<in> set rows \<Longrightarrow> length r = length COLUMNS" "i < length (COLUMNS # rows)" "j < length COLUMNS"
  defines "widths \<equiv> column_widths (COLUMNS # rows)" and "cell \<equiv> (COLUMNS # rows) ! i ! j"
  shows "\<exists>blanks. list_all is_space blanks \<and>
    take (length cell) (drop (column_start widths j) (table_lines rows ! i @ blanks)) = cell"
proof -
  let ?cs = "(COLUMNS # rows) ! i" and ?rows = "COLUMNS # rows"
  have mem: "?cs \<in> set ?rows" using assms(2) by (rule nth_mem)
  then have len: "length ?cs = length COLUMNS" using assms(1) by auto
  have "length (?cs ! k) \<le> widths ! k" if "k < length ?cs" for k
    using that len mem unfolding widths_def column_widths_def by (subst nth_map) (auto intro!: Max_ge)
  then have cell: "take (length cell) (drop (column_start widths j) (join ''  '' (map2 ljust widths ?cs))) = cell"
    unfolding cell_def using join_column [of j ?cs widths] assms(3) len
    by (simp add: widths_def column_widths_def)
  obtain blanks where "join ''  '' (map2 ljust widths ?cs) = table_lines rows ! i @ blanks" "list_all is_space blanks"
    using rstrip_tail [of "join ''  '' (map2 ljust widths ?cs)"]
    unfolding table_lines_def nth_map [OF assms(2)] table_line_def widths_def by blast
  with cell show ?thesis by metis
qed

section \<open>Statistics for every queue\<close>

text \<open>
  What the readers of the statistics rely on (\<open>BrokerContact.queue_stats\<close>): a successful reading has an entry for
  every queue it was asked for, and for no other.
\<close>

locale stats_provider =
  fixes stats :: broker_stats
  assumes complete: "stats i names = Inr s \<Longrightarrow> fst ` set s = set names"
    and distinct_names: "stats i names = Inr s \<Longrightarrow> distinct (map fst s)"
begin

lemma read_keeps:
  assumes "read_stats_of stats usages ds acc = Inr st"
    "\<forall>u \<in> set usages. u_dumper u \<in> set ds \<longrightarrow> q_name (u_queue u) \<noteq> n"
  shows "map_of st n = map_of acc n"
  using assms
proof (induction ds arbitrary: acc)
  case (Cons d ds)
  obtain s where s: "stats (celery_app d) (map (\<lambda>u. q_name (u_queue u)) (filter (\<lambda>u. u_dumper u = d) usages)) = Inr s"
    and rest: "read_stats_of stats usages ds (dict_update acc s) = Inr st"
    using Cons.prems(1) by (auto split: sum.splits)
  have "map_of s n = None" unfolding map_of_eq_None_iff complete [OF s] using Cons.prems(2) by auto
  then have "map_of (dict_update acc s) n = map_of acc n" using distinct_names [OF s] by (simp add: map_of_dict_update map_add_dom_app_simps(3) domIff)
  then show ?case using Cons.IH [OF rest] Cons.prems(2) by simp
qed simp

lemma read_has:
  assumes "read_stats_of stats usages ds acc = Inr st" "distinct ds" "u \<in> set usages" "u_dumper u \<in> set ds"
    and names: "distinct (map (\<lambda>u. q_name (u_queue u)) usages)"
  shows "\<exists>s v. stats (celery_app (u_dumper u)) (map (\<lambda>v. q_name (u_queue v)) (filter (\<lambda>v. u_dumper v = u_dumper u) usages)) = Inr s \<and>
    map_of s (q_name (u_queue u)) = Some v \<and> map_of st (q_name (u_queue u)) = Some v"
  using assms(1,2,4)
proof (induction ds arbitrary: acc)
  case (Cons d ds)
  let ?n = "q_name (u_queue u)"
  obtain s where s: "stats (celery_app d) (map (\<lambda>u. q_name (u_queue u)) (filter (\<lambda>u. u_dumper u = d) usages)) = Inr s"
    and rest: "read_stats_of stats usages ds (dict_update acc s) = Inr st"
    using Cons.prems(1) by (auto split: sum.splits)
  show ?case
  proof (cases "u_dumper u = d")
    case True
    then obtain v where v: "map_of s ?n = Some v" using complete [OF s] assms(3) map_of_eq_None_iff [of s ?n] by fastforce
    have "q_name (u_queue w) \<noteq> ?n" if "w \<in> set usages" "u_dumper w \<in> set ds" for w
    proof
      assume "q_name (u_queue w) = ?n"
      then have "w = u" using names that(1) assms(3) by (auto simp: distinct_map dest: inj_onD)
      then show False using True that(2) Cons.prems(2) by simp
    qed
    then have "map_of st ?n = map_of (dict_update acc s) ?n" using read_keeps [OF rest] by blast
    moreover have "map_of (dict_update acc s) ?n = Some v" using v distinct_names [OF s] by (simp add: map_of_dict_update)
    ultimately show ?thesis using s v True by auto
  next
    case False
    then show ?thesis using Cons.IH [OF rest] Cons.prems by simp
  qed
qed simp

lemma read_queue_stats_has:
  assumes "read_queue_stats stats usages = Inr st" "u \<in> set usages" "distinct (map (\<lambda>u. q_name (u_queue u)) usages)"
  shows "\<exists>s v. stats (celery_app (u_dumper u)) (map (\<lambda>v. q_name (u_queue v)) (filter (\<lambda>v. u_dumper v = u_dumper u) usages)) = Inr s \<and>
    map_of s (q_name (u_queue u)) = Some v \<and> map_of st (q_name (u_queue u)) = Some v"
  by (rule read_has [OF assms(1) [unfolded read_queue_stats_def] _ assms(2) _ assms(3)])
    (use assms(2) in \<open>simp_all add: usage_dumpers_def\<close>)

end

lemma stats_comprehension_keys:
  assumes "stats_comprehension f names acc = Inr s" "distinct (map fst acc)"
  shows "distinct (map fst s) \<and> fst ` set s = set names \<union> fst ` set acc"
  using assms
proof (induction f names acc rule: stats_comprehension.induct)
  case (2 f m names acc)
  obtain v where v: "f m = Inr v" "stats_comprehension f names (AList.update m v acc) = Inr s"
    using "2.prems"(1) by (auto split: sum.splits)
  have "distinct (map fst (AList.update m v acc))" using "2.prems"(2) by (simp add: distinct_update)
  from "2.IH" [OF v(1) v(2) this] show ?case by (auto simp: dom_update)
qed simp

lemma contact_queue_stats_keys:
  assumes "fst (contact_queue_stats srv a names c) = Inr s"
  shows "distinct (map fst s) \<and> fst ` set s = set names"
  using assms stats_comprehension_keys [of _ names "[]" s]
  by (cases c) (auto simp: rabbitmq_queue_stats_def mock_queue_stats_def Let_def split: sum.splits)

interpretation contacts: stats_provider "contact_stats servers injected as"
  by unfold_locales (use contact_queue_stats_keys in \<open>auto simp: contact_stats_def split: sum.splits\<close>)

lemma listing_rows_complete:
  assumes "\<And>u. u \<in> set usages \<Longrightarrow> map_of st (q_name (u_queue u)) = Some (value u)"
  shows "listing_rows c d st usages = Inr (map (\<lambda>u. listing_row_of c d u (value u)) usages)"
  using assms by (induction usages) auto

lemma publish_stats_complete:
  assumes "\<And>u. u \<in> set usages \<Longrightarrow> map_of st (q_name (u_queue u)) = Some (value u)"
  shows "publish_stats st usages w = (Inr (), fold (\<lambda>u w. set_queue_consumers (q_name (u_queue u)) (snd (value u))
     (set_queue_messages (q_name (u_queue u)) (fst (value u)) w)) usages w)"
  using assms
proof (induction usages arbitrary: w)
  case (Cons u us)
  then show ?case using Cons.prems [of u] by (cases "value u") simp
qed simp

section \<open>Properties\<close>

text \<open>
  C37. The listing and the monitor show every queue: with the statistics the contacts report, and every queue name
  used once, the listing has one row per queue, in the order of the dumpers and of their queues, with
  what the contact of the queue's own app said about it; the monitor publishes the same numbers for every queue.
  Neither stops at a missing entry: they fail only when reading fails.
\<close>

theorem queue_listing_complete:
  assumes "ensure_modules_loaded modules (ps_registries p) = (Inr (), reg, tasks)"
    and "stats = contact_stats servers injected (ps_apps p)" and "usages = queue_usages reg tasks"
    and "distinct (map (\<lambda>u. q_name (u_queue u)) usages)"
    and "read_queue_stats stats usages = Inr st"
  shows "\<exists>value. (\<forall>u \<in> set usages. \<exists>s. stats (celery_app (u_dumper u))
        (map (\<lambda>v. q_name (u_queue v)) (filter (\<lambda>v. u_dumper v = u_dumper u) usages)) = Inr s \<and>
        map_of s (q_name (u_queue u)) = Some (value u)) \<and>
    handle_block_dumper_queues modules servers injected c d p =
      (Inr (map (\<lambda>u. listing_row_of c d u (value u)) usages), p\<lparr>ps_registries := (reg, tasks)\<rparr>) \<and>
    publish_stats st usages w = (Inr (), fold (\<lambda>u w. set_queue_consumers (q_name (u_queue u)) (snd (value u))
      (set_queue_messages (q_name (u_queue u)) (fst (value u)) w)) usages w)"
proof -
  define val where "val u = the (map_of st (q_name (u_queue u)))" for u :: queue_usage
  have has: "\<exists>s. stats (celery_app (u_dumper u))
        (map (\<lambda>v. q_name (u_queue v)) (filter (\<lambda>v. u_dumper v = u_dumper u) usages)) = Inr s \<and>
        map_of s (q_name (u_queue u)) = Some (val u) \<and> map_of st (q_name (u_queue u)) = Some (val u)"
    if "u \<in> set usages" for u
    using contacts.read_queue_stats_has [OF assms(5) [unfolded assms(2)] that assms(4)] by (auto simp: val_def assms(2))
  then have found: "map_of st (q_name (u_queue u)) = Some (val u)" if "u \<in> set usages" for u using that by blast
  have "handle_block_dumper_queues modules servers injected c d p =
      (Inr (map (\<lambda>u. listing_row_of c d u (val u)) usages), p\<lparr>ps_registries := (reg, tasks)\<rparr>)"
    using listing_rows_complete [OF found] assms(1,5)
    by (auto simp: handle_block_dumper_queues_def Let_def assms(3) [symmetric] assms(2) [symmetric])
  with has publish_stats_complete [OF found] show ?thesis by blast
qed

theorem queue_listing_complete_witness:
  "\<exists>value p'. handle_block_dumper_queues [] (\<lambda>_. sample_server) [] sample_clock empty_db sample_process =
     (Inr (map (\<lambda>u. listing_row_of sample_clock empty_db u (value u)) (queue_usages (fst sample_registries) (snd sample_registries))), p')"
proof -
  let ?stats = "contact_stats (\<lambda>_. sample_server) [] (ps_apps sample_process)"
    and ?usages = "queue_usages (fst sample_registries) (snd sample_registries)"
  have load: "ensure_modules_loaded [] (ps_registries sample_process) = (Inr (), fst sample_registries, snd sample_registries)"
    by (simp add: sample_process_def)
  have "\<exists>st. read_queue_stats ?stats ?usages = Inr st" "distinct (map (\<lambda>u. q_name (u_queue u)) ?usages)"
    by (simp_all add: queue_usages_def sample_registries_def sample_dumper_def dumper_queues_def read_queue_stats_def usage_dumpers_def
        contact_stats_def contact_factory_def sample_process_def sample_app_def broker_contact_factory_def
        rabbitmq_queue_stats_def rabbitmq_connection_def passive_queue_stats_def sample_server_def case_prod_beta)
  with queue_listing_complete [OF load refl refl, of "\<lambda>_. sample_server" "[]"]
  show ?thesis by (fastforce simp: sample_process_def)
qed

end
