(* ===== verification/Schema.thy ===== *)
theory Schema
  imports Registries Task_Attempt
begin

text \<open>
  The database schema: the model \<open>TaskAttempt\<close> as \<open>models.py\<close> declares it, the migrations that build its table
  (\<open>migrations/\<close>), and the admin pages that show its rows (\<open>admin.py\<close>).

  Django is outside this repository. A migration operation does to the state of the models what Django
  documents: \<open>CreateModel\<close> adds a model, \<open>AddField\<close> a field and \<open>AddIndex\<close> an index to a model that is there.
  \<open>index_name\<close> is the name Django gives an index that has none.
\<close>

section \<open>Models\<close>

datatype field_kind = BigAutoField | PositiveIntegerField | CharField nat | TextField | JSONField | DateTimeField

record model_field =
  f_kind :: field_kind
  f_null :: bool
  f_blank :: bool
  f_default :: "string option"
  f_choices :: "(string \<times> string) list"
  f_db_index :: bool
  f_primary_key :: bool
  f_auto_now :: bool
  f_auto_now_add :: bool

text \<open>A field with no options, and the options the declarations use.\<close>

definition plain :: "field_kind \<Rightarrow> model_field" where
  "plain kind = \<lparr>f_kind = kind, f_null = False, f_blank = False, f_default = None, f_choices = [], f_db_index = False,
     f_primary_key = False, f_auto_now = False, f_auto_now_add = False\<rparr>"

definition optional :: "field_kind \<Rightarrow> model_field" where
  "optional kind = (plain kind)\<lparr>f_null := True, f_blank := True\<rparr>"

record model_index =
  ix_fields :: "string list"
  ix_name :: "string option"

record unique_constraint =
  uc_fields :: "string list"
  uc_name :: string

record model_state =
  ms_fields :: "(string, model_field) dict"
  ms_indexes :: "model_index list"
  ms_constraints :: "unique_constraint list"
  ms_verbose_names :: "string \<times> string"

definition Status_choices :: "(string \<times> string) list" where
  "Status_choices = [(''pending'', ''Pending''), (''running'', ''Running''), (''success'', ''Success''), (''failed'', ''Failed'')]"

definition GiveUpReason_choices :: "(string \<times> string) list" where
  "GiveUpReason_choices =
     [(''attempts'', ''No attempts left''), (''block_age'', ''Block too old''), (''manual'', ''Given up by hand'')]"

text \<open>The class in \<open>models.py\<close>; the app config makes the primary key a \<open>BigAutoField\<close>.\<close>

definition TaskAttempt_model :: model_state where
  "TaskAttempt_model =
     \<lparr>ms_fields =
        [(''id'', (plain BigAutoField)\<lparr>f_primary_key := True\<rparr>),
         (''block_number'', (plain PositiveIntegerField)\<lparr>f_db_index := True\<rparr>),
         (''executable_path'', plain (CharField 255)),
         (''args_json'', (plain TextField)\<lparr>f_default := Some ''{}''\<rparr>),
         (''status'', (plain (CharField 20))\<lparr>f_choices := Status_choices, f_default := Some ''pending''\<rparr>),
         (''celery_task_id'', optional (CharField 50)),
         (''execution_result'', (plain JSONField)\<lparr>f_null := True\<rparr>),
         (''celery_queue_override'', optional (CharField 255)),
         (''dispatch_queue'', optional (CharField 255)),
         (''dispatched_at'', optional DateTimeField),
         (''lease_expires_at'', optional DateTimeField),
         (''last_attempted_at'', optional DateTimeField),
         (''attempt_count'', (plain PositiveIntegerField)\<lparr>f_default := Some ''0''\<rparr>),
         (''next_retry_at'', optional DateTimeField),
         (''give_up_at'', optional DateTimeField),
         (''give_up_reason'', (optional (CharField 20))\<lparr>f_choices := GiveUpReason_choices\<rparr>),
         (''created_at'', (plain DateTimeField)\<lparr>f_auto_now_add := True\<rparr>),
         (''updated_at'', (plain DateTimeField)\<lparr>f_auto_now := True\<rparr>)],
      ms_indexes =
        [\<lparr>ix_fields = [''status'', ''next_retry_at''], ix_name = None\<rparr>,
         \<lparr>ix_fields = [''block_number'', ''executable_path''], ix_name = None\<rparr>,
         \<lparr>ix_fields = [''status'', ''lease_expires_at''], ix_name = Some ''abd_attempt_status_lease_idx''\<rparr>,
         \<lparr>ix_fields = [''dispatch_queue'', ''status''], ix_name = Some ''abd_attempt_queue_status_idx''\<rparr>],
      ms_constraints = [\<lparr>uc_fields = [''block_number'', ''executable_path'', ''args_json''], uc_name = ''unique_task_attempt''\<rparr>],
      ms_verbose_names = (''Task Attempt'', ''Task Attempts'')\<rparr>"

section \<open>Migrations\<close>

datatype migration_operation =
    CreateModel string model_state
  | AddField string string model_field
  | AddIndex string model_index

record migration =
  mig_name :: string
  mig_dependencies :: "string list"
  mig_operations :: "migration_operation list"

definition migration_0001 :: migration where
  "migration_0001 = \<lparr>mig_name = ''0001_initial'', mig_dependencies = [], mig_operations =
     [CreateModel ''taskattempt''
       \<lparr>ms_fields =
          [(''id'', (plain BigAutoField)\<lparr>f_primary_key := True\<rparr>),
           (''block_number'', (plain PositiveIntegerField)\<lparr>f_db_index := True\<rparr>),
           (''executable_path'', plain (CharField 255)),
           (''args_json'', (plain TextField)\<lparr>f_default := Some ''{}''\<rparr>),
           (''status'', (plain (CharField 20))\<lparr>f_choices := [(''pending'', ''Pending''), (''running'', ''Running''),
              (''success'', ''Success''), (''failed'', ''Failed'')], f_default := Some ''pending''\<rparr>),
           (''celery_task_id'', optional (CharField 50)),
           (''execution_result'', (plain JSONField)\<lparr>f_null := True\<rparr>),
           (''last_attempted_at'', optional DateTimeField),
           (''attempt_count'', (plain PositiveIntegerField)\<lparr>f_default := Some ''0''\<rparr>),
           (''next_retry_at'', optional DateTimeField),
           (''created_at'', (plain DateTimeField)\<lparr>f_auto_now_add := True\<rparr>),
           (''updated_at'', (plain DateTimeField)\<lparr>f_auto_now := True\<rparr>)],
        ms_indexes =
          [\<lparr>ix_fields = [''status'', ''next_retry_at''], ix_name = Some ''abstract_bl_status_c3786f_idx''\<rparr>,
           \<lparr>ix_fields = [''block_number'', ''executable_path''], ix_name = Some ''abstract_bl_block_n_97b116_idx''\<rparr>],
        ms_constraints = [\<lparr>uc_fields = [''block_number'', ''executable_path'', ''args_json''], uc_name = ''unique_task_attempt''\<rparr>],
        ms_verbose_names = (''Task Attempt'', ''Task Attempts'')\<rparr>]\<rparr>"

definition migration_0002 :: migration where
  "migration_0002 = \<lparr>mig_name = ''0002_taskattempt_celery_queue'', mig_dependencies = [''0001_initial''], mig_operations =
     [AddField ''taskattempt'' ''celery_queue_override'' (optional (CharField 255))]\<rparr>"

definition migration_0003 :: migration where
  "migration_0003 = \<lparr>mig_name = ''0003_taskattempt_lease_expires_at'', mig_dependencies = [''0002_taskattempt_celery_queue''],
     mig_operations =
       [AddField ''taskattempt'' ''lease_expires_at'' (optional DateTimeField),
        AddIndex ''taskattempt'' \<lparr>ix_fields = [''status'', ''lease_expires_at''], ix_name = Some ''abd_attempt_status_lease_idx''\<rparr>]\<rparr>"

definition migration_0004 :: migration where
  "migration_0004 = \<lparr>mig_name = ''0004_taskattempt_dispatch_queue'', mig_dependencies = [''0003_taskattempt_lease_expires_at''],
     mig_operations =
       [AddField ''taskattempt'' ''dispatch_queue'' (optional (CharField 255)),
        AddIndex ''taskattempt'' \<lparr>ix_fields = [''dispatch_queue'', ''status''], ix_name = Some ''abd_attempt_queue_status_idx''\<rparr>]\<rparr>"

definition migration_0005 :: migration where
  "migration_0005 = \<lparr>mig_name = ''0005_taskattempt_dispatched_at'', mig_dependencies = [''0004_taskattempt_dispatch_queue''],
     mig_operations = [AddField ''taskattempt'' ''dispatched_at'' (optional DateTimeField)]\<rparr>"

definition migration_0006 :: migration where
  "migration_0006 = \<lparr>mig_name = ''0006_taskattempt_give_up'', mig_dependencies = [''0005_taskattempt_dispatched_at''],
     mig_operations =
       [AddField ''taskattempt'' ''give_up_at'' (optional DateTimeField),
        AddField ''taskattempt'' ''give_up_reason'' ((optional (CharField 20))\<lparr>f_choices :=
          [(''attempts'', ''No attempts left''), (''block_age'', ''Block too old''), (''manual'', ''Given up by hand'')]\<rparr>)]\<rparr>"

definition migrations :: "migration list" where
  "migrations = [migration_0001, migration_0002, migration_0003, migration_0004, migration_0005, migration_0006]"

text \<open>What applying does to the state of the models; None where Django refuses.\<close>

type_synonym project_state = "(string, model_state) dict"

fun apply_operation :: "migration_operation \<Rightarrow> project_state \<Rightarrow> project_state option" where
  "apply_operation (CreateModel name m) s = (if map_of s name = None then Some (s @ [(name, m)]) else None)"
| "apply_operation (AddField name field f) s =
     (case map_of s name of
        None \<Rightarrow> None
      | Some m \<Rightarrow> if map_of (ms_fields m) field = None
          then Some (AList.update name (m\<lparr>ms_fields := ms_fields m @ [(field, f)]\<rparr>) s) else None)"
| "apply_operation (AddIndex name ix) s =
     (case map_of s name of
        None \<Rightarrow> None
      | Some m \<Rightarrow> Some (AList.update name (m\<lparr>ms_indexes := ms_indexes m @ [ix]\<rparr>) s))"

fun apply_operations :: "migration_operation list \<Rightarrow> project_state \<Rightarrow> project_state option" where
  "apply_operations [] s = Some s"
| "apply_operations (op # ops) s = (case apply_operation op s of None \<Rightarrow> None | Some s' \<Rightarrow> apply_operations ops s')"

text \<open>A migration is applied once everything it depends on is.\<close>

fun apply_migrations :: "migration list \<Rightarrow> string list \<Rightarrow> project_state \<Rightarrow> project_state option" where
  "apply_migrations [] applied s = Some s"
| "apply_migrations (m # ms) applied s =
     (if set (mig_dependencies m) \<subseteq> set applied \<and> mig_name m \<notin> set applied
      then (case apply_operations (mig_operations m) s of None \<Rightarrow> None | Some s' \<Rightarrow> apply_migrations ms (applied @ [mig_name m]) s')
      else None)"

text \<open>A model with Django's names for its unnamed indexes.\<close>

definition named_indexes :: "(string list \<Rightarrow> string) \<Rightarrow> model_state \<Rightarrow> model_state" where
  "named_indexes index_name m = m\<lparr>ms_indexes := map (\<lambda>ix. case ix_name ix of
     None \<Rightarrow> ix\<lparr>ix_name := Some (index_name (ix_fields ix))\<rparr> | Some _ \<Rightarrow> ix) (ms_indexes m)\<rparr>"

definition same_model :: "model_state \<Rightarrow> model_state \<Rightarrow> bool" where
  "same_model m n \<longleftrightarrow> map_of (ms_fields m) = map_of (ms_fields n) \<and> ms_indexes m = ms_indexes n \<and>
     ms_constraints m = ms_constraints n \<and> ms_verbose_names m = ms_verbose_names n"

section \<open>Rows and columns\<close>

datatype sql_value = SqlNull | SqlInt int | SqlText string | SqlJson json | SqlTime instant

fun status_value :: "status \<Rightarrow> string" where
  "status_value PENDING = ''pending''"
| "status_value RUNNING = ''running''"
| "status_value SUCCESS = ''success''"
| "status_value FAILED = ''failed''"

fun reason_value :: "give_up_reason \<Rightarrow> string" where
  "reason_value ATTEMPTS = ''attempts''"
| "reason_value BLOCK_AGE = ''block_age''"
| "reason_value MANUAL = ''manual''"

fun nullable :: "('a \<Rightarrow> sql_value) \<Rightarrow> 'a option \<Rightarrow> sql_value" where
  "nullable f None = SqlNull"
| "nullable f (Some v) = f v"

text \<open>The columns of a row of the model of this development.\<close>

definition row_columns :: "task_attempt \<Rightarrow> (string, sql_value) dict" where
  "row_columns r =
     [(''id'', SqlInt (int (attempt_id r))), (''block_number'', SqlInt (block_number r)),
      (''executable_path'', SqlText (executable_path r)), (''args_json'', SqlText (args_json r)),
      (''status'', SqlText (status_value (status r))), (''celery_task_id'', nullable SqlText (celery_task_id r)),
      (''execution_result'', nullable SqlJson (execution_result r)),
      (''celery_queue_override'', nullable SqlText (celery_queue_override r)),
      (''dispatch_queue'', nullable SqlText (dispatch_queue r)), (''dispatched_at'', nullable SqlTime (dispatched_at r)),
      (''lease_expires_at'', nullable SqlTime (lease_expires_at r)), (''last_attempted_at'', nullable SqlTime (last_attempted_at r)),
      (''attempt_count'', SqlInt (int (attempt_count r))), (''next_retry_at'', nullable SqlTime (next_retry_at r)),
      (''give_up_at'', nullable SqlTime (give_up_at r)),
      (''give_up_reason'', nullable (\<lambda>g. SqlText (reason_value g)) (give_up_reason r)),
      (''created_at'', SqlTime (created_at r)), (''updated_at'', SqlTime (updated_at r))]"

text \<open>
  A value a column of the field takes: of its kind, of at most its length, not negative where the kind says so,
  one of its choices, NULL only where that is allowed.
\<close>

fun fits :: "model_field \<Rightarrow> sql_value \<Rightarrow> bool" where
  "fits f SqlNull = f_null f"
| "fits f (SqlInt i) = (case f_kind f of BigAutoField \<Rightarrow> True | PositiveIntegerField \<Rightarrow> 0 \<le> i | _ \<Rightarrow> False)"
| "fits f (SqlText s) = ((case f_kind f of TextField \<Rightarrow> True | CharField n \<Rightarrow> length s \<le> n | _ \<Rightarrow> False) \<and>
     (f_choices f = [] \<or> s \<in> fst ` set (f_choices f)))"
| "fits f (SqlJson j) = (f_kind f = JSONField)"
| "fits f (SqlTime t) = (f_kind f = DateTimeField)"

text \<open>An operation that a table with rows takes: a new column starts as NULL.\<close>

fun keeps_old_rows :: "migration_operation \<Rightarrow> bool" where
  "keeps_old_rows (CreateModel name m) = True"
| "keeps_old_rows (AddField name field f) = f_null f"
| "keeps_old_rows (AddIndex name ix) = True"

lemma map_of_eq_by_entries:
  assumes "list_all (\<lambda>(k, v). map_of ys k = Some v) xs" "list_all (\<lambda>(k, v). map_of xs k = Some v) ys"
  shows "map_of xs = map_of ys"
proof (rule ext)
  fix k
  have "map_of ys k = Some v" if "map_of xs k = Some v" for v
    using map_of_SomeD [OF that] assms(1) by (auto simp: list_all_iff)
  moreover have "map_of xs k = Some v" if "map_of ys k = Some v" for v
    using map_of_SomeD [OF that] assms(2) by (auto simp: list_all_iff)
  ultimately show "map_of xs k = map_of ys k"
    by (cases "map_of xs k"; cases "map_of ys k") auto
qed

text \<open>What the migrations build, by running them: the fields entry by entry, the rest as it is.\<close>

lemma migrations_build:
  "case apply_migrations migrations [] [] of
     Some s \<Rightarrow> map fst s = [''taskattempt''] \<and> (let m = snd (hd s) in
       list_all (\<lambda>(k, f). map_of (ms_fields TaskAttempt_model) k = Some f) (ms_fields m) \<and>
       list_all (\<lambda>(k, f). map_of (ms_fields m) k = Some f) (ms_fields TaskAttempt_model) \<and>
       ms_indexes m = ms_indexes (named_indexes (\<lambda>fields. if fields = [''status'', ''next_retry_at'']
         then ''abstract_bl_status_c3786f_idx'' else ''abstract_bl_block_n_97b116_idx'') TaskAttempt_model) \<and>
       ms_constraints m = ms_constraints TaskAttempt_model \<and> ms_verbose_names m = ms_verbose_names TaskAttempt_model)
   | None \<Rightarrow> False"
  by code_simp

lemma named_indexes_cong:
  assumes "\<And>ix. ix \<in> set (ms_indexes m) \<Longrightarrow> ix_name ix = None \<Longrightarrow> f (ix_fields ix) = g (ix_fields ix)"
  shows "named_indexes f m = named_indexes g m"
  using assms by (simp add: named_indexes_def split: option.split)

lemma fits_nullable: "fits f (nullable g v) \<longleftrightarrow> (case v of None \<Rightarrow> f_null f | Some w \<Rightarrow> fits f (g w))"
  by (cases v) simp_all

lemma row_fits_model:
  assumes "0 \<le> block_number r" "length (executable_path r) \<le> 255"
    and "\<And>s. celery_task_id r = Some s \<Longrightarrow> length s \<le> 50"
    and "\<And>s. celery_queue_override r = Some s \<or> dispatch_queue r = Some s \<Longrightarrow> length s \<le> 255"
  shows "list_all2 (\<lambda>(name, f) (name', v). name = name' \<and> fits f v) (ms_fields TaskAttempt_model) (row_columns r)"
proof -
  have status: "status_value st \<in> fst ` set Status_choices" "length (status_value st) \<le> 20" for st
    by (cases st; simp add: Status_choices_def)+
  have reason: "reason_value g \<in> fst ` set GiveUpReason_choices" "length (reason_value g) \<le> 20" for g
    by (cases g; simp add: GiveUpReason_choices_def)+
  show ?thesis
    using assms status reason
    by (simp add: TaskAttempt_model_def row_columns_def fits_nullable plain_def optional_def split: option.split)
qed

text \<open>
  C39. The migrations build the table the code uses: applied in their order to an empty project they give
  exactly the model of \<open>models.py\<close>, with every option of every field, the indexes under Django's names and the
  unique constraint, so \<open>makemigrations\<close> has nothing to add. Each depends on the one before, and every column
  added later takes NULL, so they apply to a table with rows. A row of this development, with a block number
  that is not negative and texts within the declared lengths, fits the model column by column: its status and
  its reason are values of the declared choices.
\<close>

theorem migrations_yield_model:
  assumes "index_name [''status'', ''next_retry_at''] = ''abstract_bl_status_c3786f_idx''"
    and "index_name [''block_number'', ''executable_path''] = ''abstract_bl_block_n_97b116_idx''"
    and "0 \<le> block_number r" "length (executable_path r) \<le> 255"
    and "\<And>s. celery_task_id r = Some s \<Longrightarrow> length s \<le> 50"
    and "\<And>s. celery_queue_override r = Some s \<or> dispatch_queue r = Some s \<Longrightarrow> length s \<le> 255"
  shows "(\<exists>m. apply_migrations migrations [] [] = Some [(''taskattempt'', m)] \<and>
      same_model m (named_indexes index_name TaskAttempt_model)) \<and>
    list_all (\<lambda>mig. list_all keeps_old_rows (mig_operations mig)) (tl migrations) \<and>
    list_all2 (\<lambda>(name, f) (name', v). name = name' \<and> fits f v) (ms_fields TaskAttempt_model) (row_columns r)"
proof (intro conjI)
  let ?named = "\<lambda>fields. if fields = [''status'', ''next_retry_at'']
    then ''abstract_bl_status_c3786f_idx'' else ''abstract_bl_block_n_97b116_idx''"
  have names: "named_indexes index_name TaskAttempt_model = named_indexes ?named TaskAttempt_model"
    by (rule named_indexes_cong) (use assms(1,2) in \<open>auto simp: TaskAttempt_model_def\<close>)
  obtain m where m: "apply_migrations migrations [] [] = Some [(''taskattempt'', m)]"
    and entries: "list_all (\<lambda>(k, f). map_of (ms_fields TaskAttempt_model) k = Some f) (ms_fields m)"
      "list_all (\<lambda>(k, f). map_of (ms_fields m) k = Some f) (ms_fields TaskAttempt_model)"
    and rest: "ms_indexes m = ms_indexes (named_indexes ?named TaskAttempt_model)"
      "ms_constraints m = ms_constraints TaskAttempt_model" "ms_verbose_names m = ms_verbose_names TaskAttempt_model"
    using migrations_build by (auto simp: Let_def split: option.splits)
  have "same_model m (named_indexes index_name TaskAttempt_model)"
    using map_of_eq_by_entries [OF entries] rest names by (simp add: same_model_def named_indexes_def)
  then show "\<exists>m. apply_migrations migrations [] [] = Some [(''taskattempt'', m)] \<and>
      same_model m (named_indexes index_name TaskAttempt_model)"
    using m by blast
  show "list_all (\<lambda>mig. list_all keeps_old_rows (mig_operations mig)) (tl migrations)"
    by code_simp
  show "list_all2 (\<lambda>(name, f) (name', v). name = name' \<and> fits f v) (ms_fields TaskAttempt_model) (row_columns r)"
    by (rule row_fits_model) (use assms in blast)+
qed

theorem migrations_yield_model_witness:
  "(\<exists>m. apply_migrations migrations [] [] = Some [(''taskattempt'', m)] \<and>
     same_model m (named_indexes (\<lambda>fields. if fields = [''status'', ''next_retry_at''] then ''abstract_bl_status_c3786f_idx''
       else ''abstract_bl_block_n_97b116_idx'') TaskAttempt_model)) \<and>
   list_all2 (\<lambda>(name, f) (name', v). name = name' \<and> fits f v) (ms_fields TaskAttempt_model)
     (row_columns (new_attempt 0 100 ''app.task'' ''{}'' 1000))"
  using migrations_yield_model [of "\<lambda>fields. if fields = [''status'', ''next_retry_at''] then ''abstract_bl_status_c3786f_idx''
      else ''abstract_bl_block_n_97b116_idx''" "new_attempt 0 100 ''app.task'' ''{}'' 1000"]
  by (simp add: new_attempt_def)

section \<open>The admin pages\<close>

definition BLOCK_DUMPER_FILTERS :: "string list" where
  "BLOCK_DUMPER_FILTERS = [''give_up_reason'', ''dispatch_queue'']"

definition BLOCK_DUMPER_EXECUTION_FIELDS :: "string list" where
  "BLOCK_DUMPER_EXECUTION_FIELDS = [''dispatch_queue'', ''dispatched_at'', ''lease_expires_at'']"

definition BLOCK_DUMPER_RETRY_FIELDS :: "string list" where
  "BLOCK_DUMPER_RETRY_FIELDS = [''give_up_at'', ''give_up_reason'']"

definition list_display :: "string list" where
  "list_display = [''executable_path'', ''block_number'', ''status'']"

definition list_filter :: "string list" where
  "list_filter = [''status'', ''executable_path'']"

definition search_fields :: "string list" where
  "search_fields = [''celery_task_id'', ''block_number'']"

definition readonly_fields :: "string list" where
  "readonly_fields = [''block_number'', ''executable_path'', ''args_json'', ''status'', ''celery_task_id'',
     ''celery_queue_override'', ''execution_result'', ''last_attempted_at'', ''attempt_count'', ''next_retry_at'',
     ''created_at'', ''updated_at'']"

definition fieldsets :: "(string option \<times> string list) list" where
  "fieldsets =
     [(None, [''block_number'', ''executable_path'', ''args_json'']),
      (Some ''Task Execution'', [''status'', ''celery_task_id'', ''celery_queue_override'', ''execution_result'']),
      (Some ''Retry Information'', [''last_attempted_at'', ''attempt_count'', ''next_retry_at'']),
      (Some ''Timestamps'', [''created_at'', ''updated_at''])]"

definition get_list_filter :: "dumper_registry \<Rightarrow> string list" where
  "get_list_filter reg = (if dr_dumpers reg = [] then list_filter else [''status''] @ BLOCK_DUMPER_FILTERS @ [''executable_path''])"

definition get_readonly_fields :: "dumper_registry \<Rightarrow> string list" where
  "get_readonly_fields reg =
     (if dr_dumpers reg = [] then readonly_fields
      else readonly_fields @ BLOCK_DUMPER_EXECUTION_FIELDS @ BLOCK_DUMPER_RETRY_FIELDS)"

definition get_fieldsets :: "dumper_registry \<Rightarrow> (string option \<times> string list) list" where
  "get_fieldsets reg =
     (if dr_dumpers reg = [] then fieldsets
      else (let extra = [(''Task Execution'', BLOCK_DUMPER_EXECUTION_FIELDS), (''Retry Information'', BLOCK_DUMPER_RETRY_FIELDS)]
        in map (\<lambda>(name, fields). (name, fields @ (case map_of extra (case name of None \<Rightarrow> [] | Some n \<Rightarrow> n) of
             None \<Rightarrow> [] | Some added \<Rightarrow> added))) fieldsets))"

lemma get_fieldsets_with_dumpers:
  "dr_dumpers reg \<noteq> [] \<Longrightarrow> get_fieldsets reg =
     [(None, [''block_number'', ''executable_path'', ''args_json'']),
      (Some ''Task Execution'', [''status'', ''celery_task_id'', ''celery_queue_override'', ''execution_result''] @
         BLOCK_DUMPER_EXECUTION_FIELDS),
      (Some ''Retry Information'', [''last_attempted_at'', ''attempt_count'', ''next_retry_at''] @ BLOCK_DUMPER_RETRY_FIELDS),
      (Some ''Timestamps'', [''created_at'', ''updated_at''])]"
  by (simp add: get_fieldsets_def fieldsets_def)

lemmas admin_with = get_fieldsets_with_dumpers get_readonly_fields_def get_list_filter_def
lemmas admin_without = get_fieldsets_def get_readonly_fields_def get_list_filter_def

text \<open>
  The admin shows attempts and changes none: every field on the page is a field of the model, shown
  once, and read-only. With a \<open>BlockDumper\<close> the page shows every field but the primary key; without one it
  leaves out exactly the columns only \<open>BlockDumper\<close> attempts fill. Lists, filters and searches name fields of the model.
\<close>

theorem admin_shows_and_never_edits:
  "let shown = concat (map snd (get_fieldsets reg)); fields = fst ` set (ms_fields TaskAttempt_model) in
     set shown = set (get_readonly_fields reg) \<and> distinct shown \<and> set shown \<subseteq> fields \<and>
     (dr_dumpers reg \<noteq> [] \<longleftrightarrow> set shown = fields - {''id''}) \<and>
     (dr_dumpers reg = [] \<longleftrightarrow> set shown = fields - {''id''} - set BLOCK_DUMPER_EXECUTION_FIELDS - set BLOCK_DUMPER_RETRY_FIELDS) \<and>
     set (list_display @ get_list_filter reg @ search_fields) \<subseteq> fields \<and>
     (dr_dumpers reg = [] \<longleftrightarrow> set (get_list_filter reg) \<inter> (set BLOCK_DUMPER_EXECUTION_FIELDS \<union> set BLOCK_DUMPER_RETRY_FIELDS) = {})"
proof (cases "dr_dumpers reg = []")
  case True
  then show ?thesis
    by (simp only: admin_without if_True simp_thms) code_simp
next
  case False
  then show ?thesis
    by (simp only: admin_with if_False simp_thms not_False_eq_True) code_simp
qed

end
