(* ===== verification/Build_Sessions.thy ===== *)
theory Build_Sessions
  imports Json_Args Queue_Policy "HOL-Library.List_Lexorder"
begin

text \<open>
  The sessions of \<open>noxfile.py\<close>: installing, formatting, linting, the test matrix and the release. A
  session runs commands one after another; what they do is outside this repository. \<open>ok\<close> says which
  commands succeed, and what a command writes is a parameter of the step that reads it. The state of a session is the list
  of the commands it has run.
\<close>

section \<open>Commands\<close>

datatype session_end = CommandFailed "string list" | SessionSkipped string | SessionError string | ArgumentError string

type_synonym 'a session = "string list list \<Rightarrow> (session_end + 'a) \<times> string list list"

definition session_run :: "(string list \<Rightarrow> bool) \<Rightarrow> string list \<Rightarrow> unit session" where
  "session_run ok cmd hist = (if ok cmd then Inr () else Inl (CommandFailed cmd), hist @ [cmd])"

definition stop_session :: "session_end \<Rightarrow> 'a session" where
  "stop_session e hist = (Inl e, hist)"

definition finish_session :: "'a \<Rightarrow> 'a session" where
  "finish_session v hist = (Inr v, hist)"

definition and_then :: "'a session \<Rightarrow> ('a \<Rightarrow> 'b session) \<Rightarrow> 'b session" where
  "and_then f g hist = (case f hist of (Inl e, hist') \<Rightarrow> (Inl e, hist') | (Inr v, hist') \<Rightarrow> g v hist')"

fun run_all :: "(string list \<Rightarrow> bool) \<Rightarrow> string list list \<Rightarrow> unit session" where
  "run_all ok [] = finish_session ()"
| "run_all ok (c # cs) = and_then (session_run ok c) (\<lambda>_. run_all ok cs)"

text \<open>\<open>install(session, *groups, dev, editable, no_self, no_default)\<close>.\<close>

definition install_command :: "string list \<Rightarrow> bool \<Rightarrow> bool \<Rightarrow> bool \<Rightarrow> bool \<Rightarrow> string list" where
  "install_command groups dev editable no_self no_default =
     [''uv'', ''sync'', ''--active''] @ (if dev then [] else [''--prod'']) @ (if editable then [] else [''--no-editable'']) @
     (if no_self then [''--no-dev''] else []) @ (if no_default then [''--no-default-groups''] else []) @
     concat (map (\<lambda>g. [''--group'', g]) groups)"

definition install :: "(string list \<Rightarrow> bool) \<Rightarrow> string list \<Rightarrow> bool \<Rightarrow> bool \<Rightarrow> bool \<Rightarrow> bool \<Rightarrow> unit session" where
  "install ok groups dev editable no_self no_default =
     session_run ok (install_command groups dev editable no_self no_default)"

section \<open>Formatting and linting\<close>

text \<open>\<open>Path.suffix\<close> of the last component of a path: from its last dot, unless that opens or ends it.\<close>

definition path_name :: "string \<Rightarrow> string" where
  "path_name p = rev (takeWhile (\<lambda>c. c \<noteq> CHR ''/'') (rev p))"

definition path_suffix :: "string \<Rightarrow> string" where
  "path_suffix p =
     (let name = path_name p; ext = rev (takeWhile (\<lambda>c. c \<noteq> CHR ''.'') (rev name))
      in if ext = [] \<or> length name \<le> Suc (length ext) then [] else CHR ''.'' # ext)"

text \<open>The files git tracks and the others it does not ignore.\<close>

definition list_files :: "string list \<Rightarrow> string list \<Rightarrow> string option \<Rightarrow> string list" where
  "list_files tracked others sfx =
     (case sfx of None \<Rightarrow> tracked @ others | Some e \<Rightarrow> filter (\<lambda>p. path_suffix p = e) (tracked @ others))"

definition run_readable :: "(string list \<Rightarrow> bool) \<Rightarrow> string \<Rightarrow> string \<Rightarrow> unit session" where
  "run_readable ok top_dir mode =
     session_run ok [''docker'', ''run'', ''--platform'', ''linux/amd64'', ''--rm'', ''-v'', top_dir @ '':/data'', ''-w'', ''/data'',
       ''ghcr.io/bobheadxi/readable:v0.5.0@sha256:423c133e7e9ca0ac20b0ab298bd5dbfa3df09b515b34cbfbbe8944310cc8d9c9'',
       mode, ''![.]**/*.md'']"

definition shellcheck_command :: "string \<Rightarrow> string list" where
  "shellcheck_command top_dir =
     [''docker'', ''run'', ''--platform'', ''linux/amd64'', ''--rm'', ''-v'', top_dir @ '':/mnt'', ''-w'', ''/mnt'', ''-q'',
      ''koalaman/shellcheck:0.9.0@sha256:a527e2077f11f28c1c1ad1dc784b5bc966baeb3e34ef304a0ffa72699b01ad9c'']"

text \<open>
  In mode \<open>fmt\<close> the differences shellcheck writes are applied when they are more than a message; \<open>diff_lines\<close> is
  their number. \<open>ok_diff\<close>: the command ends with the code 0 or 1.
\<close>

definition run_shellcheck ::
  "(string list \<Rightarrow> bool) \<Rightarrow> (string list \<Rightarrow> bool) \<Rightarrow> (string list \<Rightarrow> nat) \<Rightarrow> string \<Rightarrow> string list \<Rightarrow> string list \<Rightarrow> string \<Rightarrow> unit session" where
  "run_shellcheck ok ok_diff diff_lines top_dir tracked others mode =
     (let files = list_files tracked others (Some ''.sh''); cmd = shellcheck_command top_dir @ files; diff = cmd @ [''--format=diff'']
      in if files = [] then finish_session ()
         else and_then
           (if mode = ''fmt''
            then and_then (session_run ok_diff diff) (\<lambda>_.
              if diff_lines diff > 1 then session_run ok [''patch'', ''-p1''] else finish_session ())
            else finish_session ())
           (\<lambda>_. session_run ok cmd))"

definition format_session ::
  "(string list \<Rightarrow> bool) \<Rightarrow> (string list \<Rightarrow> bool) \<Rightarrow> (string list \<Rightarrow> nat) \<Rightarrow> string \<Rightarrow> string list \<Rightarrow> string list \<Rightarrow> unit session" where
  "format_session ok ok_diff diff_lines top_dir tracked others =
     and_then (install ok [''lint''] True False True True) (\<lambda>_.
     and_then (session_run ok [''ruff'', ''check'', ''--fix'', ''.'']) (\<lambda>_.
     and_then (run_shellcheck ok ok_diff diff_lines top_dir tracked others ''fmt'') (\<lambda>_.
     and_then (run_readable ok top_dir ''fmt'') (\<lambda>_.
     session_run ok [''ruff'', ''format'', ''.'']))))"

definition lint ::
  "(string list \<Rightarrow> bool) \<Rightarrow> (string list \<Rightarrow> bool) \<Rightarrow> (string list \<Rightarrow> nat) \<Rightarrow> string \<Rightarrow> string list \<Rightarrow> string list \<Rightarrow> unit session" where
  "lint ok ok_diff diff_lines top_dir tracked others =
     and_then (install ok [''lint'', ''test''] True False False False) (\<lambda>_.
     and_then (run_all ok
       [[''ruff'', ''check'', ''--diff'', ''--unsafe-fixes'', ''.''], [''ruff'', ''format'', ''--diff'', ''.''], [''mypy'', ''.''],
        [''codespell'', ''.'']]) (\<lambda>_.
     and_then (run_shellcheck ok ok_diff diff_lines top_dir tracked others ''check'') (\<lambda>_.
     run_readable ok top_dir ''check'')))"

section \<open>The test matrix\<close>

definition PYTHON_VERSIONS :: "string list" where
  "PYTHON_VERSIONS = [''3.11'', ''3.12'', ''3.13'', ''3.14'']"

definition DJANGO_VERSIONS :: "string list" where
  "DJANGO_VERSIONS = [''3.2'', ''4.2'', ''5.2'']"

definition CELERY_VERSIONS :: "string list" where
  "CELERY_VERSIONS = [''5.3'', ''5.4'', ''5.5'', ''5.6'']"

definition DJANGO_PYTHON_RANGES :: "(string, string \<times> string) dict" where
  "DJANGO_PYTHON_RANGES = [(''3.2'', (''3.11'', ''3.12'')), (''4.2'', (''3.11'', ''3.14'')), (''5.2'', (''3.11'', ''3.14''))]"

text \<open>\<open>version.split(".")\<close>, and the numbers of the parts; other parts make \<open>int\<close> raise.\<close>

fun split_dots :: "string \<Rightarrow> string list" where
  "split_dots [] = [[]]"
| "split_dots (c # cs) =
     (if c = CHR ''.'' then [] # split_dots cs else (case split_dots cs of p # ps \<Rightarrow> (c # p) # ps | [] \<Rightarrow> [[c]]))"

definition digits_value :: "string \<Rightarrow> nat" where
  "digits_value s = foldl (\<lambda>n c. 10 * n + (of_char c - 48)) 0 s"

definition as_tuple :: "string \<Rightarrow> nat list option" where
  "as_tuple version =
     (if list_all (\<lambda>p. p \<noteq> [] \<and> list_all is_digit p) (split_dots version) then Some (map digits_value (split_dots version))
      else None)"

text \<open>\<open>python_version\<close>: \<open>interpreter\<close> is what the interpreter of the session prints.\<close>

definition python_version :: "(string list \<Rightarrow> bool) \<Rightarrow> string \<Rightarrow> nat list session" where
  "python_version ok interpreter =
     and_then (session_run ok [''python'', ''-c'', ''import sys; print('%s.%s' % sys.version_info[:2])'']) (\<lambda>_.
       case as_tuple (strip interpreter) of
         None \<Rightarrow> stop_session (SessionError ''ValueError'') | Some v \<Rightarrow> finish_session v)"

fun dotted :: "nat list \<Rightarrow> string" where
  "dotted [] = []"
| "dotted [n] = show_nat n"
| "dotted (n # ns) = show_nat n @ ''.'' @ dotted ns"

definition test_commands :: "string \<Rightarrow> string \<Rightarrow> string list \<Rightarrow> string list list" where
  "test_commands django celery posargs =
     [install_command [''test''] True True False False, [''pip'', ''install'', ''django~='' @ django @ ''.0''],
      [''pip'', ''install'', ''celery~='' @ celery @ ''.0''], [''pytest'', ''-vv'', ''-n'', ''auto''] @ posargs]"

definition test :: "(string list \<Rightarrow> bool) \<Rightarrow> string \<Rightarrow> string list \<Rightarrow> string \<Rightarrow> string \<Rightarrow> unit session" where
  "test ok interpreter posargs django celery =
     (case map_of DJANGO_PYTHON_RANGES django of
        None \<Rightarrow> stop_session (SessionError ''KeyError'')
      | Some (oldest, newest) \<Rightarrow>
          and_then (python_version ok interpreter) (\<lambda>python.
            if the (as_tuple oldest) \<le> python \<and> python \<le> the (as_tuple newest)
            then run_all ok (test_commands django celery posargs)
            else stop_session (SessionSkipped (''Django '' @ django @ '' supports Python '' @ oldest @ '' - '' @ newest @
              '', not '' @ dotted python))))"

section \<open>The release\<close>

definition MAIN_BRANCH_NAME :: string where
  "MAIN_BRANCH_NAME = ''master''"

text \<open>
  \<open>re.match\<close> looks for the pattern at the start of the text and leaves the rest alone, so the optional
  suffix of the pattern never decides: three numbers with dots between them, and anything after.
\<close>

definition after_number :: "string \<Rightarrow> string option" where
  "after_number s = (if takeWhile is_digit s = [] then None else Some (dropWhile is_digit s))"

definition after_dot :: "string \<Rightarrow> string option" where
  "after_dot s = (case s of [] \<Rightarrow> None | c # cs \<Rightarrow> if c = CHR ''.'' then Some cs else None)"

definition version_accepted :: "string \<Rightarrow> bool" where
  "version_accepted v =
     (Option.bind (Option.bind (Option.bind (Option.bind (after_number v) after_dot) after_number) after_dot) after_number \<noteq> None)"

text \<open>
  What the session is called with (the version and whether it is a draft), what git answers and \<open>repr\<close> of a
  text; the result is the commands it asks the releaser to run.
\<close>

record release_request =
  release_version :: string
  draft :: bool

definition GIT_DIFF :: "string list" where
  "GIT_DIFF = [''git'', ''diff'', ''--stat'']"

definition GIT_BRANCH :: "string list" where
  "GIT_BRANCH = [''git'', ''rev-parse'', ''--abbrev-ref'', ''HEAD'']"

definition towncrier :: "string \<Rightarrow> string list" where
  "towncrier v = [''towncrier'', ''build'', ''--yes'', ''--version'', v]"

definition make_release ::
  "(string list \<Rightarrow> bool) \<Rightarrow> (string list \<Rightarrow> string) \<Rightarrow> (string \<Rightarrow> string) \<Rightarrow> release_request \<Rightarrow> string list session" where
  "make_release ok answer repr req =
     and_then (install ok [''release''] True False True True) (\<lambda>_.
       if \<not> version_accepted (release_version req) then stop_session (ArgumentError ''Invalid version format'')
       else and_then (session_run ok GIT_DIFF) (\<lambda>_.
         if answer GIT_DIFF \<noteq> [] then stop_session (SessionError ''Uncommitted changes detected'')
         else and_then (session_run ok GIT_BRANCH) (\<lambda>_.
           let current_branch = strip (answer GIT_BRANCH) in
           if current_branch \<noteq> MAIN_BRANCH_NAME \<and> \<not> draft req
           then stop_session (SessionError ''Only draft releases are allowed from non-main branch'')
           else and_then (session_run ok (towncrier (release_version req))) (\<lambda>_.
             let tag = (if draft req then ''draft/v'' else ''v'') @ release_version req;
                 message = (if draft req then ''Draft release '' else ''release '') @ tag
             in finish_session
                  [''git commit -m '' @ repr message, ''git push origin '' @ current_branch, ''git tag '' @ tag,
                   ''git push origin '' @ tag]))))"

section \<open>Sessions stop at the first failure\<close>

lemmas session_defs = and_then_def session_run_def stop_session_def finish_session_def install_def

lemma run_all_result:
  "run_all ok cmds hist = (if list_all ok cmds then (Inr (), hist @ cmds)
     else (Inl (CommandFailed (hd (dropWhile ok cmds))), hist @ takeWhile ok cmds @ [hd (dropWhile ok cmds)]))"
  by (induction cmds arbitrary: hist) (auto simp: session_defs)

lemma after_number_iff: "after_number s = Some r \<longleftrightarrow> (\<exists>n. n \<noteq> [] \<and> list_all is_digit n \<and> s = n @ r \<and>
    (r = [] \<or> \<not> is_digit (hd r)))"
proof
  assume "after_number s = Some r"
  then show "\<exists>n. n \<noteq> [] \<and> list_all is_digit n \<and> s = n @ r \<and> (r = [] \<or> \<not> is_digit (hd r))"
    by (intro exI [of _ "takeWhile is_digit s"])
      (auto simp: after_number_def list_all_iff hd_dropWhile dest: set_takeWhileD split: if_splits)
next
  assume "\<exists>n. n \<noteq> [] \<and> list_all is_digit n \<and> s = n @ r \<and> (r = [] \<or> \<not> is_digit (hd r))"
  then obtain n where n: "n \<noteq> []" "\<And>c. c \<in> set n \<Longrightarrow> is_digit c" "s = n @ r" "r = [] \<or> \<not> is_digit (hd r)"
    by (auto simp: list_all_iff)
  have "takeWhile is_digit s = n @ takeWhile is_digit r" "dropWhile is_digit s = dropWhile is_digit r"
    unfolding n(3) using n(2) by (simp_all add: takeWhile_append2 dropWhile_append2)
  then show "after_number s = Some r"
    using n(1,4) by (cases r) (simp_all add: after_number_def)
qed

text \<open>The accepted versions.\<close>

lemma version_accepted_iff:
  "version_accepted v \<longleftrightarrow> (\<exists>a b c rest. v = a @ ''.'' @ b @ ''.'' @ c @ rest \<and>
     (\<forall>n \<in> {a, b, c}. n \<noteq> [] \<and> list_all is_digit n))"
proof
  assume "version_accepted v"
  then obtain r1 r2 r3 r4 r5 where r: "after_number v = Some r1" "after_dot r1 = Some r2" "after_number r2 = Some r3"
      "after_dot r3 = Some r4" "after_number r4 = Some r5"
    by (auto simp: version_accepted_def bind_eq_Some_conv)
  have dots: "r1 = CHR ''.'' # r2" "r3 = CHR ''.'' # r4"
    using r(2,4) by (auto simp: after_dot_def split: list.splits if_splits)
  obtain a b c where "v = a @ r1" "r2 = b @ r3" "r4 = c @ r5" "\<forall>n \<in> {a, b, c}. n \<noteq> [] \<and> list_all is_digit n"
    using r(1,3,5) by (auto simp: after_number_iff)
  then show "\<exists>a b c rest. v = a @ ''.'' @ b @ ''.'' @ c @ rest \<and> (\<forall>n \<in> {a, b, c}. n \<noteq> [] \<and> list_all is_digit n)"
    using dots by (intro exI [of _ a] exI [of _ b] exI [of _ c] exI [of _ r5]) simp
next
  assume "\<exists>a b c rest. v = a @ ''.'' @ b @ ''.'' @ c @ rest \<and> (\<forall>n \<in> {a, b, c}. n \<noteq> [] \<and> list_all is_digit n)"
  then obtain a b c rest where v: "v = a @ ''.'' @ b @ ''.'' @ c @ rest" and n: "\<forall>n \<in> {a, b, c}. n \<noteq> [] \<and> list_all is_digit n"
    by blast
  have dot: "\<not> is_digit CHR ''.''" by (simp add: is_digit_def)
  have "after_number v = Some (''.'' @ b @ ''.'' @ c @ rest)" "after_number (b @ ''.'' @ c @ rest) = Some (''.'' @ c @ rest)"
    unfolding after_number_iff v using n dot by auto
  moreover have "after_number (c @ rest) \<noteq> None"
    using n by (auto simp: after_number_def list_all_iff neq_Nil_conv)
  ultimately show "version_accepted v" by (simp add: version_accepted_def after_dot_def)
qed

text \<open>
  C40. A release is made from a clean tree, and from the main branch unless it is a draft: otherwise the
  changelog is not touched. The session ends well exactly when its commands do, the version starts with three
  numbers, and the tree and the branch allow it; then it asks for the tag of that version, under \<open>draft/\<close> for a draft.
  The version is not read to its end: text after the third number passes.
\<close>

theorem release_is_guarded:
  fixes req :: release_request and answer :: "string list \<Rightarrow> string"
  defines "cmd \<equiv> towncrier (release_version req)" and "branch \<equiv> strip (answer GIT_BRANCH)"
    and "setup \<equiv> install_command [''release''] True False True True"
  shows "((\<exists>steps. make_release ok answer repr req [] = (Inr steps, [setup, GIT_DIFF, GIT_BRANCH, cmd])) \<longleftrightarrow>
      list_all ok [setup, GIT_DIFF, GIT_BRANCH, cmd] \<and> answer GIT_DIFF = [] \<and> (branch = MAIN_BRANCH_NAME \<or> draft req) \<and>
      (\<exists>a b c rest. release_version req = a @ ''.'' @ b @ ''.'' @ c @ rest \<and> (\<forall>n \<in> {a, b, c}. n \<noteq> [] \<and> list_all is_digit n))) \<and>
    (case make_release ok answer repr req [] of
      (Inr steps, cmds) \<Rightarrow> cmds = [setup, GIT_DIFF, GIT_BRANCH, cmd] \<and>
        last steps = ''git push origin '' @ (if draft req then ''draft/v'' else ''v'') @ release_version req
    | (Inl e, cmds) \<Rightarrow> cmd \<in> set cmds \<longrightarrow> e = CommandFailed cmd)"
  unfolding version_accepted_iff [symmetric] assms
  by (auto simp: make_release_def session_defs Let_def towncrier_def GIT_DIFF_def GIT_BRANCH_def install_command_def)

text \<open>A draft from another branch, with a version that goes on after the third number.\<close>

theorem release_is_guarded_witness:
  "(\<exists>steps. make_release (\<lambda>_. True) (\<lambda>c. if c = GIT_BRANCH then ''fix'' else []) (\<lambda>s. s)
      \<lparr>release_version = ''1.2.3foo'', draft = True\<rparr> [] =
    (Inr steps, [install_command [''release''] True False True True, GIT_DIFF, GIT_BRANCH, towncrier ''1.2.3foo''])) \<and>
   (\<nexists>steps. make_release (\<lambda>_. True) (\<lambda>c. if c = GIT_BRANCH then ''fix'' else []) (\<lambda>s. s)
      \<lparr>release_version = ''1.2.3foo'', draft = False\<rparr> [] =
    (Inr steps, [install_command [''release''] True False True True, GIT_DIFF, GIT_BRANCH, towncrier ''1.2.3foo'']))"
proof -
  have v: "\<exists>a b c rest. ''1.2.3foo'' = a @ ''.'' @ b @ ''.'' @ c @ rest \<and> (\<forall>n \<in> {a, b, c}. n \<noteq> [] \<and> list_all is_digit n)"
    by (intro exI [of _ "''1''"] exI [of _ "''2''"] exI [of _ "''3''"] exI [of _ "''foo''"]) (simp add: is_digit_def)
  have branch: "strip ''fix'' \<noteq> MAIN_BRANCH_NAME" "GIT_DIFF \<noteq> GIT_BRANCH" by code_simp+
  show ?thesis
    using release_is_guarded [of "\<lambda>_. True" "\<lambda>c. if c = GIT_BRANCH then ''fix'' else []" "\<lambda>s. s"
        "\<lparr>release_version = ''1.2.3foo'', draft = True\<rparr>"]
      release_is_guarded [of "\<lambda>_. True" "\<lambda>c. if c = GIT_BRANCH then ''fix'' else []" "\<lambda>s. s"
        "\<lparr>release_version = ''1.2.3foo'', draft = False\<rparr>"] v branch
    by simp
qed

section \<open>The test matrix runs what it claims\<close>

text \<open>Both ends of the range of each Django version are among the Python versions, and \<open>3.9\<close> is before \<open>3.10\<close>.\<close>

lemma matrix_ranges:
  "list_all (\<lambda>django. case map_of DJANGO_PYTHON_RANGES django of
      None \<Rightarrow> False
    | Some (oldest, newest) \<Rightarrow> oldest \<in> set PYTHON_VERSIONS \<and> newest \<in> set PYTHON_VERSIONS \<and>
        the (as_tuple oldest) \<le> the (as_tuple newest)) DJANGO_VERSIONS"
  "the (as_tuple ''3.9'') < the (as_tuple ''3.10'')"
  by code_simp+

text \<open>With every command succeeding, the tests of the matrix run exactly for these pairs; Django 3.2 not on 3.13 and 3.14.\<close>

lemma matrix_runs:
  "map (\<lambda>django. filter (\<lambda>python. fst (test (\<lambda>_. True) python [] django ''5.6'' []) = Inr ()) PYTHON_VERSIONS) DJANGO_VERSIONS =
     [[''3.11'', ''3.12''], PYTHON_VERSIONS, PYTHON_VERSIONS]"
  by code_simp

end
