(* ===== verification/Example_Project.thy ===== *)
theory Example_Project
  imports Startup Block_Task Block_Processor
begin

text \<open>
  The example project of the repository (\<open>example_project/\<close>): its settings, its three block tasks
  (\<open>block_explorer/tasks.py\<close>), the start of its worker (\<open>example_project/celery.py\<close>) and the command
  \<open>create_admin\<close>. The tasks are declared through \<^const>\<open>block_task\<close> and run through the scheduler's
  \<^const>\<open>process_block\<close>, so this theory puts the library's parts together the way a project does.

  Parameters: \<open>repr\<close> is Python's text of a list or a dictionary, \<open>others\<close> what the import of a module
  outside the project does.
\<close>

section \<open>Settings\<close>

definition INSTALLED_APPS :: "string list" where
  "INSTALLED_APPS = [''django.contrib.admin'', ''django.contrib.auth'', ''django.contrib.contenttypes'',
     ''django.contrib.sessions'', ''django.contrib.messages'', ''django.contrib.staticfiles'', ''block_explorer'',
     ''abstract_block_dumper'']"

text \<open>The settings of the library the project sets; the others keep their defaults.\<close>

definition example_settings :: settings where
  "example_settings = default_settings\<lparr>BLOCK_TASK_RETRY_BACKOFF := Some (PInt 2), BLOCK_DUMPER_MAX_ATTEMPTS := Some 3\<rparr>"

definition example_scheduler_settings :: scheduler_settings where
  "example_scheduler_settings = \<lparr>BITTENSOR_NETWORK = Some ''finney'', BLOCK_DUMPER_RPC_TIMEOUT = None,
     BLOCK_DUMPER_POLL_INTERVAL = Some 1, BLOCK_DUMPER_START_FROM_BLOCK = Some (PyStr ''current''),
     BLOCK_DUMPER_LOOKBACK_ENABLED = None\<rparr>"

text \<open>The Celery part, from the environment, \<open>sys.argv\<close> and the names of the loaded modules.\<close>

record celery_settings =
  CELERY_BROKER_URL :: string
  CELERY_RESULT_BACKEND :: string
  CELERY_TASK_ALWAYS_EAGER :: bool
  CELERY_TASK_EAGER_PROPAGATES :: bool

definition getenv :: "(string, string) dict \<Rightarrow> string \<Rightarrow> string \<Rightarrow> string" where
  "getenv env name fallback = (case map_of env name of None \<Rightarrow> fallback | Some v \<Rightarrow> v)"

definition example_celery_settings :: "(string, string) dict \<Rightarrow> string list \<Rightarrow> string list \<Rightarrow> celery_settings" where
  "example_celery_settings env argv modules =
     (let testing = ''test'' \<in> set argv \<or> ''pytest'' \<in> set modules
      in \<lparr>CELERY_BROKER_URL = getenv env ''CELERY_BROKER_URL'' ''redis://localhost:6379/0'',
          CELERY_RESULT_BACKEND = getenv env ''CELERY_RESULT_BACKEND'' ''redis://localhost:6379/0'',
          CELERY_TASK_ALWAYS_EAGER = testing, CELERY_TASK_EAGER_PROPAGATES = testing\<rparr>)"

text \<open>An entry of the beat schedule: the name of the task, the hour and the minute of the day, the arguments.\<close>

record beat_entry =
  beat_task :: string
  beat_hour :: nat
  beat_minute :: nat
  beat_kwargs :: jdict

definition CELERY_BEAT_SCHEDULE :: "(string, beat_entry) dict" where
  "CELERY_BEAT_SCHEDULE = [(''cleanup-old-tasks'', \<lparr>beat_task = ''abstract_block_dumper.cleanup_old_tasks'',
     beat_hour = 2, beat_minute = 0, beat_kwargs = [(''days'', JInt 7)]\<rparr>)]"

section \<open>The tasks\<close>

text \<open>A call with keyword arguments binds the parameters, from the call or from the defaults.\<close>

definition bind_call :: "string list \<Rightarrow> jdict \<Rightarrow> jdict \<Rightarrow> jdict res" where
  "bind_call params defaults kwargs =
     (if \<not> list_all (\<lambda>(k, _). k \<in> set params) kwargs then Inl (TypeError ''unexpected keyword argument'')
      else if \<not> list_all (\<lambda>p. p \<in> fst ` set kwargs \<or> p \<in> fst ` set defaults) params
        then Inl (TypeError ''missing required argument'')
      else Inr (dict_update defaults kwargs))"

fun py_text :: "(json \<Rightarrow> string) \<Rightarrow> json \<Rightarrow> string" where
  "py_text repr JNull = ''None''"
| "py_text repr (JBool b) = (if b then ''True'' else ''False'')"
| "py_text repr (JInt i) = show_int i"
| "py_text repr (JStr s) = s"
| "py_text repr v = repr v"

definition processed :: "(json \<Rightarrow> string) \<Rightarrow> jdict \<Rightarrow> jdict \<Rightarrow> outcome" where
  "processed repr defaults kwargs =
     (case bind_call [''block_number'', ''netuid''] defaults kwargs of
        Inl e \<Rightarrow> Raises e
      | Inr args \<Rightarrow>
          let arg = (\<lambda>k. case map_of args k of None \<Rightarrow> [] | Some v \<Rightarrow> py_text repr v)
          in Returns (JStr (''Processed block '' @ arg ''block_number'' @ '' for NetUID '' @ arg ''netuid'')))"

definition process_every_block :: "(json \<Rightarrow> string) \<Rightarrow> task_function" where
  "process_every_block repr = \<lparr>fn_module = ''block_explorer.tasks'', fn_name = ''process_every_block'',
     accepts_var_keyword = False, body = processed repr [(''netuid'', JNull)]\<rparr>"

definition backfill_previous_100_blocks :: "(json \<Rightarrow> string) \<Rightarrow> task_function" where
  "backfill_previous_100_blocks repr = \<lparr>fn_module = ''block_explorer.tasks'', fn_name = ''backfill_previous_100_blocks'',
     accepts_var_keyword = False, body = processed repr [(''netuid'', JNull)]\<rparr>"

definition subnet_analysis :: "(json \<Rightarrow> string) \<Rightarrow> task_function" where
  "subnet_analysis repr = \<lparr>fn_module = ''block_explorer.tasks'', fn_name = ''subnet_analysis'',
     accepts_var_keyword = False, body = processed repr []\<rparr>"

text \<open>\<open>lambda bn, netuid: (bn + netuid) % 50 == 0\<close>, called with the arguments of the attempt; a bool is an int.\<close>

definition subnet_condition :: "int \<Rightarrow> jdict \<Rightarrow> bool res" where
  "subnet_condition bn kwargs =
     (case bind_call [''netuid''] [] kwargs of
        Inl e \<Rightarrow> Inl e
      | Inr args \<Rightarrow>
          (case map_of args ''netuid'' of
             Some (JInt n) \<Rightarrow> Inr ((bn + n) mod 50 = 0)
           | Some (JBool b) \<Rightarrow> Inr ((bn + (if b then 1 else 0)) mod 50 = 0)
           | _ \<Rightarrow> Inl (TypeError ''+'')))"

definition subnet_args :: "jdict list" where
  "subnet_args = map (\<lambda>i. [(''netuid'', JInt i)]) [10..14]"

section \<open>Start\<close>

text \<open>The import of \<open>block_explorer/tasks.py\<close>: three decorators in a row, until one raises.\<close>

definition declare_task ::
  "(memory_registry \<Rightarrow> registry_item res \<times> memory_registry) \<Rightarrow> exn option \<times> registries \<Rightarrow> exn option \<times> registries" where
  "declare_task decorator st =
     (case st of
        (Some e, regs) \<Rightarrow> (Some e, regs)
      | (None, dumpers, tasks) \<Rightarrow>
          (case decorator tasks of
             (Inl e, tasks') \<Rightarrow> (Some e, dumpers, tasks') | (Inr _, tasks') \<Rightarrow> (None, dumpers, tasks')))"

definition example_decorators :: "(json \<Rightarrow> string) \<Rightarrow> (memory_registry \<Rightarrow> registry_item res \<times> memory_registry) list" where
  "example_decorators repr =
     [block_task NoCondition None False None PyNone None (process_every_block repr),
      block_task NoCondition None False (Some 100) (PyStr ''recent-blocks-backfill'') None
        (backfill_previous_100_blocks repr),
      block_task (ACallable subnet_condition) (Some subnet_args) False (Some 1000) (PyStr ''subnet-analysis-backfill'')
        (Some [(''retry'', PyBool True)]) (subnet_analysis repr)]"

definition block_explorer_tasks :: "(json \<Rightarrow> string) \<Rightarrow> task_module" where
  "block_explorer_tasks repr = \<lparr>tm_name = ''block_explorer.tasks'',
     tm_import = (\<lambda>regs. fold declare_task (example_decorators repr) (None, regs))\<rparr>"

text \<open>The modules \<open>ensure_modules_loaded\<close> asks for: \<open>tasks\<close> and \<open>block_tasks\<close> of every installed app.\<close>

definition module_names :: "string list \<Rightarrow> string list" where
  "module_names apps = concat (map (\<lambda>app. [app @ ''.tasks'', app @ ''.block_tasks'']) apps)"

definition example_modules :: "(json \<Rightarrow> string) \<Rightarrow> (string \<Rightarrow> task_module) \<Rightarrow> task_module list" where
  "example_modules repr others =
     map (\<lambda>n. if n = ''block_explorer.tasks'' then block_explorer_tasks repr else others n) (module_names INSTALLED_APPS)"

text \<open>\<open>on_worker_ready\<close> of \<open>celery.py\<close>.\<close>

definition on_worker_ready :: "derivation \<Rightarrow> (json \<Rightarrow> string) \<Rightarrow> (string \<Rightarrow> task_module) \<Rightarrow> process \<Rightarrow> (raised + unit) \<times> process" where
  "on_worker_ready derive repr others p = setup_celery_tasks example_settings derive (example_modules repr others) p"

section \<open>The admin user\<close>

record user =
  username :: string
  email :: string
  password :: string
  is_superuser :: bool

definition handle_create_admin :: "user list \<Rightarrow> string \<times> user list" where
  "handle_create_admin users =
     (if list_ex (\<lambda>u. username u = ''admin'') users then (''Superuser 'admin' already exists.'', users)
      else (''Superuser 'admin' created successfully with password 'admin'.'',
        users @ [\<lparr>username = ''admin'', email = ''admin@example.com'', password = ''admin'', is_superuser = True\<rparr>]))"

lemma create_admin_idempotent: "snd (handle_create_admin (snd (handle_create_admin users))) = snd (handle_create_admin users)"
  by (simp add: handle_create_admin_def)

section \<open>Facts\<close>

text \<open>A task module among modules that do not exist.\<close>

definition missing :: "(string \<Rightarrow> task_module) \<Rightarrow> bool" where
  "missing others \<longleftrightarrow> (\<forall>n regs. tm_import (others n) regs = (Some (ModuleNotFoundError n), regs))"

lemma ensure_only_module:
  assumes "missing others" "distinct ns" "\<And>regs. tm_import m regs = (None, f regs)"
  shows "ensure_modules_loaded (map (\<lambda>n. if n = name then m else others n) ns) regs =
    (Inr (), if name \<in> set ns then f regs else regs)"
  using assms(2)
proof (induction ns arbitrary: regs)
  case (Cons n ns)
  have other: "tm_import (others n) regs = (Some (ModuleNotFoundError n), regs)" for n regs
    using assms(1) unfolding missing_def by blast
  show ?case using Cons by (cases "n = name") (auto simp: assms(3) other)
qed simp

text \<open>The names of the three tasks, and the arguments of the third.\<close>

definition every_block_path :: string where
  "every_block_path = ''block_explorer.tasks.process_every_block''"

definition recent_blocks_path :: string where
  "recent_blocks_path = ''block_explorer.tasks.backfill_previous_100_blocks''"

definition subnet_path :: string where
  "subnet_path = ''block_explorer.tasks.subnet_analysis''"

definition netuid_args :: "int \<Rightarrow> jdict" where
  "netuid_args n = [(''netuid'', JInt n)]"

text \<open>The entries the three decorators register.\<close>

definition example_item ::
  "string \<Rightarrow> string \<Rightarrow> (int \<Rightarrow> jdict \<Rightarrow> bool res) \<Rightarrow> jdict list option \<Rightarrow> int option \<Rightarrow> queue_target option \<Rightarrow>
    (string, pyval) dict \<Rightarrow> registry_item" where
  "example_item path name cond args lookback target kwargs = \<lparr>condition = cond,
     item_function = \<lparr>func_name = Some path, func_module = ''block_explorer.tasks'',
       func_dunder_name = name\<rparr>,
     item_args = args, block_source = LATEST_BLOCK_SOURCE, backfilling_lookback = lookback, backfill_queue = target,
     celery_kwargs = kwargs, live_queue = None, block_time_seconds = 12\<rparr>"

definition example_items :: "registry_item list" where
  "example_items =
     [example_item every_block_path ''process_every_block'' (\<lambda>_ _. Inr True) None None None [],
      example_item recent_blocks_path ''backfill_previous_100_blocks'' (\<lambda>_ _. Inr True) None (Some 100) (Some (Name ''recent-blocks-backfill'')) [],
      example_item subnet_path ''subnet_analysis'' subnet_condition (Some subnet_args) (Some 1000)
        (Some (Name ''subnet-analysis-backfill'')) [(''retry'', PyBool True)]]"

lemma example_import: "tm_import (block_explorer_tasks repr) regs = (None, fst regs, snd regs @ example_items)"
proof -
  have strip: "strip ''recent-blocks-backfill'' = ''recent-blocks-backfill''"
    "strip ''subnet-analysis-backfill'' = ''subnet-analysis-backfill''"
    by code_simp+
  show ?thesis
    by (cases regs)
      (simp add: block_explorer_tasks_def example_decorators_def declare_task_def block_task_def repeats_keyword_def strip register_item_def
        example_items_def example_item_def effective_condition_def get_executable_path_def process_every_block_def
        backfill_previous_100_blocks_def subnet_analysis_def every_block_path_def recent_blocks_path_def subnet_path_def
        Let_def)
qed

lemma module_names_distinct: "distinct (module_names INSTALLED_APPS)"
  by code_simp

lemma module_names_mem: "''block_explorer.tasks'' \<in> set (module_names INSTALLED_APPS)"
  by code_simp

lemma example_modules_loaded:
  "missing others \<Longrightarrow> ensure_modules_loaded (example_modules repr others) regs = (Inr (), fst regs, snd regs @ example_items)"
  unfolding example_modules_def
  using ensure_only_module [OF _ module_names_distinct, of others "block_explorer_tasks repr"
      "\<lambda>regs. (fst regs, snd regs @ example_items)" "''block_explorer.tasks''" regs] example_import module_names_mem
  by simp

lemma subnet_condition_int: "subnet_condition bn (netuid_args n) = Inr ((bn + n) mod 50 = 0)"
  by (simp add: subnet_condition_def bind_call_def netuid_args_def)

text \<open>The units of work of block \<open>b\<close>.\<close>

definition example_work :: "int \<Rightarrow> (int \<times> string \<times> string) set" where
  "example_work b =
     {(b, every_block_path, serialize_args []), (b, recent_blocks_path, serialize_args [])} \<union>
     {(b, subnet_path, serialize_args (netuid_args n)) | n. 10 \<le> n \<and> n \<le> 14 \<and> (b + n) mod 50 = 0}"

lemma called_for_Cons:
  "called_for (item # items) b path args \<longleftrightarrow>
    item_path item = path \<and> args \<in> set (get_execution_args item) \<and> match_condition item b args = Inr True \<or>
    called_for items b path args"
  "\<not> called_for [] b path args"
  by (auto simp: called_for_def)

lemma example_item_sel:
  "item_path (example_item path name cond args lookback target kwargs) = path"
  "match_condition (example_item path name cond args lookback target kwargs) b a = Inr True \<longleftrightarrow> cond b a = Inr True"
  "get_execution_args (example_item path name cond None lookback target kwargs) = [[]]"
  "as \<noteq> [] \<Longrightarrow> get_execution_args (example_item path name cond (Some as) lookback target kwargs) = as"
  by (auto simp: item_path_def example_item_def match_condition_def get_execution_args_def split: sum.splits)

lemma subnet_args_set: "subnet_args \<noteq> []" "set subnet_args = netuid_args ` {10..14}"
proof -
  show "subnet_args \<noteq> []" by (simp add: subnet_args_def)
  show "set subnet_args = netuid_args ` {10..14}"
    unfolding subnet_args_def set_map set_upto by (rule image_cong) (simp_all only: netuid_args_def)
qed

lemma example_called_for:
  "{(b, path, serialize_args args) | path args. called_for example_items b path args} = example_work b"
proof -
  have "called_for example_items b path args \<longleftrightarrow>
      path = every_block_path \<and> args = [] \<or> path = recent_blocks_path \<and> args = [] \<or>
      path = subnet_path \<and> (\<exists>n. args = netuid_args n \<and> 10 \<le> n \<and> n \<le> 14 \<and> (b + n) mod 50 = 0)" for path args
    unfolding example_items_def called_for_Cons example_item_sel(1-3) example_item_sel(4) [OF subnet_args_set(1)] subnet_args_set(2)
    using subnet_condition_int by (auto simp: called_for_Cons(2))
  moreover have "{(b, path, g args) | path args. path = p1 \<and> args = a1 \<or> path = p2 \<and> args = a1 \<or>
        path = p3 \<and> (\<exists>n. args = f n \<and> Q n)} = {(b, p1, g a1), (b, p2, g a1)} \<union> {(b, p3, g (f n)) | n. Q n}"
    for g :: "jdict \<Rightarrow> string" and p1 p2 p3 :: string and f :: "int \<Rightarrow> jdict" and a1 Q by auto
  ultimately show ?thesis unfolding example_work_def by (simp only:)
qed

text \<open>Of five netuids in a row at most one fits a block.\<close>

lemma example_netuid:
  fixes b n m :: int
  assumes "(b + n) mod 50 = 0" "(b + m) mod 50 = 0" "10 \<le> n" "n \<le> 14" "10 \<le> m" "m \<le> 14"
  shows "n = m"
proof -
  have "50 dvd (b + n) - (b + m)" using assms(1,2) by (simp only: mod_eq_dvd_iff [symmetric])
  then have "50 dvd n - m" by simp
  then show ?thesis using assms(3-6) dvd_imp_le_int [of "n - m" 50] by (cases "n = m") auto
qed

lemma example_work_card: "card (example_work b) \<le> 3"
proof -
  let ?S = "{(b, subnet_path, serialize_args (netuid_args n)) | n. 10 \<le> n \<and> n \<le> 14 \<and> (b + n) mod 50 = 0}"
  obtain n where n: "m = n" if "10 \<le> m" "m \<le> 14" "(b + m) mod 50 = 0" for m
    using example_netuid [of b] by meson
  then have "?S \<subseteq> {(b, subnet_path, serialize_args (netuid_args n))}" by auto
  then have "card ?S \<le> 1" using card_mono [of "{(b, subnet_path, serialize_args (netuid_args n))}" ?S] by simp
  moreover have "card {(b, every_block_path, serialize_args []), (b, recent_blocks_path, serialize_args [])} \<le> 2"
    by (simp add: card_insert_if)
  ultimately show ?thesis
    using card_Un_le [of "{(b, every_block_path, serialize_args []), (b, recent_blocks_path, serialize_args [])}" ?S]
    unfolding example_work_def by linarith
qed

section \<open>Properties\<close>

text \<open>A process before anything is loaded.\<close>

definition fresh_process :: process where
  "fresh_process = \<lparr>ps_registries = (empty_dumper_registry, []), ps_apps = (\<lambda>_. sample_app), ps_signals = False\<rparr>"

text \<open>
  C38. The example project runs as it reads. When the modules of the other apps do not exist, both the scheduler
  command and the worker start with its three tasks registered. A new block \<open>b\<close> then adds exactly the units of work
  the declarations call for: one of \<open>process_every_block\<close>, one of \<open>backfill_previous_100_blocks\<close>, and one of
  \<open>subnet_analysis\<close> for the netuid from 10 to 14 with \<open>(b + netuid) % 50 == 0\<close>, if there is one; at most one
  netuid qualifies.
\<close>

theorem example_block_adds_its_work:
  assumes "missing others" and "db_ok (table w)"
    and "handle_block_tasks example_settings derive (example_modules repr others) example_scheduler_settings
      (fresh_process, w0) = (r, p, w1)"
  shows "(\<exists>sc. r = Inr sc \<and> poll_interval sc = 1 \<and> start_from_block sc = Some (PyStr ''current'') \<and> lookback_enabled sc) \<and>
    on_worker_ready derive repr others fresh_process = (Inr (), fresh_process\<lparr>ps_registries := ps_registries p\<rparr>) \<and>
    recorded_keys (table (process_block (process_ctx example_settings accepts takes p) b None w)) =
      recorded_keys (table w) \<union> example_work b \<and>
    card (example_work b) \<le> 3"
proof -
  have loaded: "ensure_modules_loaded (example_modules repr others) (ps_registries fresh_process) =
      (Inr (), empty_dumper_registry, example_items)"
    using example_modules_loaded [OF assms(1)] by (simp add: fresh_process_def)
  have prep: "prepare_block_dumpers example_settings derive empty_dumper_registry True as = (Inr (), as)" for as
    by (simp add: prepare_block_dumpers_def empty_dumper_registry_def)
  obtain lim where stale: "stale_task_settings example_settings = Inr lim"
    by (simp add: example_settings_def stale_task_settings_def default_settings_def is_positive_number_get is_positive_integer_get)
  have r: "r = fst (task_scheduler_factory example_settings example_scheduler_settings None w0)"
    and p: "ps_registries p = (empty_dumper_registry, example_items)"
    using assms(3) loaded prep by (auto simp: handle_block_tasks_def Let_def split: prod.splits)
  have sc: "\<exists>sc. r = Inr sc \<and> poll_interval sc = 1 \<and> start_from_block sc = Some (PyStr ''current'') \<and> lookback_enabled sc"
    by (cases lim) (simp add: r task_scheduler_factory_def stale example_scheduler_settings_def Let_def)
  have worker: "on_worker_ready derive repr others fresh_process = (Inr (), fresh_process\<lparr>ps_registries := ps_registries p\<rparr>)"
    using loaded p by (simp add: on_worker_ready_def setup_celery_tasks_def empty_dumper_registry_def)
  have "process_block (process_ctx example_settings accepts takes p) b None w =
      process_block (process_ctx example_settings accepts takes p) b (Some example_items) w"
    using p by (simp add: process_block_def process_ctx_def get_functions_def)
  then have "recorded_keys (table (process_block (process_ctx example_settings accepts takes p) b None w)) =
      recorded_keys (table w) \<union> example_work b"
    using process_block_keys [OF assms(2), of "process_ctx example_settings accepts takes p" b example_items]
      example_called_for [of b] by (simp only:)
  then show ?thesis using sc worker example_work_card by simp
qed

theorem example_block_adds_its_work_witness:
  "recorded_keys (table (process_block (process_ctx example_settings (\<lambda>_. True) (\<lambda>_ _. 1)
      (fst (snd (handle_block_tasks example_settings (\<lambda>args _. args)
         (example_modules (\<lambda>_. []) (\<lambda>n. \<lparr>tm_name = n, tm_import = (\<lambda>regs. (Some (ModuleNotFoundError n), regs))\<rparr>))
         example_scheduler_settings (fresh_process, sample_world))))) 138 None sample_world)) =
   {(138, every_block_path, serialize_args []), (138, recent_blocks_path, serialize_args []),
    (138, subnet_path, serialize_args (netuid_args 12))}"
proof -
  let ?others = "\<lambda>n. \<lparr>tm_name = n, tm_import = (\<lambda>regs. (Some (ModuleNotFoundError n), regs))\<rparr> :: task_module"
  have missing: "missing ?others" by (simp add: missing_def)
  have ok: "db_ok (table sample_world)" by (simp add: sample_world_def)
  have none: "recorded_keys (table sample_world) = {}" by (simp add: recorded_keys_def sample_world_def empty_db_def)
  have "n = 12" if "10 \<le> n" "n \<le> 14" "(138 + n) mod 50 = 0" for n :: int
    using example_netuid [of 138 n 12] that by simp
  then have "example_work 138 = {(138, every_block_path, serialize_args []), (138, recent_blocks_path, serialize_args []),
      (138, subnet_path, serialize_args (netuid_args 12))}"
    unfolding example_work_def by auto
  moreover obtain r p w1 where handle: "handle_block_tasks example_settings (\<lambda>args _. args) (example_modules (\<lambda>_. []) ?others)
      example_scheduler_settings (fresh_process, sample_world) = (r, p, w1)"
    by (rule prod_cases3)
  ultimately show ?thesis
    using example_block_adds_its_work [OF missing ok handle, of "\<lambda>_. True" "\<lambda>_ _. 1" 138] none
    by simp
qed

text \<open>
  The beat schedule runs a task no worker knows. The names a worker gets from the project are those of its block
  tasks; \<open>v1/tasks.py\<close>, which declares the clean-up, is not a module that set-up imports.
\<close>

lemma beat_task_is_unknown:
  assumes "missing others" "(n, entry) \<in> set CELERY_BEAT_SCHEDULE"
    and "on_worker_ready derive repr others fresh_process = (r, p)"
  shows "get_by_executable_path (beat_task entry) (snd (ps_registries p)) = None \<and>
    ''abstract_block_dumper.v1.tasks'' \<notin> set (module_names INSTALLED_APPS)"
proof -
  have "snd (ps_registries p) = example_items"
    using assms(3) example_modules_loaded [OF assms(1), of repr "(empty_dumper_registry, [])"]
    by (auto simp: on_worker_ready_def setup_celery_tasks_def fresh_process_def empty_dumper_registry_def)
  moreover have "beat_task entry = ''abstract_block_dumper.cleanup_old_tasks''"
    using assms(2) by (simp add: CELERY_BEAT_SCHEDULE_def)
  moreover have "get_by_executable_path ''abstract_block_dumper.cleanup_old_tasks'' example_items = None"
    by (simp add: example_items_def example_item_sel every_block_path_def recent_blocks_path_def subnet_path_def)
  moreover have "''abstract_block_dumper.v1.tasks'' \<notin> set (module_names INSTALLED_APPS)" by code_simp
  ultimately show ?thesis by simp
qed

text \<open>
  The condition in the documentation of \<open>block_task\<close>, \<open>bn + netuid % 100 == 0\<close>, binds the other way and holds
  for no block.
\<close>

lemma documented_condition_never_holds: "0 < bn \<Longrightarrow> bn + netuid mod 100 \<noteq> (0 :: int)"
  using pos_mod_sign [of 100 netuid] by linarith

end
