(* ===== verification/Spec2Isabelle.thy ===== *)
theory Spec2Isabelle
  imports Attempt_Lifecycle Task_Runner Reconciler Backfillers Block_Processor Celery_Executor
    Backfill_Command Maintenance Scheduler Block_Task Checks Startup Chain_Client
    Job_Machine Job_Progress Block_Task_Machine Broker_Contacts Queue_Listing Schema Build_Sessions Example_Project
begin

text \<open>
  A verification of \<open>abstract-block-dumper\<close>, a Django and Celery library that runs a project's functions
  for the blocks of a chain. Paths below are under \<open>src/src/abstract_block_dumper/\<close> unless
  they say otherwise.

  \<^bold>\<open>The program.\<close> A project declares block tasks, either with \<open>@block_task\<close> (\<open>v1/decorators.py\<close>) or on a
  \<open>BlockDumper\<close> whose queues carry a policy (\<open>_internal/services/block_dumper.py\<close>, \<open>queue_policy.py\<close>). The scheduler
  polls the chain heads and submits every task whose condition holds for a block; lookback and the
  backfill command submit older blocks. A submission records a \<open>TaskAttempt\<close> row and sends a Celery message. A worker
  claims the row, runs the function and records the outcome; failures are retried or given up. Sweeps
  recover attempts whose worker died, whose message expired or which are stuck. All processes meet only
  in the table of attempts, so correctness is about what sequences of guarded updates can do to it.

  \<^bold>\<open>Theories, in the order of the code.\<close>

  \<^item> \<^theory_text>\<open>Dumper_Prelude\<close>: exceptions and results, dictionaries in insertion order, ordered and limited reads.
  \<^item> \<^theory_text>\<open>Retry_Policy\<close>, \<^theory_text>\<open>Django_Settings\<close>, \<^theory_text>\<open>Queue_Policy\<close>, \<^theory_text>\<open>Time_Limits\<close>: configured values and their checks
    (\<open>numeric.py\<close>, \<open>retry_policy.py\<close>, \<open>recovery_settings.py\<close>, \<open>queue_policy.py\<close>, \<open>time_limits.py\<close>). The locale \<open>retries\<close> is the
    protocol \<open>_Retries\<close>, interpreted for queue policies and for the settings.
  \<^item> \<^theory_text>\<open>Json_Args\<close>: \<open>json.dumps\<close> with sorted keys and \<open>json.loads\<close> on the arguments of attempts.
  \<^item> \<^theory_text>\<open>Task_Attempt\<close>, \<^theory_text>\<open>Queue_Attempts\<close>, \<^theory_text>\<open>Attempt_Transitions\<close>, \<^theory_text>\<open>Django_Dal\<close>: the model \<open>TaskAttempt\<close> as a
    record, the table, and the queries and transitions of \<open>_internal/dal\<close>. A conditional UPDATE is a guard
    and a write.
  \<^item> \<^theory_text>\<open>Attempt_Lifecycle\<close>: the transitions as a step relation on tables and on rows, its invariants (the
    locale \<open>row_invariant\<close>), fencing, the bound on tries and the three sweeps.
  \<^item> \<^theory_text>\<open>Registries\<close>, \<^theory_text>\<open>Block_Dumper\<close>: registered tasks, dumpers, queues and their owners, and the registration of
    tasks. The locale \<open>base_registry\<close> is \<open>BaseRegistry\<close>.
  \<^item> \<^theory_text>\<open>World\<close>: the state handlers share (table, clocks, messages sent, metrics), retry rules, and the
    contract \<open>handles\<close> of a handler: it takes only steps of the lifecycle.
  \<^item> \<^theory_text>\<open>Queue_Executor\<close>, \<^theory_text>\<open>Celery_Executor\<close>, \<^theory_text>\<open>Block_Task\<close>, \<^theory_text>\<open>Task_Runner\<close>, \<^theory_text>\<open>Reconciler\<close>, \<^theory_text>\<open>Block_Processor\<close>: sending,
    running and recovering attempts.
  \<^item> \<^theory_text>\<open>Throttle\<close>, \<^theory_text>\<open>Backfillers\<close>, \<^theory_text>\<open>Backfill_Scheduler\<close>, \<^theory_text>\<open>Backfill_Command\<close>: gates, windows, backfills of
    ranges, gap detection. The locales \<open>submit_loop\<close> and \<open>admission\<close> are the contracts of the loops and gates.
  \<^item> \<^theory_text>\<open>Scheduler\<close>, \<^theory_text>\<open>Maintenance\<close>, \<^theory_text>\<open>Celery_Config\<close>, \<^theory_text>\<open>Checks\<close>, \<^theory_text>\<open>Startup\<close>, \<^theory_text>\<open>Chain_Client\<close>: the live
    scheduler and the queue monitor, the operator's tools, the queues on the broker, the system checks, how processes start, and
    the client of the chain (\<open>_internal/providers/bittensor_client.py\<close>) with its connections, its event loop and its time limit.
  \<^item> \<^theory_text>\<open>Broker_Contacts\<close>, \<^theory_text>\<open>Queue_Listing\<close>: the contacts with RabbitMQ and for tests (\<open>_internal/contacts\<close>), their
    injection, the statistics they report and the table \<open>block_dumper_queues_v1\<close> prints. The locales \<open>broker_contact\<close> and
    \<open>stats_provider\<close> are their contracts.
  \<^item> \<^theory_text>\<open>Schema\<close>: the declared model, the migrations and the admin pages. \<^theory_text>\<open>Build_Sessions\<close>: the sessions of the
    repository's \<open>noxfile.py\<close>.
  \<^item> \<^theory_text>\<open>Job_Machine\<close> and this theory: the specification of one unit of work and the refinement for \<open>BlockDumper\<close>
    tasks; \<^theory_text>\<open>Block_Task_Machine\<close>: the same for \<open>@block_task\<close> tasks, whose retries are saved after the transaction.
  \<^item> \<^theory_text>\<open>Job_Progress\<close>: infinite runs of the processes, with workers that die, and weak fairness.
  \<^item> \<^theory_text>\<open>Example_Project\<close>: the project under \<open>src/example_project/\<close>, its settings, tasks and start, which puts the parts
    together the way a user of the library does.

  \<^bold>\<open>What is shown.\<close> The processes refine a small machine per unit of work, and with bounded retries every
  unit of work settles (this theory). When the workers and the sweeps are weakly fair to it, it is also finished:
  it succeeds or is abandoned, even when workers die with their claim or before they send a retry (\<^theory_text>\<open>Job_Progress\<close>). The units of
  \<open>@block_task\<close> tasks settle as long as a worker saves the retry of a failure before the retry time and no run is committed
  between a submission's read and its save; a late retry, and a late submission, undoes a success (\<^theory_text>\<open>Block_Task_Machine\<close>).
  Every table that the transitions of \<open>BlockDumper\<close> produce is well formed, outcomes are final under them, an
  attempt is never tried more often than its rules allow, a worker that lost its claim can record
  nothing while its token is not claimed with again, and every unfinished attempt that may still run is found by exactly one sweep (\<^theory_text>\<open>Attempt_Lifecycle\<close>). Messages follow the policy of
  their queue and the row records what was sent (\<^theory_text>\<open>Queue_Executor\<close>). A run is recorded on every branch, for \<open>BlockDumper\<close>
  and for \<open>@block_task\<close> tasks (\<^theory_text>\<open>Task_Runner\<close>, \<^theory_text>\<open>Block_Task\<close>). Throttles admit only with room, and admit once there
  is room (\<^theory_text>\<open>Throttle\<close>, \<^theory_text>\<open>Backfillers\<close>). Backfills leave nothing out, a dry run bounds what a backfill sends, gaps
  are exact, the report of a gap backfill is true up to gaps that were interrupted, lookback fills its window, chain heads advance independently (\<^theory_text>\<open>Backfill_Scheduler\<close>,
  \<^theory_text>\<open>Backfill_Command\<close>, \<^theory_text>\<open>Scheduler\<close>). Registered tasks are well formed, one queue name means one policy and one owner, the system
  check foretells the installation of the queues but for the default queue of a project without \<open>task_queues\<close>, and a worker starts only with them in place (\<^theory_text>\<open>Block_Dumper\<close>,
  \<^theory_text>\<open>Registries\<close>, \<^theory_text>\<open>Checks\<close>, \<^theory_text>\<open>Startup\<close>). Arguments round-trip and identify an attempt (\<^theory_text>\<open>Json_Args\<close>); retry delays equal the ideal schedule
  in spite of float overflow (\<^theory_text>\<open>Retry_Policy\<close>). An injected contact is there inside its block only, the mock answers
  like the broker it mirrors, listing and monitor show every queue (\<^theory_text>\<open>Broker_Contacts\<close>, \<^theory_text>\<open>Queue_Listing\<close>). The migrations
  build the declared model (\<^theory_text>\<open>Schema\<close>), and a release is made from a clean main branch only, drafts apart (\<^theory_text>\<open>Build_Sessions\<close>). A
  read of the finalized head ends within its time limits and a failed one drops its connection (\<^theory_text>\<open>Chain_Client\<close>). A new
  block adds exactly the work the example project declares, and its beat schedule names a task no worker knows
  (\<^theory_text>\<open>Example_Project\<close>).

  \<^bold>\<open>Modelling choices.\<close> Times are rationals in seconds, read once per handler from a Python and a database
  clock that may differ; Python's rounding to microseconds is left out. Floats are finite rationals, with
  the overflow of powers and products written out. Strings are lists of characters below 256. A
  transaction and a conditional UPDATE are atomic, and so are a claim and the reload of the claimed row right
  after it. An exception is a value \<open>Raised\<close>; \<open>SystemExit\<close> and \<open>KeyboardInterrupt\<close>, which \<open>except Exception\<close> does
  not catch, are \<open>Exits\<close> of a task function and \<open>Exited\<close> of a handler, and escape as they do in the code. A
  condition of a task is taken to raise only \<open>Exception\<close>s: one that exits ends its process, at a point where no
  statement is half done. Loops over blocks, tasks and attempts are structural, so no fuel is needed; a loop that
  waits or polls runs over the list of readings it gets (\<open>poll\<close>, \<open>tick\<close>), and the liveness theorems say which
  readings let it go on. Metrics are the list of samples, durations included. What a command prints is a list of lines; the text
  of a float is a parameter.

  \<^bold>\<open>Gaps.\<close> Where a handler commits more than one statement, the processes that act in between are a parameter of
  the handler. A handler of \<^theory_text>\<open>Queue_Executor\<close> (\<open>execute_amid\<close>, \<open>dispatch_retry_amid\<close>), \<^theory_text>\<open>Reconciler\<close>
  (\<open>recover_expired_lease_amid\<close>, \<open>recover_expired_message_amid\<close>, \<open>recover_stuck_task_amid\<close>, \<open>reconcile_amid\<close>),
  \<^theory_text>\<open>Celery_Executor\<close> (\<open>celery_execute_amid\<close>) and \<^theory_text>\<open>Block_Processor\<close> (\<open>reconcile_stuck_task_amid\<close>) has a function
  on worlds for each gap, named by the statement after it (\<^typ>\<open>issued\<close>); the one without \<open>_amid\<close> is the case
  of nobody acting. The runs of workers have theirs in the records \<open>delivery\<close> and \<open>wrapper_delivery\<close>. In the system of
  \<^theory_text>\<open>Job_Machine\<close> these functions are arbitrary sequences of lifecycle steps (\<open>others_between\<close>), with one
  assumption: in the gap between a sweep's failure of an expired lease and its next statement nobody claims the row
  once more \<^emph>\<open>and\<close> lets that new lease expire (\<open>no_second_lease\<close>). \<open>task_create_or_get_pending\<close> of the \<open>@block_task\<close> tasks reads a row without a
  lock and saves all of it, so its statements are steps of their own in \<^theory_text>\<open>Block_Task_Machine\<close>: a
  submission is a value (\<^typ>\<open>submission\<close>) that any other step may come between, and the stuck-task sweep leaves one
  behind when it has reset a row. There a run that is committed between the read and the save is lost
  (\<open>late_submission_undoes_success\<close>), and the refinement is stated for the runs in which that does not happen.

  \<^bold>\<open>Parameters.\<close> Celery, Kombu, Django, PostgreSQL and the chain are outside the repository: whether the broker
  takes a message (\<open>broker_accepts\<close>), the answers to declarations and statistics, the derivation of queue
  arguments, what the AMQP server answers, the durations, when Ctrl+C arrives, the readings of the chain heads, the answers of the chain and how long they
  take, the answer to \<open>SELECT ... FOR UPDATE NOWAIT\<close>, what a task module or a
  task function does when it runs.

  \<^bold>\<open>Not modelled.\<close> Logging and the colours of printed text; the registration of the metrics with prometheus; how long
  the loops sleep; the parsing of command lines; the app config, which only imports the system checks; of the
  example project what is addressed to Django alone (middleware, templates, URLs, the database, \<open>manage.py\<close>, \<open>asgi.py\<close>,
  \<open>wsgi.py\<close>).
\<close>

section \<open>The system refines its specification\<close>

text \<open>
  C1. The processes of a project refine the machine of \<^const>\<open>job_step\<close>. In every state the scheduler,
  the workers, the sweeps and the operator can reach from an empty table, each unit of work is in a
  phase the machine can reach, and each action of a process moves every unit of work along the machine:
  it is recorded once, started only while it waits, finishes once, waits again only where the retry
  rules allow another try, and is never started again once it succeeded or was abandoned.
\<close>

theorem system_refines_job_machine:
  assumes "table w0 = empty_db" and "system_steps x w0 w" and "system_step x w w'"
  shows "job_steps (allows x) Unknown (phase_of (table w) k) \<and>
    job_steps (allows x) (phase_of (table w) k) (phase_of (table w') k)"
proof -
  have "leased_table (sweeping x) (table w)" and "job_steps (allows x) Unknown (phase_of (table w) k)"
    using system_from_empty [OF assms(2,1)] by blast+
  then show ?thesis using system.simulates [OF _ assms(3)] by blast
qed

theorem system_refines_job_machine_witness:
  "job_steps (allows sample_ctx) Unknown
     (phase_of (table (snd (execute sample_ctx sample_item 100 [] False None None sample_world))) (100, ''app.task'', ''{}''))"
proof -
  have "table sample_world = empty_db" by (simp add: sample_world_def)
  from system_refines_job_machine [OF this rtranclp.rtrancl_refl submit_alone] this
  show ?thesis by (metis phase_of_empty)
qed

text \<open>
  C3. Every unit of work settles. When the retry rules of the project allow at most \<open>m\<close> tries, then in
  an infinite run of the system the phase of a unit of work changes at most \<open>2 * m + 1\<close> times, whatever
  the processes do and in whatever order.
\<close>

theorem jobs_settle:
  assumes "tries_at_most x m" and "0 < m" and "table (w 0) = empty_db"
    and "\<And>j. system_step x (w j) (w (Suc j))"
  shows "finite {j. phase_of (table (w (Suc j))) k \<noteq> phase_of (table (w j)) k} \<and>
    card {j. phase_of (table (w (Suc j))) k \<noteq> phase_of (table (w j)) k} \<le> 2 * m + 1"
proof -
  obtain n where m: "m = Suc n" using assms(2) by (cases m) auto
  then show ?thesis
    using bounded_system.changes_bounded [of x w n k] assms(1,3,4) by simp
qed

text \<open>A block is submitted once and then nothing happens.\<close>

definition sample_run :: "nat \<Rightarrow> world" where
  "sample_run j = (if j = 0 then sample_world else snd (execute sample_ctx sample_item 100 [] False None None sample_world))"

theorem jobs_settle_witness:
  "card {j. phase_of (table (sample_run (Suc j))) (100, ''app.task'', ''{}'') \<noteq>
     phase_of (table (sample_run j)) (100, ''app.task'', ''{}'')} \<le> 7"
proof -
  have idle: "system_step sample_ctx v v" for v :: world
    using system_step.tick [of sample_ctx v "clk v"] by simp
  have "system_step sample_ctx (sample_run j) (sample_run (Suc j))" for j
    using idle submit_alone by (simp add: sample_run_def)
  moreover have "tries_at_most sample_ctx 3"
    by (simp add: tries_at_most_def sample_ctx_def get_max_attempt_limit_def default_settings_def sample_queue_def
        default_retry_policy_def)
  moreover have "table (sample_run 0) = empty_db" by (simp add: sample_run_def sample_world_def)
  ultimately show ?thesis using jobs_settle [of sample_ctx 3 sample_run] by simp
qed

end
